(* ===== verification/Prelude.thy ===== *)
theory Prelude
  imports Main "HOL-Library.Word"
begin

text \<open>
  Shared vocabulary of the development: the machine integer type of the code (\<open>u64\<close>), the
  standard library's checked and saturating operations on it, the iteration order of a
  hash set, and the generic lemmas on words, lists and finite sums that the component
  theories use.

  The binaries are built with \<open>cargo build --release\<close> (Dockerfile), so a plain \<open>+\<close>, \<open>-\<close> or
  \<open>*\<close> on \<open>u64\<close> wraps around: exactly the ring operations of \<^typ>\<open>64 word\<close>. Where the code
  relies on an operation not wrapping, that is a theorem, stated on \<^const>\<open>unat\<close>.
\<close>

named_theorems u64_simps \<open>exact values of the u64 operations, on nat\<close>

section \<open>Machine integers\<close>

type_synonym u64 = "64 word"

definition checked_add :: "u64 \<Rightarrow> u64 \<Rightarrow> u64 option" where
  "checked_add a b = (if unat a + unat b < 2 ^ 64 then Some (a + b) else None)"

definition checked_mul :: "u64 \<Rightarrow> u64 \<Rightarrow> u64 option" where
  "checked_mul a b = (if unat a * unat b < 2 ^ 64 then Some (a * b) else None)"

definition saturating_add :: "u64 \<Rightarrow> u64 \<Rightarrow> u64" where
  "saturating_add a b = (if unat a + unat b < 2 ^ 64 then a + b else -1)"

definition saturating_sub :: "u64 \<Rightarrow> u64 \<Rightarrow> u64" where
  "saturating_sub a b = (if b \<le> a then a - b else 0)"

definition saturating_mul :: "u64 \<Rightarrow> u64 \<Rightarrow> u64" where
  "saturating_mul a b = (if unat a * unat b < 2 ^ 64 then a * b else -1)"

lemma unat_lt_2_64 [simp]: "unat (a :: u64) < 18446744073709551616"
  using unsigned_less [of a, where 'a = nat] by simp

lemma unat_add_exact [u64_simps]:
  "unat a + unat b < 2 ^ 64 \<Longrightarrow> unat (a + b :: u64) = unat a + unat b"
  by (simp add: unat_word_ariths)

lemma unat_mult_exact [u64_simps]:
  "unat a * unat b < 2 ^ 64 \<Longrightarrow> unat (a * b :: u64) = unat a * unat b"
  by (simp add: unat_word_ariths)

lemma unat_sub_exact [u64_simps]:
  "unat b \<le> unat a \<Longrightarrow> unat (a - b :: u64) = unat a - unat b"
  by (simp add: unat_sub word_le_nat_alt)

lemma unat_minus_one_u64 [simp]: "unat (- 1 :: u64) = 2 ^ 64 - 1"
  by (simp add: unsigned_minus_1_eq_mask mask_eq_exp_minus_1)

lemma checked_add_Some:
  "checked_add a b = Some c \<Longrightarrow> unat c = unat a + unat b \<and> unat a + unat b < 2 ^ 64"
  by (auto simp: checked_add_def u64_simps split: if_splits)

lemma checked_mul_Some:
  "checked_mul a b = Some c \<Longrightarrow> unat c = unat a * unat b \<and> unat a * unat b < 2 ^ 64"
  by (auto simp: checked_mul_def u64_simps split: if_splits)

lemma checked_mul_eq_Some [simp]:
  "unat a * unat b < 2 ^ 64 \<Longrightarrow> checked_mul a b = Some (a * b)"
  by (simp add: checked_mul_def)

lemma unat_saturating_add: "unat (saturating_add a b) = min (unat a + unat b) (2 ^ 64 - 1)"
  by (auto simp: saturating_add_def u64_simps)

lemma unat_saturating_sub: "unat (saturating_sub a b) = unat a - unat b"
  by (auto simp: saturating_sub_def u64_simps word_le_nat_alt)

lemma unat_saturating_mul: "unat (saturating_mul a b) = min (unat a * unat b) (2 ^ 64 - 1)"
  by (auto simp: saturating_mul_def u64_simps)

lemma unat_min_u64: "unat (min a b :: u64) = min (unat a) (unat b)"
  by (simp add: min_def word_le_nat_alt)

lemma unat_max_u64: "unat (max a b :: u64) = max (unat a) (unat b)"
  by (simp add: max_def word_le_nat_alt)

lemma unat_div_u64: "unat (a div b :: u64) = unat a div unat b"
  by (rule unat_div)

lemma u64_pos_iff: "(0 :: u64) < a \<longleftrightarrow> 0 < unat a"
  by (simp add: word_less_nat_alt)

lemma u64_not_pos [simp]: "\<not> (0 :: u64) < a \<longleftrightarrow> a = 0"
  by (simp add: word_gt_0)

section \<open>Sums of words\<close>

text \<open>\<^const>\<open>sum_list\<close> on words wraps like the code's \<open>iter().sum()\<close>; it is exact when the
  sum over the naturals fits.\<close>

lemma unat_sum_list_exact:
  "(\<Sum>x \<leftarrow> xs. unat (f x)) < 2 ^ 64 \<Longrightarrow> unat (\<Sum>x \<leftarrow> xs. (f x :: u64)) = (\<Sum>x \<leftarrow> xs. unat (f x))"
  by (induction xs) (simp_all add: u64_simps)

lemma member_le_sum_list_nat: "x \<in> set xs \<Longrightarrow> f x \<le> (\<Sum>y \<leftarrow> xs. (f y :: nat))"
  by (induction xs) auto

lemma sum_list_filter_split:
  "(\<Sum>x \<leftarrow> xs. (f x :: nat)) = (\<Sum>x \<leftarrow> filter P xs. f x) + (\<Sum>x \<leftarrow> filter (\<lambda>x. \<not> P x) xs. f x)"
  by (induction xs) auto

lemma sum_swap_list: "(\<Sum>a \<in> A. \<Sum>x \<leftarrow> xs. (f a x :: nat)) = (\<Sum>x \<leftarrow> xs. \<Sum>a \<in> A. f a x)"
  by (induction xs) (simp_all add: sum.distrib)

lemma sum_single_point:
  fixes n :: nat
  assumes "finite A" "a \<in> A"
  shows "(\<Sum>x \<in> A. if x = a then n else 0) = n"
  using assms by (simp add: sum.delta)

lemma sum_fun_upd_add:
  fixes f :: "'a \<Rightarrow> nat"
  assumes "finite A" "a \<in> A"
  shows "(\<Sum>x \<in> A. (f(a := v)) x) + f a = (\<Sum>x \<in> A. f x) + v"
proof -
  have "(\<Sum>x \<in> A. (f(a := v)) x) = v + (\<Sum>x \<in> A - {a}. f x)"
    using assms by (subst sum.remove [OF assms]) (auto intro!: arg_cong2 [where f = "(+)"] sum.cong)
  moreover have "(\<Sum>x \<in> A. f x) = f a + (\<Sum>x \<in> A - {a}. f x)"
    by (rule sum.remove [OF assms])
  ultimately show ?thesis by simp
qed

lemma sum_unchanged_except:
  fixes f g :: "'a \<Rightarrow> nat"
  assumes "finite A" "a \<in> A" and "\<And>x. x \<noteq> a \<Longrightarrow> g x = f x"
  shows "sum g A + f a = sum f A + g a"
proof -
  have "g = f(a := g a)" using assms(3) by auto
  then show ?thesis using sum_fun_upd_add [OF assms(1,2), of f "g a"] by metis
qed

fun opt_weight :: "('v \<Rightarrow> nat) \<Rightarrow> 'v option \<Rightarrow> nat" where
  "opt_weight w None = 0"
| "opt_weight w (Some v) = w v"

section \<open>Hash sets\<close>

text \<open>
  \<open>HashSet::drain\<close> yields every element once, in an order that depends on a random seed. A
  drain is therefore an argument of the definitions that use one; what the library
  documents of it is this predicate.
\<close>

type_synonym 'a drain = "'a set \<Rightarrow> 'a list"

definition is_drain :: "'a drain \<Rightarrow> bool" where
  "is_drain d \<longleftrightarrow> (\<forall>S. finite S \<longrightarrow> set (d S) = S \<and> distinct (d S))"

lemma set_drain [simp]: "is_drain d \<Longrightarrow> finite S \<Longrightarrow> set (d S) = S"
  and distinct_drain [simp]: "is_drain d \<Longrightarrow> finite S \<Longrightarrow> distinct (d S)"
  by (simp_all add: is_drain_def)

lemma drain_eq_Nil [simp]: "is_drain d \<Longrightarrow> finite S \<Longrightarrow> d S = [] \<longleftrightarrow> S = {}"
  by (metis set_drain set_empty)

lemma drain_empty [simp]: "is_drain d \<Longrightarrow> d {} = []"
  by simp

lemma is_drain_sorted [simp]: "is_drain (sorted_list_of_set :: 'a::linorder set \<Rightarrow> 'a list)"
  by (simp add: is_drain_def)

section \<open>Two-key updates and failing loops\<close>

definition upd2 :: "('a \<Rightarrow> 'b \<Rightarrow> 'v) \<Rightarrow> 'a \<Rightarrow> 'b \<Rightarrow> 'v \<Rightarrow> 'a \<Rightarrow> 'b \<Rightarrow> 'v" where
  "upd2 f a b v = (\<lambda>a' b'. if a' = a \<and> b' = b then v else f a' b')"

lemma upd2_apply: "upd2 f a b v a' b' = (if a' = a \<and> b' = b then v else f a' b')"
  by (simp add: upd2_def)

text \<open>A \<open>for\<close> loop whose body may panic (\<open>None\<close>).\<close>

fun for_each :: "('e \<Rightarrow> 's \<Rightarrow> 's option) \<Rightarrow> 'e list \<Rightarrow> 's \<Rightarrow> 's option" where
  "for_each f [] s = Some s"
| "for_each f (x # xs) s = (case f x s of None \<Rightarrow> None | Some s' \<Rightarrow> for_each f xs s')"

lemma for_each_append:
  "for_each f (xs @ ys) s = (case for_each f xs s of None \<Rightarrow> None | Some s' \<Rightarrow> for_each f ys s')"
  by (induction xs arbitrary: s) (auto split: option.splits)

end
