(* ===== verification/BTree_Map.thy ===== *)
theory BTree_Map
  imports Prelude "HOL-Library.Multiset"
begin

text \<open>
  The part of \<open>std::collections::BTreeMap\<close> the code uses: lookup, insertion, removal, in-order
  iteration, and the two ends (\<open>first_key_value\<close>/\<open>pop_first\<close>, \<open>last_key_value\<close>/\<open>pop_last\<close>). A map
  is its list of entries in ascending key order. The contract a client relies on is the
  locale \<open>ordered_map\<close>; the price levels of \<open>book.rs\<close> and the aggregates of \<open>api/book.rs\<close> are
  its two clients.
\<close>

section \<open>The contract\<close>

locale ordered_map =
  fixes lookup :: "'m \<Rightarrow> 'k::linorder \<Rightarrow> 'v option"
    and insert_kv :: "'k \<Rightarrow> 'v \<Rightarrow> 'm \<Rightarrow> 'm"
    and remove_k :: "'k \<Rightarrow> 'm \<Rightarrow> 'm"
    and entries :: "'m \<Rightarrow> ('k \<times> 'v) list"
    and invar :: "'m \<Rightarrow> bool"
  assumes lookup_insert: "invar m \<Longrightarrow> lookup (insert_kv k v m) = (lookup m)(k \<mapsto> v)"
    and lookup_remove: "invar m \<Longrightarrow> lookup (remove_k k m) = (lookup m)(k := None)"
    and entries_lookup: "invar m \<Longrightarrow> map_of (entries m) = lookup m"
    and entries_sorted: "invar m \<Longrightarrow> sorted_wrt (<) (map fst (entries m))"
    and invar_insert: "invar m \<Longrightarrow> invar (insert_kv k v m)"
    and invar_remove: "invar m \<Longrightarrow> invar (remove_k k m)"
begin

lemma entries_distinct: "invar m \<Longrightarrow> distinct (map fst (entries m))"
  using entries_sorted strict_sorted_iff by blast

lemma entries_mem: "invar m \<Longrightarrow> (k, v) \<in> set (entries m) \<longleftrightarrow> lookup m k = Some v"
  using entries_distinct entries_lookup by (metis map_of_eq_Some_iff)

lemma finite_dom_lookup: "invar m \<Longrightarrow> finite (dom (lookup m))"
  by (metis entries_lookup finite_dom_map_of)

lemma dom_lookup: "invar m \<Longrightarrow> dom (lookup m) = fst ` set (entries m)"
  by (metis entries_lookup dom_map_of_conv_image_fst)

text \<open>A sum over the entries is a sum over the keys, so single-key updates shift it by the
  contribution of that key.\<close>

lemma sum_entries_dom:
  assumes "invar m" and "finite K" and "dom (lookup m) \<subseteq> K"
  shows "(\<Sum>(k, v) \<leftarrow> entries m. w v) = (\<Sum>k \<in> K. opt_weight w (lookup m k))"
proof -
  have "(\<Sum>(k, v) \<leftarrow> entries m. w v) = (\<Sum>(k, v) \<in> set (entries m). w v)"
    using entries_distinct [OF assms(1)] by (simp add: sum_list_distinct_conv_sum_set distinct_map)
  also have "\<dots> = (\<Sum>k \<in> fst ` set (entries m). opt_weight w (lookup m k))"
  proof (rule sum.reindex_cong [symmetric, where l = fst])
    show "inj_on fst (set (entries m))"
      using entries_distinct [OF assms(1)] by (simp add: distinct_map)
  qed (auto simp: entries_mem [OF assms(1)])
  also have "\<dots> = (\<Sum>k \<in> K. opt_weight w (lookup m k))"
    using assms dom_lookup [OF assms(1)]
    by (intro sum.mono_neutral_left) (auto simp del: opt_weight.simps, metis domIff opt_weight.simps(1))
  finally show ?thesis .
qed

lemma sum_entries_update:
  assumes "invar m" "invar m'" and "\<And>j. j \<noteq> k \<Longrightarrow> lookup m' j = lookup m j"
  shows "(\<Sum>(k, v) \<leftarrow> entries m'. w v) + opt_weight w (lookup m k) =
         (\<Sum>(k, v) \<leftarrow> entries m. w v) + opt_weight w (lookup m' k)"
proof -
  let ?K = "insert k (dom (lookup m) \<union> dom (lookup m'))"
  have fin: "finite ?K" using assms finite_dom_lookup by simp
  have "(\<Sum>j \<in> ?K. opt_weight w (lookup m' j)) + opt_weight w (lookup m k) =
        (\<Sum>j \<in> ?K. opt_weight w (lookup m j)) + opt_weight w (lookup m' k)"
    using assms(3) by (intro sum_unchanged_except fin) auto
  moreover have "(\<Sum>(k, v) \<leftarrow> entries m'. w v) = (\<Sum>j \<in> ?K. opt_weight w (lookup m' j))"
    by (intro sum_entries_dom fin assms) auto
  moreover have "(\<Sum>(k, v) \<leftarrow> entries m. w v) = (\<Sum>j \<in> ?K. opt_weight w (lookup m j))"
    by (intro sum_entries_dom fin assms) auto
  ultimately show ?thesis by simp
qed

end

section \<open>Entries in ascending key order\<close>

type_synonym ('k, 'v) btree_map = "('k \<times> 'v) list"

fun bt_insert :: "'k::linorder \<Rightarrow> 'v \<Rightarrow> ('k, 'v) btree_map \<Rightarrow> ('k, 'v) btree_map" where
  "bt_insert k v [] = [(k, v)]"
| "bt_insert k v ((j, u) # m) =
     (if k < j then (k, v) # (j, u) # m
      else if k = j then (k, v) # m
      else (j, u) # bt_insert k v m)"

definition bt_get :: "('k, 'v) btree_map \<Rightarrow> 'k \<Rightarrow> 'v option" where
  "bt_get m k = map_of m k"

definition bt_remove :: "'k \<Rightarrow> ('k, 'v) btree_map \<Rightarrow> ('k, 'v) btree_map" where
  "bt_remove k m = filter (\<lambda>(j, u). j \<noteq> k) m"

definition first_key_value :: "('k, 'v) btree_map \<Rightarrow> ('k \<times> 'v) option" where
  "first_key_value m = (case m of [] \<Rightarrow> None | e # _ \<Rightarrow> Some e)"

definition last_key_value :: "('k, 'v) btree_map \<Rightarrow> ('k \<times> 'v) option" where
  "last_key_value m = (case m of [] \<Rightarrow> None | _ \<Rightarrow> Some (last m))"

definition pop_first :: "('k, 'v) btree_map \<Rightarrow> ('k, 'v) btree_map" where
  "pop_first m = tl m"

definition pop_last :: "('k, 'v) btree_map \<Rightarrow> ('k, 'v) btree_map" where
  "pop_last m = butlast m"

text \<open>Writing through the \<open>get_mut\<close> reference to the entry at one end.\<close>

fun bt_put_first :: "'v \<Rightarrow> ('k, 'v) btree_map \<Rightarrow> ('k, 'v) btree_map" where
  "bt_put_first v [] = []"
| "bt_put_first v ((k, u) # m) = (k, v) # m"

definition bt_put_last :: "'v \<Rightarrow> ('k, 'v) btree_map \<Rightarrow> ('k, 'v) btree_map" where
  "bt_put_last v m = rev (bt_put_first v (rev m))"

definition bt_inv :: "('k::linorder, 'v) btree_map \<Rightarrow> bool" where
  "bt_inv m \<longleftrightarrow> sorted_wrt (<) (map fst m)"

lemma last_key_value_rev: "last_key_value m = first_key_value (rev m)"
proof (cases m rule: rev_cases)
  case (snoc ys y)
  then show ?thesis by (cases ys) (simp_all add: last_key_value_def first_key_value_def)
qed (simp add: last_key_value_def first_key_value_def)

lemma bt_inv_Nil [simp]: "bt_inv []"
  and bt_inv_Cons [simp]: "bt_inv (e # m) \<longleftrightarrow> (\<forall>x \<in> set m. fst e < fst x) \<and> bt_inv m"
  by (simp_all add: bt_inv_def)

lemma bt_get_insert [simp]: "bt_get (bt_insert k v m) = (bt_get m)(k \<mapsto> v)"
  by (induction k v m rule: bt_insert.induct) (auto simp: bt_get_def fun_eq_iff)

lemma bt_get_remove [simp]: "bt_get (bt_remove k m) = (bt_get m)(k := None)"
  by (induction m) (auto simp: bt_get_def bt_remove_def fun_eq_iff)

lemma set_bt_insert: "set (bt_insert k v m) \<subseteq> insert (k, v) (set m)"
  by (induction k v m rule: bt_insert.induct) auto

lemma bt_inv_insert [simp]: "bt_inv m \<Longrightarrow> bt_inv (bt_insert k v m)"
proof (induction k v m rule: bt_insert.induct)
  case (2 k v j u m)
  then show ?case using set_bt_insert [of k v m] by fastforce
qed simp

lemma bt_inv_remove [simp]: "bt_inv m \<Longrightarrow> bt_inv (bt_remove k m)"
  by (induction m) (auto simp: bt_remove_def)

text \<open>A map of queues as the multiset of everything queued.\<close>

definition queued :: "'v list option \<Rightarrow> 'v multiset" where
  "queued q = (case q of None \<Rightarrow> {#} | Some v \<Rightarrow> mset v)"

lemma bt_get_below: "bt_inv m \<Longrightarrow> \<forall>x \<in> set m. k < fst x \<Longrightarrow> bt_get m k = None"
  by (induction m) (auto simp: bt_get_def)

lemma mset_bt_insert:
  "bt_inv m \<Longrightarrow>
   mset (concat (map snd (bt_insert k v m))) + queued (bt_get m k) = mset (concat (map snd m)) + mset v"
proof (induction k v m rule: bt_insert.induct)
  case (2 k v j u m)
  have "bt_get ((j, u) # m) k = (if k = j then Some u else bt_get m k)" by (simp add: bt_get_def)
  moreover have "k < j \<Longrightarrow> bt_get m k = None"
    using 2(2) by (intro bt_get_below) auto
  ultimately show ?case using 2 by (auto simp: queued_def)
qed (simp add: bt_get_def queued_def)

lemma mset_bt_remove:
  "bt_inv m \<Longrightarrow>
   mset (concat (map snd (bt_remove k m))) + queued (bt_get m k) = mset (concat (map snd m))"
proof (induction m)
  case (Cons e m)
  have g: "bt_get (e # m) k = (if k = fst e then Some (snd e) else bt_get m k)" by (simp add: bt_get_def)
  show ?case
  proof (cases "k = fst e")
    case True
    then have "bt_get m k = None" using Cons.prems by (intro bt_get_below) auto
    with True g Cons show ?thesis by (auto simp: bt_remove_def queued_def case_prod_beta)
  next
    case False
    with g Cons show ?thesis by (auto simp: bt_remove_def case_prod_beta)
  qed
qed (simp add: bt_get_def queued_def bt_remove_def)

lemma map_of_bt_get: "map_of m = bt_get m"
  by (rule ext) (simp add: bt_get_def)

interpretation btm: ordered_map bt_get bt_insert bt_remove "\<lambda>m. m" bt_inv
  by unfold_locales (simp_all add: map_of_bt_get bt_inv_def [symmetric])

end
