(* ===== verification/Market.thy ===== *)
theory Market
  imports BTree_Map "HOL-Library.Product_Lexorder"
begin

text \<open>
  \<open>src/market.rs\<close> and \<open>src/error.rs\<close>: account ids, currencies, trading pairs with their textual
  form, and the reasons a command is rejected.
\<close>

type_synonym account_id = u64

datatype currency = USD | SOL

text \<open>The derived \<open>Hash\<close>/\<open>Eq\<close> of the code only needs equality; the order below makes the
  library's sorted enumeration applicable to sets of currencies.\<close>

instantiation currency :: linorder
begin

fun less_eq_currency :: "currency \<Rightarrow> currency \<Rightarrow> bool" where
  "less_eq_currency USD _ = True"
| "less_eq_currency SOL c = (c = SOL)"

definition less_currency :: "currency \<Rightarrow> currency \<Rightarrow> bool" where
  "less_currency c d \<longleftrightarrow> c \<le> d \<and> \<not> d \<le> c"

instance
proof
  fix x y z :: currency
  show "(x < y) = (x \<le> y \<and> \<not> y \<le> x)" by (simp add: less_currency_def)
  show "x \<le> x" by (cases x) simp_all
  show "x \<le> y \<Longrightarrow> y \<le> z \<Longrightarrow> x \<le> z" by (cases x; cases y) simp_all
  show "x \<le> y \<Longrightarrow> y \<le> x \<Longrightarrow> x = y" by (cases x; cases y) simp_all
  show "x \<le> y \<or> y \<le> x" by (cases x; cases y) simp_all
qed

end

lemma UNIV_currency: "(UNIV :: currency set) = {USD, SOL}"
  using currency.exhaust by blast

instantiation currency :: finite
begin

instance by standard (simp add: UNIV_currency)

end

record pair =
  base :: currency
  quote :: currency

definition pair_new :: "currency \<Rightarrow> currency \<Rightarrow> pair" where
  "pair_new b q = \<lparr>base = b, quote = q\<rparr>"

definition is_valid :: "pair \<Rightarrow> bool" where
  "is_valid p \<longleftrightarrow> base p \<noteq> quote p"

lemma finite_UNIV_pair [simp]: "finite (UNIV :: pair set)"
proof -
  have "p \<in> (\<lambda>(b, q). \<lparr>base = b, quote = q\<rparr>) ` UNIV" for p :: pair
    by (rule image_eqI [where x = "(base p, quote p)"]) auto
  then have "(UNIV :: pair set) = (\<lambda>(b, q). \<lparr>base = b, quote = q\<rparr>) ` UNIV" by blast
  then show ?thesis by (metis finite finite_imageI)
qed

section \<open>Textual form\<close>

text \<open>The parse errors of the code are messages built from the offending text; the model
  keeps the text.\<close>

datatype parse_error = UnknownCurrency string | MalformedPair string

fun currency_display :: "currency \<Rightarrow> string" where
  "currency_display USD = ''USD''"
| "currency_display SOL = ''SOL''"

definition currency_from_str :: "string \<Rightarrow> parse_error + currency" where
  "currency_from_str s =
     (if s = ''USD'' then Inr USD
      else if s = ''SOL'' then Inr SOL
      else Inl (UnknownCurrency s))"

definition pair_display :: "pair \<Rightarrow> string" where
  "pair_display p = currency_display (base p) @ ''-'' @ currency_display (quote p)"

text \<open>\<open>str::split_once\<close>: split at the first occurrence of a character.\<close>

fun split_once :: "char \<Rightarrow> string \<Rightarrow> (string \<times> string) option" where
  "split_once c [] = None"
| "split_once c (x # xs) =
     (if x = c then Some ([], xs)
      else map_option (\<lambda>(a, b). (x # a, b)) (split_once c xs))"

definition pair_try_from :: "string \<Rightarrow> parse_error + pair" where
  "pair_try_from s =
     (case split_once (CHR ''-'') s of
        None \<Rightarrow> Inl (MalformedPair s)
      | Some (b, q) \<Rightarrow>
          (case currency_from_str b of
             Inl e \<Rightarrow> Inl e
           | Inr bc \<Rightarrow>
               (case currency_from_str q of
                  Inl e \<Rightarrow> Inl e
                | Inr qc \<Rightarrow> Inr \<lparr>base = bc, quote = qc\<rparr>)))"

lemma split_once_first: "c \<notin> set a \<Longrightarrow> split_once c (a @ c # b) = Some (a, b)"
  by (induction a) auto

lemma split_once_None: "split_once c s = None \<longleftrightarrow> c \<notin> set s"
  by (induction s) auto

lemma split_once_Some: "split_once c s = Some (a, b) \<Longrightarrow> s = a @ c # b \<and> c \<notin> set a"
  by (induction s arbitrary: a) (auto split: if_splits)

lemma currency_display_no_dash [simp]: "CHR ''-'' \<notin> set (currency_display c)"
  by (cases c) auto

lemma currency_from_display [simp]: "currency_from_str (currency_display c) = Inr c"
  by (cases c) (auto simp: currency_from_str_def)

lemma currency_from_str_Inr: "currency_from_str s = Inr c \<longleftrightarrow> s = currency_display c"
  by (cases c) (auto simp: currency_from_str_def split: if_splits)

text \<open>The wire form of a pair determines it: parsing accepts exactly the printed pairs.\<close>

lemma pair_try_from_iff: "pair_try_from s = Inr p \<longleftrightarrow> s = pair_display p"
proof
  assume "pair_try_from s = Inr p"
  then show "s = pair_display p"
    by (auto simp: pair_try_from_def pair_display_def currency_from_str_Inr
        dest!: split_once_Some split: option.splits sum.splits)
next
  assume "s = pair_display p"
  then show "pair_try_from s = Inr p"
    by (simp add: pair_try_from_def pair_display_def split_once_first)
qed

section \<open>Rejections\<close>

datatype reject_reason =
    InsufficientFunds
  | UnsupportedOrderType
  | InvalidAmount
  | InvalidPair
  | DepositLimitExceeded
  | PriceOutOfBand
  | SelfTrade

end
