(* ===== verification/Order_Book.thy ===== *)
theory Order_Book
  imports Market
begin

text \<open>
  \<open>src/book.rs\<close>: the limit order book of one market and the matching algorithm. Every type and
  every method of \<open>OrderBook\<close> is here: \<open>add_order\<close> with its two nested loops, \<open>market_buy_cost\<close>,
  \<open>would_self_trade\<close>, \<open>take_dirty_levels\<close> and \<open>cancel_order\<close>.
\<close>

section \<open>Data\<close>

datatype side = Bid | Ask

datatype order_type = Market | Limit

datatype order_status = Open | PartiallyFilled | Filled | Cancelled

fun order_status_display :: "order_status \<Rightarrow> string" where
  "order_status_display Open = ''open''"
| "order_status_display PartiallyFilled = ''partially_filled''"
| "order_status_display Filled = ''filled''"
| "order_status_display Cancelled = ''cancelled''"

record order =
  ord_id :: u64
  ord_type :: order_type
  ord_side :: side
  ord_price :: u64
  ord_size :: u64
  ord_remaining :: u64
  ord_account :: account_id

record order_location =
  loc_owner :: account_id
  loc_side :: side
  loc_price :: u64

record order_request =
  req_pair :: pair
  req_type :: order_type
  req_side :: side
  req_price :: u64
  req_size :: u64

record trade =
  trd_pair :: pair
  trd_price :: u64
  trd_qty :: u64
  trd_maker_id :: u64
  trd_taker_id :: u64
  trd_taker_side :: side
  trd_maker_account :: account_id
  trd_taker_account :: account_id

record order_update =
  upd_order_id :: u64
  upd_account_id :: account_id
  upd_filled_qty :: u64
  upd_remaining_size :: u64
  upd_status :: order_status

type_synonym level_key = "side \<times> u64"
type_synonym book_delta = "side \<times> u64 \<times> u64"
type_synonym levels = "(u64, order list) btree_map"

record match_response =
  mr_order_id :: u64
  mr_trades :: "trade list"
  mr_updates :: "order_update list"
  mr_taker_remaining :: u64
  mr_book_deltas :: "book_delta list"

record order_book =
  bids :: levels
  asks :: levels
  order_index :: "u64 \<rightharpoonup> order_location"
  dirty_levels :: "level_key set"
  last_trade_price :: "u64 option"

definition order_book_new :: order_book where
  "order_book_new = \<lparr>bids = [], asks = [], order_index = Map.empty, dirty_levels = {},
     last_trade_price = None\<rparr>"

instantiation side :: linorder
begin

fun less_eq_side :: "side \<Rightarrow> side \<Rightarrow> bool" where
  "less_eq_side Bid _ = True"
| "less_eq_side Ask s = (s = Ask)"

definition less_side :: "side \<Rightarrow> side \<Rightarrow> bool" where
  "less_side s t \<longleftrightarrow> s \<le> t \<and> \<not> t \<le> s"

instance
proof
  fix x y z :: side
  show "(x < y) = (x \<le> y \<and> \<not> y \<le> x)" by (simp add: less_side_def)
  show "x \<le> x" by (cases x) simp_all
  show "x \<le> y \<Longrightarrow> y \<le> z \<Longrightarrow> x \<le> z" by (cases x; cases y) simp_all
  show "x \<le> y \<Longrightarrow> y \<le> x \<Longrightarrow> x = y" by (cases x; cases y) simp_all
  show "x \<le> y \<or> y \<le> x" by (cases x; cases y) simp_all
qed

end

section \<open>The matching loops of add_order\<close>

text \<open>The mutable locals of \<open>add_order\<close> together with the book.\<close>

record matching =
  mt_order :: order
  mt_trades :: "trade list"
  mt_updates :: "order_update list"
  mt_book :: order_book

abbreviation taker_left :: "matching \<Rightarrow> u64" where
  "taker_left st \<equiv> ord_remaining (mt_order st)"

text \<open>One pass of the inner loop body up to the removal of a filled maker: the incoming
  order trades with the order at the front of the queue.\<close>

definition fill_front :: "order_request \<Rightarrow> matching \<Rightarrow> order \<Rightarrow> matching \<times> order" where
  "fill_front req st m =
     (let ord = mt_order st;
          trade_qty = min (ord_remaining ord) (ord_remaining m);
          (ord', m') =
            (if ord_remaining ord \<le> ord_remaining m
             then (ord\<lparr>ord_remaining := 0\<rparr>,
                   m\<lparr>ord_remaining := ord_remaining m - ord_remaining ord\<rparr>)
             else (ord\<lparr>ord_remaining := ord_remaining ord - ord_remaining m\<rparr>,
                   m\<lparr>ord_remaining := 0\<rparr>));
          t = \<lparr>trd_pair = req_pair req, trd_price = ord_price m', trd_qty = trade_qty,
               trd_maker_id = ord_id m', trd_taker_id = ord_id ord',
               trd_taker_side = ord_side ord', trd_maker_account = ord_account m',
               trd_taker_account = ord_account ord'\<rparr>;
          b = mt_book st;
          b' = b\<lparr>last_trade_price := Some (trd_price t),
                 dirty_levels := insert (ord_side m', ord_price m') (dirty_levels b)\<rparr>;
          u = \<lparr>upd_order_id = ord_id m', upd_account_id = ord_account m',
               upd_filled_qty = ord_size m' - ord_remaining m',
               upd_remaining_size = ord_remaining m',
               upd_status = (if ord_remaining m' = 0 then Filled else PartiallyFilled)\<rparr>
      in (\<lparr>mt_order = ord', mt_trades = mt_trades st @ [t],
           mt_updates = mt_updates st @ [u], mt_book = b'\<rparr>, m'))"

text \<open>\<open>self.order_index.remove(&id)\<close> for a maker that is filled.\<close>

definition drop_index :: "u64 \<Rightarrow> matching \<Rightarrow> matching" where
  "drop_index i st =
     st\<lparr>mt_book := (mt_book st)\<lparr>order_index := (order_index (mt_book st))(i := None)\<rparr>\<rparr>"

lemma fill_front_left:
  "0 < taker_left st \<Longrightarrow> fill_front req st m = (st', m') \<Longrightarrow> ord_remaining m' \<noteq> 0 \<Longrightarrow>
   taker_left st' = 0"
  by (auto simp: fill_front_def Let_def split: if_splits)

text \<open>The inner loop: until the level's queue or the incoming order is used up.\<close>

function match_queue :: "order_request \<Rightarrow> matching \<Rightarrow> order list \<Rightarrow> matching \<times> order list" where
  "match_queue req st [] = (st, [])"
| "match_queue req st (m # q) =
     (if 0 < taker_left st then
        (case fill_front req st m of (st', m') \<Rightarrow>
           if ord_remaining m' = 0 then match_queue req (drop_index (ord_id m') st') q
           else match_queue req st' (m' # q))
      else (st, m # q))"
  by pat_completeness auto
termination
  by (relation "measures [\<lambda>(req, st, q). length q, \<lambda>(req, st, q). unat (taker_left st)]")
    (auto, metis fill_front_left unat_0 u64_pos_iff)

declare match_queue.simps(2) [simp del]

text \<open>A maker that is not filled has used up the incoming order, so the loop stops there.\<close>

lemma match_queue_stop: "taker_left st = 0 \<Longrightarrow> match_queue req st q = (st, q)"
  by (cases q) (simp_all add: match_queue.simps(2))

lemma match_queue_Cons [simp]:
  "match_queue req st (m # q) =
     (if 0 < taker_left st then
        (case fill_front req st m of (st', m') \<Rightarrow>
           if ord_remaining m' = 0 then match_queue req (drop_index (ord_id m') st') q
           else (st', m' # q))
      else (st, m # q))"
  using fill_front_left [of st req m]
  by (auto simp: match_queue.simps(2) match_queue_stop split: prod.splits)

definition best_opposite :: "order \<Rightarrow> order_book \<Rightarrow> (u64 \<times> order list) option" where
  "best_opposite ord b =
     (case ord_side ord of
        Bid \<Rightarrow>
          (case first_key_value (asks b) of
             None \<Rightarrow> None
           | Some (lowest_ask_price, q) \<Rightarrow>
               if lowest_ask_price > ord_price ord \<and> ord_type ord = Limit then None
               else Some (lowest_ask_price, q))
      | Ask \<Rightarrow>
          (case last_key_value (bids b) of
             None \<Rightarrow> None
           | Some (highest_bid_price, q) \<Rightarrow>
               if highest_bid_price < ord_price ord \<and> ord_type ord = Limit then None
               else Some (highest_bid_price, q)))"

text \<open>The queue was mutated in place through \<open>best_price_queue\<close>; an emptied level is popped.\<close>

definition put_back :: "side \<Rightarrow> order list \<Rightarrow> order_book \<Rightarrow> order_book" where
  "put_back taker_side q b =
     (case taker_side of
        Bid \<Rightarrow> b\<lparr>asks := (let m = bt_put_first q (asks b) in if q = [] then pop_first m else m)\<rparr>
      | Ask \<Rightarrow> b\<lparr>bids := (let m = bt_put_last q (bids b) in if q = [] then pop_last m else m)\<rparr>)"

definition opposite_levels :: "side \<Rightarrow> order_book \<Rightarrow> levels" where
  "opposite_levels taker_side b = (case taker_side of Bid \<Rightarrow> asks b | Ask \<Rightarrow> bids b)"

lemma fill_front_frame:
  assumes "fill_front req st m = (st', m')"
  shows "bids (mt_book st') = bids (mt_book st)" and "asks (mt_book st') = asks (mt_book st)"
    and "ord_side (mt_order st') = ord_side (mt_order st)"
  using assms by (auto simp: fill_front_def Let_def split: if_splits)

lemma match_queue_frame:
  assumes "match_queue req st q = (st', q')"
  shows "bids (mt_book st') = bids (mt_book st) \<and> asks (mt_book st') = asks (mt_book st) \<and>
         ord_side (mt_order st') = ord_side (mt_order st)"
  using assms
proof (induction q arbitrary: st)
  case (Cons m q)
  obtain st1 m1 where f: "fill_front req st m = (st1, m1)" by fastforce
  show ?case using Cons.prems Cons.IH [of "drop_index (ord_id m1) st1"] f fill_front_frame [OF f]
    by (auto simp: drop_index_def split: if_splits)
qed auto

lemma match_queue_done:
  "match_queue req st q = (st', q') \<Longrightarrow> q' = [] \<or> taker_left st' = 0"
proof (induction q arbitrary: st)
  case (Cons m q)
  obtain st1 m1 where f: "fill_front req st m = (st1, m1)" by fastforce
  show ?case using Cons.prems Cons.IH [of "drop_index (ord_id m1) st1"] f fill_front_left [OF _ f]
    by (auto split: if_splits)
qed auto

text \<open>The outer loop: level by level from the best price, while the price crosses.\<close>

function match_loop :: "order_request \<Rightarrow> matching \<Rightarrow> matching" where
  "match_loop req st =
     (if 0 < taker_left st then
        (case best_opposite (mt_order st) (mt_book st) of
           None \<Rightarrow> st
         | Some (p, q) \<Rightarrow>
             (case match_queue req st q of (st', q') \<Rightarrow>
                match_loop req
                  (st'\<lparr>mt_book := put_back (ord_side (mt_order st)) q' (mt_book st')\<rparr>)))
      else st)"
  by pat_completeness auto
termination
proof (relation "measures [\<lambda>(req, st). length (opposite_levels (ord_side (mt_order st)) (mt_book st)),
    \<lambda>(req, st). unat (taker_left st)]", goal_cases)
  case (2 req st e p q st' q')
  then have m: "match_queue req st q = (st', q')" by simp
  note fr = match_queue_frame [OF m] and dn = match_queue_done [OF m]
  have ne: "opposite_levels (ord_side (mt_order st)) (mt_book st) \<noteq> []"
    using 2 by (auto simp: best_opposite_def opposite_levels_def first_key_value_def
        last_key_value_def split: side.splits list.splits)
  have len_last: "length (bt_put_last v l) = length l" for v and l :: levels
    by (cases "rev l") (auto simp: bt_put_last_def)
  have len_first: "length (bt_put_first v l) = length l" for v and l :: levels
    by (cases l) auto
  show ?case using 2 fr dn ne
    by (cases "ord_side (mt_order st)")
      (auto simp: opposite_levels_def put_back_def Let_def pop_first_def pop_last_def
        len_last len_first word_less_nat_alt)
qed auto

declare match_loop.simps [simp del]

section \<open>The operations\<close>

text \<open>Drain the dirty set into the levels' current totals.\<close>

definition level_at :: "side \<Rightarrow> u64 \<Rightarrow> order_book \<Rightarrow> order list option" where
  "level_at s p b = (case s of Bid \<Rightarrow> bt_get (bids b) p | Ask \<Rightarrow> bt_get (asks b) p)"

definition level_qty :: "side \<Rightarrow> u64 \<Rightarrow> order_book \<Rightarrow> u64" where
  "level_qty s p b =
     (case level_at s p b of None \<Rightarrow> 0 | Some q \<Rightarrow> (\<Sum>ord \<leftarrow> q. ord_remaining ord))"

definition take_dirty_levels ::
    "level_key drain \<Rightarrow> order_book \<Rightarrow> order_book \<times> book_delta list" where
  "take_dirty_levels d b =
     (b\<lparr>dirty_levels := {}\<rparr>, map (\<lambda>(s, p). (s, p, level_qty s p b)) (d (dirty_levels b)))"

definition push_back :: "order \<Rightarrow> levels \<Rightarrow> levels" where
  "push_back ord m =
     bt_insert (ord_price ord)
       ((case bt_get m (ord_price ord) of None \<Rightarrow> [] | Some q \<Rightarrow> q) @ [ord]) m"

text \<open>What is left of a limit order rests at its price and is indexed; a market order's
  remainder does not rest.\<close>

definition rest_order :: "order \<Rightarrow> order_book \<Rightarrow> order_book" where
  "rest_order ord b =
     (if 0 < ord_remaining ord then
        (case ord_type ord of
           Limit \<Rightarrow>
             (case ord_side ord of
                Ask \<Rightarrow> b\<lparr>asks := push_back ord (asks b),
                         dirty_levels := insert (Ask, ord_price ord) (dirty_levels b)\<rparr>
              | Bid \<Rightarrow> b\<lparr>bids := push_back ord (bids b),
                         dirty_levels := insert (Bid, ord_price ord) (dirty_levels b)\<rparr>)
         | Market \<Rightarrow> b)
      else b)"

definition index_rested :: "account_id \<Rightarrow> order \<Rightarrow> order_book \<Rightarrow> order_book" where
  "index_rested account ord b =
     (if ord_type ord = Limit then
        (if 0 < ord_remaining ord then
           b\<lparr>order_index := (order_index b)(ord_id ord \<mapsto>
               \<lparr>loc_owner = account, loc_side = ord_side ord, loc_price = ord_price ord\<rparr>)\<rparr>
         else b)
      else b)"

definition taker_status :: "order \<Rightarrow> order_status option" where
  "taker_status ord =
     (if ord_remaining ord = 0 then Some Filled
      else if ord_type ord = Market then Some Cancelled
      else if 0 < ord_size ord - ord_remaining ord then Some PartiallyFilled
      else None)"

definition taker_updates :: "order \<Rightarrow> order_update list" where
  "taker_updates ord =
     (case taker_status ord of
        None \<Rightarrow> []
      | Some status \<Rightarrow>
          [\<lparr>upd_order_id = ord_id ord, upd_account_id = ord_account ord,
            upd_filled_qty = ord_size ord - ord_remaining ord,
            upd_remaining_size = ord_remaining ord, upd_status = status\<rparr>])"

definition taker_order :: "u64 \<Rightarrow> account_id \<Rightarrow> order_request \<Rightarrow> order" where
  "taker_order i account req =
     \<lparr>ord_id = i, ord_type = req_type req, ord_side = req_side req, ord_price = req_price req,
      ord_size = req_size req, ord_remaining = req_size req, ord_account = account\<rparr>"

definition add_order ::
    "level_key drain \<Rightarrow> u64 \<Rightarrow> account_id \<Rightarrow> order_request \<Rightarrow> order_book \<Rightarrow>
     order_book \<times> match_response" where
  "add_order d i account req b =
     (let st = match_loop req
                 \<lparr>mt_order = taker_order i account req, mt_trades = [], mt_updates = [],
                  mt_book = b\<rparr>;
          ord = mt_order st;
          b1 = index_rested account ord (rest_order ord (mt_book st));
          (b2, deltas) = take_dirty_levels d b1
      in (b2, \<lparr>mr_order_id = ord_id ord, mr_trades = mt_trades st,
               mr_updates = mt_updates st @ taker_updates ord,
               mr_taker_remaining = ord_remaining ord, mr_book_deltas = deltas\<rparr>))"

fun buy_cost_loop :: "levels \<Rightarrow> u64 \<Rightarrow> u64 \<Rightarrow> reject_reason + u64" where
  "buy_cost_loop [] remaining cost = Inr cost"
| "buy_cost_loop ((price, level) # m) remaining cost =
     (if remaining = 0 then Inr cost
      else
        (let qty = (\<Sum>ord \<leftarrow> level. ord_remaining ord);
             take = min remaining qty
         in case checked_mul price take of
              None \<Rightarrow> Inl InvalidAmount
            | Some level_cost \<Rightarrow>
                (case checked_add cost level_cost of
                   None \<Rightarrow> Inl InvalidAmount
                 | Some cost' \<Rightarrow> buy_cost_loop m (remaining - take) cost')))"

definition market_buy_cost :: "order_book \<Rightarrow> u64 \<Rightarrow> reject_reason + u64" where
  "market_buy_cost b sz = buy_cost_loop (asks b) sz 0"

text \<open>The inner loop of \<open>scan\<close>: \<open>Inl\<close> is the value the function returns, \<open>Inr\<close> the quantity
  left when the level is exhausted.\<close>

fun scan_level :: "account_id \<Rightarrow> order list \<Rightarrow> u64 \<Rightarrow> bool + u64" where
  "scan_level account [] remaining = Inr remaining"
| "scan_level account (resting # q) remaining =
     (if ord_account resting = account then Inl True
      else
        (let remaining' = saturating_sub remaining (ord_remaining resting)
         in if remaining' = 0 then Inl False else scan_level account q remaining'))"

fun scan_levels :: "(u64 \<Rightarrow> bool) \<Rightarrow> account_id \<Rightarrow> levels \<Rightarrow> u64 \<Rightarrow> bool" where
  "scan_levels crosses account [] remaining = False"
| "scan_levels crosses account ((price, level) # m) remaining =
     (if \<not> crosses price then False
      else
        (case scan_level account level remaining of
           Inl r \<Rightarrow> r
         | Inr remaining' \<Rightarrow> scan_levels crosses account m remaining'))"

definition would_self_trade :: "account_id \<Rightarrow> order_request \<Rightarrow> order_book \<Rightarrow> bool" where
  "would_self_trade account req b =
     (let market = (req_type req = Market)
      in case req_side req of
           Bid \<Rightarrow> scan_levels (\<lambda>p. market \<or> p \<le> req_price req) account (asks b) (req_size req)
         | Ask \<Rightarrow> scan_levels (\<lambda>p. market \<or> p \<ge> req_price req) account (rev (bids b)) (req_size req))"

definition set_level :: "side \<Rightarrow> u64 \<Rightarrow> order list \<Rightarrow> order_book \<Rightarrow> order_book" where
  "set_level s p q b =
     (case s of
        Bid \<Rightarrow> b\<lparr>bids := (if q = [] then bt_remove p (bids b) else bt_insert p q (bids b))\<rparr>
      | Ask \<Rightarrow> b\<lparr>asks := (if q = [] then bt_remove p (asks b) else bt_insert p q (asks b))\<rparr>)"

definition book_cancel_order ::
    "level_key drain \<Rightarrow> account_id \<Rightarrow> u64 \<Rightarrow> order_book \<Rightarrow>
     (order_book \<times> order \<times> book_delta list) option" where
  "book_cancel_order d account i b =
     (case order_index b i of
        None \<Rightarrow> None
      | Some loc \<Rightarrow>
          if account \<noteq> loc_owner loc then None
          else
            (case level_at (loc_side loc) (loc_price loc) b of
               None \<Rightarrow> None
             | Some queue \<Rightarrow>
                 (case List.extract (\<lambda>ord. ord_id ord = i) queue of
                    None \<Rightarrow> None
                  | Some (before, removed, after) \<Rightarrow>
                      (let b1 = set_level (loc_side loc) (loc_price loc) (before @ after) b;
                           b2 = b1\<lparr>order_index := (order_index b1)(i := None),
                                   dirty_levels :=
                                     insert (loc_side loc, loc_price loc) (dirty_levels b1)\<rparr>;
                           (b3, deltas) = take_dirty_levels d b2
                       in Some (b3, removed, deltas)))))"

end
