(* ===== verification/Ledger.thy ===== *)
theory Ledger
  imports Order_Book
begin

text \<open>
  \<open>src/ledger.rs\<close>: balances split into an available and a reserved part. The operations are
  modelled on the nested hash maps of the code, including the empty entries that a failed
  \<open>reserve\<close>, \<open>release\<close> or \<open>withdraw\<close> leaves behind. The contract the engine relies on is the
  locale \<open>funds_ledger\<close>, stated on the natural-number balances; \<open>unfold_locales\<close> discharges
  it for the operations of the code.
\<close>

section \<open>State and operations\<close>

record balance =
  available :: u64
  reserved :: u64

type_synonym ledger_key = "account_id \<times> currency"

record ledger =
  balances :: "account_id \<rightharpoonup> currency \<rightharpoonup> balance"
  ledger_dirty :: "ledger_key set"

definition zero_balance :: balance where
  "zero_balance = \<lparr>available = 0, reserved = 0\<rparr>"

text \<open>\<open>entry(account).or_default().entry(currency).or_default()\<close>, read and written.\<close>

definition entry_balance :: "ledger \<Rightarrow> account_id \<Rightarrow> currency \<Rightarrow> balance" where
  "entry_balance l a c =
     (case balances l a of
        None \<Rightarrow> zero_balance
      | Some m \<Rightarrow> (case m c of None \<Rightarrow> zero_balance | Some b \<Rightarrow> b))"

definition upd_balance :: "account_id \<Rightarrow> currency \<Rightarrow> (balance \<Rightarrow> balance) \<Rightarrow> ledger \<Rightarrow> ledger" where
  "upd_balance a c f l =
     l\<lparr>balances := (balances l)(a \<mapsto>
         (case balances l a of None \<Rightarrow> Map.empty | Some m \<Rightarrow> m)(c \<mapsto> f (entry_balance l a c)))\<rparr>"

definition mark_dirty :: "account_id \<Rightarrow> currency \<Rightarrow> ledger \<Rightarrow> ledger" where
  "mark_dirty a c l = l\<lparr>ledger_dirty := insert (a, c) (ledger_dirty l)\<rparr>"

definition add_available :: "u64 \<Rightarrow> balance \<Rightarrow> balance" where
  "add_available x b = b\<lparr>available := available b + x\<rparr>"

definition sub_available :: "u64 \<Rightarrow> balance \<Rightarrow> balance" where
  "sub_available x b = b\<lparr>available := available b - x\<rparr>"

definition add_reserved :: "u64 \<Rightarrow> balance \<Rightarrow> balance" where
  "add_reserved x b = b\<lparr>reserved := reserved b + x\<rparr>"

definition sub_reserved :: "u64 \<Rightarrow> balance \<Rightarrow> balance" where
  "sub_reserved x b = b\<lparr>reserved := reserved b - x\<rparr>"

definition ledger_deposit :: "currency \<Rightarrow> account_id \<Rightarrow> u64 \<Rightarrow> ledger \<Rightarrow> ledger \<times> u64" where
  "ledger_deposit c a x l =
     (let l' = mark_dirty a c (upd_balance a c (add_available x) l)
      in (l', available (entry_balance l' a c)))"

definition held :: "ledger \<Rightarrow> account_id \<Rightarrow> currency \<Rightarrow> u64" where
  "held l a c =
     (case balances l a of
        None \<Rightarrow> 0
      | Some m \<Rightarrow> (case m c of None \<Rightarrow> 0 | Some b \<Rightarrow> available b + reserved b))"

definition ledger_withdraw ::
    "account_id \<Rightarrow> currency \<Rightarrow> u64 \<Rightarrow> ledger \<Rightarrow> ledger \<times> (reject_reason + unit)" where
  "ledger_withdraw a c x l =
     (let l1 = upd_balance a c (\<lambda>b. b) l
      in if available (entry_balance l1 a c) < x then (l1, Inl InsufficientFunds)
         else (mark_dirty a c (upd_balance a c (sub_available x) l1), Inr ()))"

definition reserve ::
    "account_id \<Rightarrow> currency \<Rightarrow> u64 \<Rightarrow> ledger \<Rightarrow> ledger \<times> (reject_reason + unit)" where
  "reserve a c x l =
     (let l1 = upd_balance a c (\<lambda>b. b) l
      in if available (entry_balance l1 a c) < x then (l1, Inl InsufficientFunds)
         else (mark_dirty a c (upd_balance a c (add_reserved x \<circ> sub_available x) l1), Inr ()))"

definition release ::
    "account_id \<Rightarrow> currency \<Rightarrow> u64 \<Rightarrow> ledger \<Rightarrow> ledger \<times> (reject_reason + unit)" where
  "release a c x l =
     (let l1 = upd_balance a c (\<lambda>b. b) l
      in if reserved (entry_balance l1 a c) < x then (l1, Inl InvalidAmount)
         else (mark_dirty a c (upd_balance a c (add_available x \<circ> sub_reserved x) l1), Inr ()))"

text \<open>\<open>None\<close> is the panic of \<open>checked_mul(..).expect(..)\<close>.\<close>

definition settle :: "pair \<Rightarrow> trade \<Rightarrow> ledger \<Rightarrow> ledger option" where
  "settle p t l =
     (let c = base p; q = quote p; taker = trd_taker_account t; maker = trd_maker_account t
      in case checked_mul (trd_price t) (trd_qty t) of
           None \<Rightarrow> None
         | Some cost \<Rightarrow>
             (let l1 =
                (case trd_taker_side t of
                   Bid \<Rightarrow>
                     upd_balance maker c (sub_reserved (trd_qty t))
                       (upd_balance maker q (add_available cost)
                         (upd_balance taker c (add_available (trd_qty t))
                           (upd_balance taker q (sub_reserved cost) l)))
                 | Ask \<Rightarrow>
                     upd_balance maker c (add_available (trd_qty t))
                       (upd_balance maker q (sub_reserved cost)
                         (upd_balance taker c (sub_reserved (trd_qty t))
                           (upd_balance taker q (add_available cost) l))))
              in Some (mark_dirty maker c (mark_dirty maker q
                   (mark_dirty taker c (mark_dirty taker q l1))))))"

definition take_dirty :: "ledger_key drain \<Rightarrow> ledger \<Rightarrow> ledger \<times> ledger_key list" where
  "take_dirty d l = (l\<lparr>ledger_dirty := {}\<rparr>, d (ledger_dirty l))"

definition ledger_new :: ledger where
  "ledger_new = \<lparr>balances = Map.empty, ledger_dirty = {}\<rparr>"

section \<open>Balances as numbers\<close>

definition avail :: "ledger \<Rightarrow> account_id \<Rightarrow> currency \<Rightarrow> nat" where
  "avail l a c = unat (available (entry_balance l a c))"

definition resv :: "ledger \<Rightarrow> account_id \<Rightarrow> currency \<Rightarrow> nat" where
  "resv l a c = unat (reserved (entry_balance l a c))"

text \<open>Everything held of a currency, over all (finitely many) account ids.\<close>

definition total_of :: "(account_id \<Rightarrow> currency \<Rightarrow> nat) \<Rightarrow> (account_id \<Rightarrow> currency \<Rightarrow> nat) \<Rightarrow> currency \<Rightarrow> nat" where
  "total_of av rs c = (\<Sum>a \<in> UNIV. av a c + rs a c)"

definition total_supply :: "ledger \<Rightarrow> currency \<Rightarrow> nat" where
  "total_supply l = total_of (avail l) (resv l)"

section \<open>Trades as movements of funds\<close>

definition trade_cost :: "trade \<Rightarrow> nat" where
  "trade_cost t = unat (trd_price t) * unat (trd_qty t)"

definition buyer :: "trade \<Rightarrow> account_id" where
  "buyer t = (case trd_taker_side t of Bid \<Rightarrow> trd_taker_account t | Ask \<Rightarrow> trd_maker_account t)"

definition seller :: "trade \<Rightarrow> account_id" where
  "seller t = (case trd_taker_side t of Bid \<Rightarrow> trd_maker_account t | Ask \<Rightarrow> trd_taker_account t)"

text \<open>What a trade takes from the reserved funds and adds to the available funds.\<close>

definition demand :: "pair \<Rightarrow> trade \<Rightarrow> account_id \<Rightarrow> currency \<Rightarrow> nat" where
  "demand p t a c = (if a = buyer t \<and> c = quote p then trade_cost t else 0) +
     (if a = seller t \<and> c = base p then unat (trd_qty t) else 0)"

definition credit :: "pair \<Rightarrow> trade \<Rightarrow> account_id \<Rightarrow> currency \<Rightarrow> nat" where
  "credit p t a c = (if a = seller t \<and> c = quote p then trade_cost t else 0) +
     (if a = buyer t \<and> c = base p then unat (trd_qty t) else 0)"

definition demands :: "pair \<Rightarrow> trade list \<Rightarrow> account_id \<Rightarrow> currency \<Rightarrow> nat" where
  "demands p ts a c = (\<Sum>t \<leftarrow> ts. demand p t a c)"

definition credits :: "pair \<Rightarrow> trade list \<Rightarrow> account_id \<Rightarrow> currency \<Rightarrow> nat" where
  "credits p ts a c = (\<Sum>t \<leftarrow> ts. credit p t a c)"

lemma demands_simps [simp]:
  "demands p [] a c = 0" "demands p (t # ts) a c = demand p t a c + demands p ts a c"
  "credits p [] a c = 0" "credits p (t # ts) a c = credit p t a c + credits p ts a c"
  by (simp_all add: demands_def credits_def)

text \<open>A trade moves money and never creates or destroys it.\<close>

lemma sum_at_account: "(\<Sum>a \<in> (UNIV :: account_id set). if a = x \<and> P then n else (0 :: nat)) = (if P then n else 0)"
  by (cases P) simp_all

lemma sum_demand_credit: "(\<Sum>a \<in> UNIV. demand p t a c) = (\<Sum>a \<in> UNIV. credit p t a c)"
  by (simp add: demand_def credit_def sum.distrib sum_at_account)

lemma sum_demands_credits: "(\<Sum>a \<in> UNIV. demands p ts a c) = (\<Sum>a \<in> UNIV. credits p ts a c)"
  by (induction ts) (simp_all add: sum.distrib sum_demand_credit)

lemma le_total: "av a c + rs a c \<le> total_of av rs c"
  unfolding total_of_def by (rule member_le_sum [of a UNIV "\<lambda>a. av a c + rs a c"]) auto

lemma two_le_total: "a \<noteq> b \<Longrightarrow> av a c + rs b c \<le> total_of av rs c"
proof -
  assume "a \<noteq> b"
  then have "(\<Sum>x \<in> {a, b}. av x c + rs x c) \<le> total_of av rs c"
    unfolding total_of_def by (intro sum_mono2) auto
  with \<open>a \<noteq> b\<close> show ?thesis by simp
qed

lemma avail_resv_le_total: "av a c + rs b c \<le> total_of av rs c"
  using le_total [of av a c rs] two_le_total [of a b av c rs] by (cases "a = b") auto

section \<open>The contract\<close>

locale funds_ledger =
  fixes av rs :: "'l \<Rightarrow> account_id \<Rightarrow> currency \<Rightarrow> nat"
    and res rel :: "account_id \<Rightarrow> currency \<Rightarrow> u64 \<Rightarrow> 'l \<Rightarrow> 'l \<times> (reject_reason + unit)"
    and stl :: "pair \<Rightarrow> trade \<Rightarrow> 'l \<Rightarrow> 'l option"
  assumes reserve_accepts:
    "unat x \<le> av l a c \<Longrightarrow> rs l a c + unat x < 2 ^ 64 \<Longrightarrow>
     snd (res a c x l) = Inr () \<and> av (fst (res a c x l)) = upd2 (av l) a c (av l a c - unat x) \<and>
     rs (fst (res a c x l)) = upd2 (rs l) a c (rs l a c + unat x)"
    and reserve_rejects:
    "av l a c < unat x \<Longrightarrow>
     snd (res a c x l) = Inl InsufficientFunds \<and> av (fst (res a c x l)) = av l \<and> rs (fst (res a c x l)) = rs l"
    and release_accepts:
    "unat x \<le> rs l a c \<Longrightarrow> av l a c + unat x < 2 ^ 64 \<Longrightarrow>
     snd (rel a c x l) = Inr () \<and> av (fst (rel a c x l)) = upd2 (av l) a c (av l a c + unat x) \<and>
     rs (fst (rel a c x l)) = upd2 (rs l) a c (rs l a c - unat x)"
    and settle_moves:
    "base p \<noteq> quote p \<Longrightarrow> trade_cost t < 2 ^ 64 \<Longrightarrow>
     trade_cost t \<le> rs l (buyer t) (quote p) \<Longrightarrow> unat (trd_qty t) \<le> rs l (seller t) (base p) \<Longrightarrow>
     av l (seller t) (quote p) + trade_cost t < 2 ^ 64 \<Longrightarrow>
     av l (buyer t) (base p) + unat (trd_qty t) < 2 ^ 64 \<Longrightarrow>
     \<exists>l'. stl p t l = Some l' \<and> (\<forall>a c. rs l' a c = rs l a c - demand p t a c) \<and>
       (\<forall>a c. av l' a c = av l a c + credit p t a c)"
begin

abbreviation sup :: "'l \<Rightarrow> currency \<Rightarrow> nat" where
  "sup l \<equiv> total_of (av l) (rs l)"

lemma settle_step:
  assumes "base p \<noteq> quote p" "trade_cost t < 2 ^ 64"
    and dem: "\<And>a c. demand p t a c \<le> rs l a c" and sp: "\<And>c. sup l c < 2 ^ 64"
  obtains l' where "stl p t l = Some l'" "\<And>a c. rs l' a c = rs l a c - demand p t a c"
    "\<And>a c. av l' a c = av l a c + credit p t a c"
proof -
  have c1: "trade_cost t \<le> rs l (buyer t) (quote p)" and c2: "unat (trd_qty t) \<le> rs l (seller t) (base p)"
    using dem [of "buyer t" "quote p"] dem [of "seller t" "base p"] assms(1) by (auto simp: demand_def)
  have "av l (seller t) (quote p) + trade_cost t < 2 ^ 64"
    using avail_resv_le_total [of "av l" "seller t" "quote p" "rs l" "buyer t"] c1 sp [of "quote p"] by linarith
  moreover have "av l (buyer t) (base p) + unat (trd_qty t) < 2 ^ 64"
    using avail_resv_le_total [of "av l" "buyer t" "base p" "rs l" "seller t"] c2 sp [of "base p"] by linarith
  ultimately show thesis using settle_moves [OF assms(1,2) c1 c2] that by blast
qed

lemma total_after_settle:
  assumes "\<And>a c. demands p ts a c \<le> rs l a c" and "\<And>a c. rs l' a c = rs l a c - demands p ts a c"
    and "\<And>a c. av l' a c = av l a c + credits p ts a c"
  shows "sup l' c = sup l c"
proof -
  have "av l' a c + rs l' a c + demands p ts a c = av l a c + rs l a c + credits p ts a c" for a
    using assms(1) [of a c] assms(2,3) by simp
  then have "sup l' c + (\<Sum>a \<in> UNIV. demands p ts a c) = sup l c + (\<Sum>a \<in> UNIV. credits p ts a c)"
    by (simp add: total_of_def flip: sum.distrib)
  then show ?thesis using sum_demands_credits [of p ts c] by simp
qed

text \<open>Settling a whole command's trades: it does not panic, uses up exactly the reserves
  set aside for them, credits the counterparties and leaves the supply as it was.\<close>

lemma settle_all:
  assumes "base p \<noteq> quote p" "\<forall>t \<in> set ts. trade_cost t < 2 ^ 64"
    and "\<And>a c. demands p ts a c \<le> rs l a c" and "\<And>c. sup l c < 2 ^ 64"
  obtains l' where "for_each (stl p) ts l = Some l'"
    "\<And>a c. rs l' a c = rs l a c - demands p ts a c" "\<And>a c. av l' a c = av l a c + credits p ts a c"
    "\<And>c. sup l' c = sup l c"
proof -
  have "\<exists>l'. for_each (stl p) ts l = Some l' \<and> (\<forall>a c. rs l' a c = rs l a c - demands p ts a c) \<and>
      (\<forall>a c. av l' a c = av l a c + credits p ts a c)"
    using assms
  proof (induction ts arbitrary: l)
    case (Cons t ts)
    have d: "demand p t a c \<le> rs l a c" for a c using Cons.prems(3) [of a c] by simp
    obtain l1 where l1: "stl p t l = Some l1" "\<And>a c. rs l1 a c = rs l a c - demand p t a c"
      "\<And>a c. av l1 a c = av l a c + credit p t a c"
      using settle_step [OF Cons.prems(1) _ d Cons.prems(4)] Cons.prems(2) by auto
    have "sup l1 c = sup l c" for c
      using total_after_settle [of p "[t]" l l1] d l1 by simp
    moreover have "demands p ts a c \<le> rs l1 a c" for a c
      using Cons.prems(3) [of a c] l1(2) [of a c] by simp
    ultimately obtain l2 where "for_each (stl p) ts l1 = Some l2"
      "\<forall>a c. rs l2 a c = rs l1 a c - demands p ts a c" "\<forall>a c. av l2 a c = av l1 a c + credits p ts a c"
      using Cons.IH [of l1] Cons.prems by auto
    then show ?case using l1 by (auto simp: diff_diff_left)
  qed simp
  then show thesis using that total_after_settle [OF assms(3)] by blast
qed

end

section \<open>The code's ledger meets the contract\<close>

lemma entry_upd_balance:
  "entry_balance (upd_balance a c f l) a' c' =
     (if a' = a \<and> c' = c then f (entry_balance l a c) else entry_balance l a' c')"
  by (auto simp: entry_balance_def upd_balance_def split: option.splits)

lemma entry_mark_dirty [simp]: "entry_balance (mark_dirty a c l) = entry_balance l"
  by (simp add: fun_eq_iff entry_balance_def mark_dirty_def)

lemma entry_touch [simp]: "entry_balance (upd_balance a c (\<lambda>b. b) l) = entry_balance l"
  by (simp add: fun_eq_iff entry_upd_balance)

lemmas ledger_ops = reserve_def release_def ledger_deposit_def ledger_withdraw_def
  add_available_def sub_available_def add_reserved_def sub_reserved_def

lemmas ledger_nat = avail_def resv_def entry_upd_balance upd2_apply word_less_nat_alt u64_simps

lemma reserve_eq:
  "snd (reserve a c x l) = (if unat x \<le> avail l a c then Inr () else Inl InsufficientFunds)"
  "unat x \<le> avail l a c \<Longrightarrow> resv l a c + unat x < 2 ^ 64 \<Longrightarrow>
   avail (fst (reserve a c x l)) = upd2 (avail l) a c (avail l a c - unat x) \<and>
   resv (fst (reserve a c x l)) = upd2 (resv l) a c (resv l a c + unat x)"
  "avail l a c < unat x \<Longrightarrow> entry_balance (fst (reserve a c x l)) = entry_balance l"
  by (auto simp: ledger_ops ledger_nat Let_def fun_eq_iff)

lemma release_eq:
  "snd (release a c x l) = (if unat x \<le> resv l a c then Inr () else Inl InvalidAmount)"
  "unat x \<le> resv l a c \<Longrightarrow> avail l a c + unat x < 2 ^ 64 \<Longrightarrow>
   avail (fst (release a c x l)) = upd2 (avail l) a c (avail l a c + unat x) \<and>
   resv (fst (release a c x l)) = upd2 (resv l) a c (resv l a c - unat x)"
  "resv l a c < unat x \<Longrightarrow> entry_balance (fst (release a c x l)) = entry_balance l"
  by (auto simp: ledger_ops ledger_nat Let_def fun_eq_iff)

lemma entry_eq_nat: "entry_balance l' = entry_balance l \<Longrightarrow> avail l' = avail l \<and> resv l' = resv l"
  by (simp add: avail_def resv_def fun_eq_iff)

lemma settle_eq:
  assumes "base p \<noteq> quote p" "trade_cost t < 2 ^ 64"
    and "trade_cost t \<le> resv l (buyer t) (quote p)" "unat (trd_qty t) \<le> resv l (seller t) (base p)"
    and "avail l (seller t) (quote p) + trade_cost t < 2 ^ 64"
    and "avail l (buyer t) (base p) + unat (trd_qty t) < 2 ^ 64"
  shows "\<exists>l'. settle p t l = Some l' \<and> (\<forall>a c. resv l' a c = resv l a c - demand p t a c) \<and>
    (\<forall>a c. avail l' a c = avail l a c + credit p t a c)"
proof -
  have m: "checked_mul (trd_price t) (trd_qty t) = Some (trd_price t * trd_qty t)"
    and c: "unat (trd_price t * trd_qty t) = trade_cost t"
    using assms(2) by (simp_all add: trade_cost_def u64_simps)
  show ?thesis using assms(1,3-6)
    by (cases "trd_taker_side t")
      (auto simp: settle_def m c ledger_ops ledger_nat demand_def credit_def buyer_def seller_def Let_def)
qed

interpretation lg: funds_ledger avail resv reserve release settle
proof unfold_locales
  fix x l a c
  show "avail l a c < unat x \<Longrightarrow> snd (reserve a c x l) = Inl InsufficientFunds \<and>
      avail (fst (reserve a c x l)) = avail l \<and> resv (fst (reserve a c x l)) = resv l"
    using entry_eq_nat [OF reserve_eq(3) [of l a c x]] by (simp add: reserve_eq(1))
qed (simp_all add: reserve_eq(1,2) release_eq(1,2) settle_eq)

section \<open>Deposits and withdrawals\<close>

text \<open>\<open>deposit\<close> and \<open>withdraw\<close> touch one balance; \<open>held\<close> is exact while the supply fits.\<close>

lemma unat_held: "avail l a c + resv l a c < 2 ^ 64 \<Longrightarrow> unat (held l a c) = avail l a c + resv l a c"
  by (auto simp: held_def ledger_nat entry_balance_def zero_balance_def split: option.splits)

lemma deposit_eq:
  assumes "avail l a c + unat x < 2 ^ 64"
  shows "avail (fst (ledger_deposit c a x l)) = upd2 (avail l) a c (avail l a c + unat x)"
    and "resv (fst (ledger_deposit c a x l)) = resv l"
    and "unat (snd (ledger_deposit c a x l)) = avail l a c + unat x"
  using assms by (auto simp: ledger_ops ledger_nat Let_def fun_eq_iff)

lemma withdraw_eq:
  "snd (ledger_withdraw a c x l) = (if unat x \<le> avail l a c then Inr () else Inl InsufficientFunds)"
  "unat x \<le> avail l a c \<Longrightarrow> avail (fst (ledger_withdraw a c x l)) = upd2 (avail l) a c (avail l a c - unat x)"
  "avail l a c < unat x \<Longrightarrow> avail (fst (ledger_withdraw a c x l)) = avail l"
  "resv (fst (ledger_withdraw a c x l)) = resv l"
  by (auto simp: ledger_ops ledger_nat Let_def fun_eq_iff)

lemma total_of_upd2:
  "total_of (upd2 av a c v) rs c' = (if c' = c then total_of av rs c - av a c + v else total_of av rs c')"
  "total_of av (upd2 rs a c v) c' = (if c' = c then total_of av rs c - rs a c + v else total_of av rs c')"
proof -
  have *: "(\<Sum>x \<in> UNIV. g x) = (\<Sum>x \<in> UNIV. f x) - d + v"
    if "\<And>x :: account_id. x \<noteq> a \<Longrightarrow> g x = f x" "g a + d = f a + v" "d \<le> f a" for f g :: "account_id \<Rightarrow> nat" and d
    using sum_unchanged_except [of UNIV a g f] that member_le_sum [of a UNIV f] by simp
  show "total_of (upd2 av a c v) rs c' = (if c' = c then total_of av rs c - av a c + v else total_of av rs c')"
    unfolding total_of_def by (auto intro!: * sum.cong simp: upd2_apply)
  show "total_of av (upd2 rs a c v) c' = (if c' = c then total_of av rs c - rs a c + v else total_of av rs c')"
    unfolding total_of_def by (auto intro!: * sum.cong simp: upd2_apply)
qed

section \<open>Dirty marks\<close>

text \<open>Only existing balances are marked dirty, so reading them back for the balance events
  cannot panic on a missing key.\<close>

definition has_entry :: "ledger \<Rightarrow> account_id \<Rightarrow> currency \<Rightarrow> bool" where
  "has_entry l a c \<longleftrightarrow> (\<exists>m b. balances l a = Some m \<and> m c = Some b)"

definition dirty_ok :: "ledger \<Rightarrow> bool" where
  "dirty_ok l \<longleftrightarrow> finite (ledger_dirty l) \<and> (\<forall>(a, c) \<in> ledger_dirty l. has_entry l a c)"

text \<open>What every operation does to the marks: it keeps them, marks only existing entries, and
  leaves every unmarked balance as it was.\<close>

definition tracked :: "ledger \<Rightarrow> ledger \<Rightarrow> bool" where
  "tracked l l' \<longleftrightarrow> ledger_dirty l \<subseteq> ledger_dirty l' \<and> (dirty_ok l \<longrightarrow> dirty_ok l') \<and>
     (\<forall>a c. (a, c) \<notin> ledger_dirty l' \<longrightarrow> entry_balance l' a c = entry_balance l a c)"

lemma dirty_ok_new [simp]: "dirty_ok ledger_new"
  by (simp add: dirty_ok_def ledger_new_def)

lemma has_entry_upd: "has_entry (upd_balance a c f l) a' c' \<longleftrightarrow> (a' = a \<and> c' = c) \<or> has_entry l a' c'"
  by (auto simp: has_entry_def upd_balance_def split: option.splits)

lemma has_entry_mark [simp]: "has_entry (mark_dirty a c l) = has_entry l"
  by (simp add: fun_eq_iff has_entry_def mark_dirty_def)

lemma ledger_dirty_simps [simp]:
  "ledger_dirty (upd_balance a c f l) = ledger_dirty l"
  "ledger_dirty (mark_dirty a c l) = insert (a, c) (ledger_dirty l)"
  by (simp_all add: upd_balance_def mark_dirty_def)

lemma tracked_refl [simp]: "tracked l l"
  by (simp add: tracked_def)

lemma tracked_trans: "tracked l1 l2 \<Longrightarrow> tracked l2 l3 \<Longrightarrow> tracked l1 l3"
  unfolding tracked_def by (intro conjI allI impI) (auto dest: subsetD)

lemma tracked_ops [simp]:
  "tracked l (fst (reserve a c x l))" "tracked l (fst (release a c x l))"
  "tracked l (fst (ledger_withdraw a c x l))" "tracked l (fst (ledger_deposit c a x l))"
  by (auto simp: tracked_def dirty_ok_def ledger_ops Let_def has_entry_upd entry_upd_balance)

lemma tracked_settle: "settle p t l = Some l' \<Longrightarrow> tracked l l'"
  by (auto simp: tracked_def dirty_ok_def settle_def Let_def has_entry_upd entry_upd_balance
      split: side.splits option.splits)

lemma tracked_settle_all: "for_each (settle p) ts l = Some l' \<Longrightarrow> tracked l l'"
  by (induction ts arbitrary: l) (auto split: option.splits dest: tracked_settle intro: tracked_trans)

end
