(* ===== verification/Messages.thy ===== *)
theory Messages
  imports Order_Book
begin

text \<open>
  \<open>src/command.rs\<close> and \<open>src/event.rs\<close>: the commands the engine consumes, the responses it
  publishes, and the events it emits. The constructors carry the names of the code's enum
  variants, suffixed where they would clash.
\<close>

type_synonym uuid = nat

record cancel_request =
  can_order_id :: u64

record deposit_request =
  dep_amount :: u64
  dep_currency :: currency

record withdraw_request =
  wd_amount :: u64
  wd_currency :: currency

datatype command =
    Place order_request
  | Cancel cancel_request
  | Deposit deposit_request
  | Withdraw withdraw_request
  | ListPair pair
  | DelistPair pair

record command_envelope =
  env_correlation_id :: uuid
  env_account_id :: account_id
  env_client_order_id :: u64
  env_command :: command

record place_order_response =
  por_order_id :: u64
  por_filled_qty :: u64
  por_total_cost :: u64

datatype command_response =
    PlaceR "reject_reason + place_order_response"
  | CancelR bool
  | DepositR "reject_reason + u64"
  | WithdrawR "reject_reason + unit"
  | ListPairR "reject_reason + bool"
  | DelistPairR bool
  | Duplicate

record response_envelope =
  rsp_correlation_id :: uuid
  rsp_response :: command_response

datatype event =
    Trade trade
  | BalanceChanged account_id currency u64 u64
  | OrderAccepted u64 account_id pair side order_type u64 u64
  | OrderCancelled u64
  | OrderUpdated u64 account_id pair u64 u64 order_status
  | BookDelta pair side u64 u64

record event_batch =
  batch_seq :: u64
  batch_events :: "event list"

text \<open>The selectors and totals the clients of the event stream are specified with.\<close>

fun trades_of :: "event list \<Rightarrow> trade list" where
  "trades_of [] = []"
| "trades_of (Trade t # es) = t # trades_of es"
| "trades_of (_ # es) = trades_of es"

lemma trades_of_append [simp]: "trades_of (es @ fs) = trades_of es @ trades_of fs"
  by (induction es rule: trades_of.induct) auto

end
