(* ===== verification/Book_Matching.thy ===== *)
theory Book_Matching
  imports Order_Book
begin

text \<open>
  What the matching loops of \<open>book.rs\<close> compute. The reference is a recursion over the resting
  orders in price-time priority (\<open>sweep\<close>: who is filled by how much, \<open>residue\<close>: what is left
  of the queue, \<open>sweep_left\<close>: what is left of the incoming order). The lemmas show that the
  two nested loops with their in-place updates implement it, level by level.
\<close>

named_theorems match_simps \<open>the loops of add_order in terms of the reference sweep\<close>

section \<open>The reference\<close>

fun sweep :: "u64 \<Rightarrow> order list \<Rightarrow> (order \<times> u64) list" where
  "sweep r [] = []"
| "sweep r (m # q) =
     (if r = 0 then []
      else (m, min r (ord_remaining m)) # sweep (r - min r (ord_remaining m)) q)"

fun sweep_left :: "u64 \<Rightarrow> order list \<Rightarrow> u64" where
  "sweep_left r [] = r"
| "sweep_left r (m # q) = (if r = 0 then 0 else sweep_left (r - min r (ord_remaining m)) q)"

fun residue :: "u64 \<Rightarrow> order list \<Rightarrow> order list" where
  "residue r [] = []"
| "residue r (m # q) =
     (if r = 0 then m # q
      else if r < ord_remaining m then m\<lparr>ord_remaining := ord_remaining m - r\<rparr> # q
      else residue (r - ord_remaining m) q)"

text \<open>What a fill \<open>(m, x)\<close> (\<open>x\<close> units of the resting order \<open>m\<close>) is reported as.\<close>

definition fill_trade :: "order_request \<Rightarrow> order \<Rightarrow> order \<times> u64 \<Rightarrow> trade" where
  "fill_trade req taker = (\<lambda>(m, x).
     \<lparr>trd_pair = req_pair req, trd_price = ord_price m, trd_qty = x, trd_maker_id = ord_id m,
      trd_taker_id = ord_id taker, trd_taker_side = ord_side taker,
      trd_maker_account = ord_account m, trd_taker_account = ord_account taker\<rparr>)"

definition fill_update :: "order \<times> u64 \<Rightarrow> order_update" where
  "fill_update = (\<lambda>(m, x).
     \<lparr>upd_order_id = ord_id m, upd_account_id = ord_account m,
      upd_filled_qty = ord_size m - (ord_remaining m - x),
      upd_remaining_size = ord_remaining m - x,
      upd_status = (if x = ord_remaining m then Filled else PartiallyFilled)\<rparr>)"

definition fill_key :: "order \<times> u64 \<Rightarrow> level_key" where
  "fill_key = (\<lambda>(m, x). (ord_side m, ord_price m))"

definition filled_ids :: "(order \<times> u64) list \<Rightarrow> u64 list" where
  "filled_ids fs = map (\<lambda>(m, x). ord_id m) (filter (\<lambda>(m, x). x = ord_remaining m) fs)"

definition last_price :: "u64 option \<Rightarrow> (order \<times> u64) list \<Rightarrow> u64 option" where
  "last_price old fs = (if fs = [] then old else Some (ord_price (fst (last fs))))"

definition book_after_fills :: "(order \<times> u64) list \<Rightarrow> order_book \<Rightarrow> order_book" where
  "book_after_fills fs b =
     b\<lparr>order_index := (order_index b) |` (- set (filled_ids fs)),
       dirty_levels := fill_key ` set fs \<union> dirty_levels b,
       last_trade_price := last_price (last_trade_price b) fs\<rparr>"

definition matching_after :: "order_request \<Rightarrow> (order \<times> u64) list \<Rightarrow> u64 \<Rightarrow> matching \<Rightarrow> matching" where
  "matching_after req fs left st =
     \<lparr>mt_order = (mt_order st)\<lparr>ord_remaining := left\<rparr>,
      mt_trades = mt_trades st @ map (fill_trade req (mt_order st)) fs,
      mt_updates = mt_updates st @ map fill_update fs,
      mt_book = book_after_fills fs (mt_book st)\<rparr>"

section \<open>Facts about the reference\<close>

lemma sweep_zero [simp]: "sweep 0 q = []" "sweep_left 0 q = 0" "residue 0 q = q"
  by (cases q; simp)+

lemma sweep_left_le: "unat (sweep_left r q) \<le> unat r"
proof (induction q arbitrary: r)
  case (Cons m q)
  have "unat (r - min r (ord_remaining m)) \<le> unat r"
    by (simp add: unat_min_u64 u64_simps)
  then show ?case using Cons [of "r - min r (ord_remaining m)"] by auto
qed simp

lemma residue_nonempty_left: "residue r q \<noteq> [] \<Longrightarrow> sweep_left r q = 0"
  by (induction q arbitrary: r) (auto simp: min_def split: if_splits)

lemma sum_sweep: "(\<Sum>(m, x) \<leftarrow> sweep r q. unat x) + unat (sweep_left r q) = unat r"
proof (induction q arbitrary: r)
  case (Cons m q)
  show ?case using Cons [of "r - min r (ord_remaining m)"]
    by (auto simp: min_def u64_simps word_le_nat_alt)
qed simp

lemma sweep_mem:
  "(m, x) \<in> set (sweep r q) \<Longrightarrow> m \<in> set q \<and> x \<le> ord_remaining m \<and> x \<le> r"
proof (induction q arbitrary: r)
  case (Cons a q)
  then show ?case
    by (fastforce simp: min_def word_le_nat_alt u64_simps split: if_splits)
qed simp

lemma sweep_pos:
  "\<forall>m \<in> set q. 0 < ord_remaining m \<Longrightarrow> (m, x) \<in> set (sweep r q) \<Longrightarrow> 0 < x"
  by (induction q arbitrary: r) (auto simp: min_def word_gt_0 split: if_splits)

lemma residue_ids: "map ord_id q = filled_ids (sweep r q) @ map ord_id (residue r q)"
proof (induction q arbitrary: r)
  case (Cons m q)
  show ?case using Cons [of "r - ord_remaining m"]
    by (auto simp: filled_ids_def min_def not_less not_le)
qed (simp add: filled_ids_def)

text \<open>An order as it may appear after later fills: only its open quantity has changed.\<close>

definition shrunk :: "order \<Rightarrow> order \<Rightarrow> bool" where
  "shrunk m m' \<longleftrightarrow> m' = m\<lparr>ord_remaining := ord_remaining m'\<rparr> \<and>
     ord_remaining m' \<le> ord_remaining m \<and> (0 < ord_remaining m \<longrightarrow> 0 < ord_remaining m')"

lemma shrunk_refl [simp]: "shrunk m m"
  by (simp add: shrunk_def)

lemma shrunk_part: "r < ord_remaining m \<Longrightarrow> shrunk m (m\<lparr>ord_remaining := ord_remaining m - r\<rparr>)"
  by (auto simp: shrunk_def word_less_nat_alt word_le_nat_alt u64_simps)

lemma shrunkD:
  assumes "shrunk m m'"
  shows "ord_id m' = ord_id m" "ord_side m' = ord_side m" "ord_price m' = ord_price m"
    "ord_type m' = ord_type m" "ord_account m' = ord_account m" "ord_size m' = ord_size m"
    "ord_remaining m' \<le> ord_remaining m" "0 < ord_remaining m \<Longrightarrow> 0 < ord_remaining m'"
proof -
  from assms obtain x where "m' = m\<lparr>ord_remaining := x\<rparr>" by (auto simp: shrunk_def)
  then show "ord_id m' = ord_id m" "ord_side m' = ord_side m" "ord_price m' = ord_price m"
    "ord_type m' = ord_type m" "ord_account m' = ord_account m" "ord_size m' = ord_size m"
    by simp_all
qed (use assms in \<open>auto simp: shrunk_def\<close>)

lemma residue_mem: "m' \<in> set (residue r q) \<Longrightarrow> \<exists>m \<in> set q. shrunk m m'"
proof (induction q arbitrary: r)
  case (Cons a q)
  then show ?case using shrunk_part [of r a] by (auto split: if_splits; metis shrunk_refl)
qed simp

lemma sweep_append:
  "sweep r (p @ q) = sweep r p @ sweep (sweep_left r p) q"
  "sweep_left r (p @ q) = sweep_left (sweep_left r p) q"
  by (induction p arbitrary: r) auto

text \<open>Quantities weighted by a coefficient of price and owner: what an order book holds is
  split between the fills and the residue.\<close>

definition open_qty :: "(u64 \<Rightarrow> account_id \<Rightarrow> nat) \<Rightarrow> order list \<Rightarrow> nat" where
  "open_qty g q = (\<Sum>m \<leftarrow> q. unat (ord_remaining m) * g (ord_price m) (ord_account m))"

definition fill_qty :: "(u64 \<Rightarrow> account_id \<Rightarrow> nat) \<Rightarrow> (order \<times> u64) list \<Rightarrow> nat" where
  "fill_qty g fs = (\<Sum>(m, x) \<leftarrow> fs. unat x * g (ord_price m) (ord_account m))"

lemma open_qty_simps [simp]:
  "open_qty g [] = 0"
  "open_qty g (m # q) = unat (ord_remaining m) * g (ord_price m) (ord_account m) + open_qty g q"
  "open_qty g (p @ q) = open_qty g p + open_qty g q"
  by (simp_all add: open_qty_def)

lemma fill_qty_simps [simp]:
  "fill_qty g [] = 0"
  "fill_qty g (f # fs) = unat (snd f) * g (ord_price (fst f)) (ord_account (fst f)) + fill_qty g fs"
  "fill_qty g (fs @ gs) = fill_qty g fs + fill_qty g gs"
  by (simp_all add: fill_qty_def case_prod_beta)

lemma open_qty_split: "open_qty g q = fill_qty g (sweep r q) + open_qty g (residue r q)"
proof (induction q arbitrary: r)
  case (Cons m q)
  let ?c = "g (ord_price m) (ord_account m)"
  show ?case
  proof (cases "r < ord_remaining m")
    case True
    then have le: "unat r \<le> unat (ord_remaining m)" by (simp add: word_less_nat_alt)
    then have "unat (ord_remaining m) = unat r + unat (ord_remaining m - r)"
      by (simp add: u64_simps)
    then have eq: "unat (ord_remaining m) * ?c = unat r * ?c + unat (ord_remaining m - r) * ?c"
      by (metis distrib_right)
    show ?thesis
    proof (cases "r = 0")
      case False
      have "fill_qty g (sweep r (m # q)) = unat r * ?c"
        using True False by (simp add: min_def less_imp_le)
      moreover have "open_qty g (residue r (m # q)) = unat (ord_remaining m - r) * ?c + open_qty g q"
        using True False by simp
      ultimately show ?thesis using eq by (simp only: open_qty_simps)
    qed simp
  next
    case False
    then show ?thesis using Cons [of "r - ord_remaining m"] by (auto simp: min_def not_less not_le)
  qed
qed simp

section \<open>The inner loop\<close>

lemma fill_front_eq:
  "fill_front req st m =
     (let x = min (taker_left st) (ord_remaining m)
      in (\<lparr>mt_order = (mt_order st)\<lparr>ord_remaining := taker_left st - x\<rparr>,
           mt_trades = mt_trades st @ [fill_trade req (mt_order st) (m, x)],
           mt_updates = mt_updates st @ [fill_update (m, x)],
           mt_book = (mt_book st)\<lparr>last_trade_price := Some (ord_price m),
             dirty_levels := insert (ord_side m, ord_price m) (dirty_levels (mt_book st))\<rparr>\<rparr>,
          m\<lparr>ord_remaining := ord_remaining m - x\<rparr>))"
  by (auto simp: fill_front_def Let_def fill_trade_def fill_update_def min_def)

lemma restrict_map_UNIV [simp]: "M |` UNIV = M"
  by (simp add: restrict_map_def)

lemma book_after_fills_Nil [simp]: "book_after_fills [] b = b"
  by (simp add: book_after_fills_def filled_ids_def last_price_def)

lemma matching_after_Nil [simp]: "matching_after req [] (taker_left st) st = st"
  by (simp add: matching_after_def book_after_fills_def filled_ids_def last_price_def)

lemma restrict_map_drop: "(M(i := None)) |` (- A) = M |` (- insert i A)"
  by (auto simp: restrict_map_def)

lemma matching_after_compose:
  "matching_after req fs l (matching_after req gs k st) = matching_after req (gs @ fs) l st"
proof -
  have t: "fill_trade req ((mt_order st)\<lparr>ord_remaining := k\<rparr>) = fill_trade req (mt_order st)"
    by (simp add: fill_trade_def)
  have "M |` (- A) |` (- B) = M |` (- (A \<union> B))" for M :: "u64 \<rightharpoonup> order_location" and A B
    by (auto simp: restrict_map_def)
  then show ?thesis using t
    by (auto simp: matching_after_def book_after_fills_def filled_ids_def last_price_def image_Un Un_ac Int_ac)
qed

lemma fill_front_after:
  "fill_front req st m = (st', m') \<Longrightarrow> 0 < taker_left st \<Longrightarrow>
   let x = min (taker_left st) (ord_remaining m)
   in m' = m\<lparr>ord_remaining := ord_remaining m - x\<rparr> \<and>
      (if ord_remaining m' = 0 then drop_index (ord_id m') st' else st') =
        matching_after req [(m, x)] (taker_left st - x) st"
  by (auto simp: fill_front_eq Let_def matching_after_def book_after_fills_def drop_index_def
      filled_ids_def last_price_def fill_key_def restrict_map_def min_def fun_eq_iff
      split: if_splits)

lemma match_queue_eq [match_simps]:
  "match_queue req st q =
     (matching_after req (sweep (taker_left st) q) (sweep_left (taker_left st) q) st,
      residue (taker_left st) q)"
proof (induction q arbitrary: st)
  case (Cons m q)
  show ?case
  proof (cases "0 < taker_left st")
    case True
    define x where "x = min (taker_left st) (ord_remaining m)"
    obtain st' m' where f: "fill_front req st m = (st', m')" by fastforce
    define s1 where "s1 = matching_after req [(m, x)] (taker_left st - x) st"
    note a = fill_front_after [OF f True, unfolded Let_def, folded x_def, folded s1_def]
    have l1: "taker_left s1 = taker_left st - x" by (simp add: s1_def matching_after_def)
    show ?thesis
    proof (cases "ord_remaining m' = 0")
      case filled: True
      then have xm: "x = ord_remaining m" and nl: "\<not> taker_left st < ord_remaining m"
        using a True by (auto simp: x_def min_def split: if_splits)
      have "match_queue req st (m # q) = match_queue req s1 q"
        using a f True filled by auto
      also have "\<dots> = (matching_after req (sweep (taker_left st - x) q)
          (sweep_left (taker_left st - x) q) s1, residue (taker_left st - x) q)"
        using Cons [of s1] l1 by simp
      finally show ?thesis using True nl xm x_def
        by (simp add: s1_def matching_after_compose word_gt_0)
    next
      case False
      then have xl: "x = taker_left st" and nl: "taker_left st < ord_remaining m"
        using a by (auto simp: x_def min_def split: if_splits)
      have "match_queue req st (m # q) = (s1, m\<lparr>ord_remaining := ord_remaining m - x\<rparr> # q)"
        using a f True False by simp
      then show ?thesis using True nl xl x_def by (simp add: s1_def word_gt_0)
    qed
  next
    case False
    then show ?thesis using matching_after_Nil [of req st] by simp
  qed
qed simp

section \<open>The outer loop\<close>

text \<open>The opposite side of the book, best price first, and the price condition of the code.\<close>

definition best_first :: "side \<Rightarrow> order_book \<Rightarrow> levels" where
  "best_first taker_side b = (case taker_side of Bid \<Rightarrow> asks b | Ask \<Rightarrow> rev (bids b))"

definition crosses :: "order_type \<Rightarrow> side \<Rightarrow> u64 \<Rightarrow> u64 \<Rightarrow> bool" where
  "crosses ty s limit p \<longleftrightarrow> ty = Market \<or> (case s of Bid \<Rightarrow> p \<le> limit | Ask \<Rightarrow> limit \<le> p)"

fun level_fills :: "(u64 \<Rightarrow> bool) \<Rightarrow> u64 \<Rightarrow> levels \<Rightarrow> (order \<times> u64) list" where
  "level_fills c r [] = []"
| "level_fills c r ((p, q) # ls) =
     (if r = 0 \<or> \<not> c p then [] else sweep r q @ level_fills c (sweep_left r q) ls)"

fun level_left :: "(u64 \<Rightarrow> bool) \<Rightarrow> u64 \<Rightarrow> levels \<Rightarrow> u64" where
  "level_left c r [] = r"
| "level_left c r ((p, q) # ls) = (if r = 0 \<or> \<not> c p then r else level_left c (sweep_left r q) ls)"

fun level_rest :: "(u64 \<Rightarrow> bool) \<Rightarrow> u64 \<Rightarrow> levels \<Rightarrow> levels" where
  "level_rest c r [] = []"
| "level_rest c r ((p, q) # ls) =
     (if r = 0 \<or> \<not> c p then (p, q) # ls
      else if residue r q = [] then level_rest c (sweep_left r q) ls
      else (p, residue r q) # ls)"

definition set_best_first :: "side \<Rightarrow> levels \<Rightarrow> order_book \<Rightarrow> order_book" where
  "set_best_first taker_side ls b =
     (case taker_side of Bid \<Rightarrow> b\<lparr>asks := ls\<rparr> | Ask \<Rightarrow> b\<lparr>bids := rev ls\<rparr>)"

lemma set_best_first_simps [simp]:
  "best_first s (set_best_first s ls b) = ls"
  "set_best_first s (best_first s b) b = b"
  "set_best_first s ls (set_best_first s ls' b) = set_best_first s ls b"
  "order_index (set_best_first s ls b) = order_index b"
  "dirty_levels (set_best_first s ls b) = dirty_levels b"
  "last_trade_price (set_best_first s ls b) = last_trade_price b"
  "asks (set_best_first Ask ls b) = asks b" "bids (set_best_first Bid ls b) = bids b"
  "asks (set_best_first Bid ls b) = ls" "bids (set_best_first Ask ls b) = rev ls"
  by (cases s; simp add: set_best_first_def best_first_def)+

lemma book_after_fills_simps [simp]:
  "best_first s (book_after_fills fs b) = best_first s b"
  "asks (book_after_fills fs b) = asks b" "bids (book_after_fills fs b) = bids b"
  "book_after_fills fs (set_best_first s ls b) = set_best_first s ls (book_after_fills fs b)"
  by (cases s; simp add: best_first_def book_after_fills_def set_best_first_def)+

lemma best_opposite_eq:
  "best_opposite ord b =
     (case best_first (ord_side ord) b of
        [] \<Rightarrow> None
      | (p, q) # ls \<Rightarrow> if crosses (ord_type ord) (ord_side ord) (ord_price ord) p then Some (p, q) else None)"
proof (cases "ord_side ord")
  case Bid
  then show ?thesis
    by (cases "ord_type ord")
      (auto simp: best_opposite_def best_first_def crosses_def first_key_value_def not_less
        split: list.splits)
next
  case Ask
  then show ?thesis
    by (cases "ord_type ord")
      (auto simp: best_opposite_def best_first_def crosses_def last_key_value_rev
        first_key_value_def not_less split: list.splits)
qed

lemma put_back_eq:
  "best_first s b = (p, q) # ls \<Longrightarrow>
   put_back s q' b = set_best_first s (if q' = [] then ls else (p, q') # ls) b"
proof (cases s)
  case Ask
  assume "best_first s b = (p, q) # ls"
  with Ask have "bids b = rev ls @ [(p, q)]" by (simp add: best_first_def flip: rev_swap)
  with Ask show ?thesis
    by (simp add: put_back_def set_best_first_def bt_put_last_def pop_last_def Let_def)
qed (simp add: put_back_def set_best_first_def best_first_def pop_first_def Let_def)

lemma match_loop_eq [match_simps]:
  assumes "best_first (ord_side (mt_order st)) (mt_book st) = ls"
    and "c = crosses (ord_type (mt_order st)) (ord_side (mt_order st)) (ord_price (mt_order st))"
  shows "match_loop req st =
    (matching_after req (level_fills c (taker_left st) ls) (level_left c (taker_left st) ls) st)
      \<lparr>mt_book := set_best_first (ord_side (mt_order st)) (level_rest c (taker_left st) ls)
        (book_after_fills (level_fills c (taker_left st) ls) (mt_book st))\<rparr>"
  using assms
proof (induction ls arbitrary: st)
  case Nil
  then show ?case
    using matching_after_Nil [of req st] set_best_first_simps(2) [of "ord_side (mt_order st)" "mt_book st"]
    by (subst match_loop.simps) (auto simp: best_opposite_eq matching_after_def)
next
  case (Cons e ls)
  obtain p q where e: "e = (p, q)" by fastforce
  let ?s = "ord_side (mt_order st)"
  show ?case
  proof (cases "0 < taker_left st \<and> c p")
    case False
    then show ?thesis
      using Cons.prems e matching_after_Nil [of req st] set_best_first_simps(2) [of ?s "mt_book st"]
      by (subst match_loop.simps) (auto simp: best_opposite_eq matching_after_def split: if_splits)
  next
    case True
    then have nz: "taker_left st \<noteq> 0" "c p" by auto
    define fs where "fs = sweep (taker_left st) q"
    define l where "l = sweep_left (taker_left st) q"
    define q' where "q' = residue (taker_left st) q"
    define s1 where "s1 = matching_after req fs l st"
    define s2 where "s2 = s1\<lparr>mt_book := set_best_first ?s (if q' = [] then ls else (p, q') # ls) (mt_book s1)\<rparr>"
    have bf: "best_first ?s (mt_book s1) = (p, q) # ls"
      using Cons.prems e by (simp add: s1_def matching_after_def)
    have step: "match_loop req st = match_loop req s2"
      using True Cons.prems e
      by (subst match_loop.simps)
        (simp add: best_opposite_eq match_queue_eq put_back_eq [OF bf]
          flip: fs_def l_def q'_def s1_def s2_def)
    have s2: "taker_left s2 = l" "ord_side (mt_order s2) = ?s"
      "ord_type (mt_order s2) = ord_type (mt_order st)" "ord_price (mt_order s2) = ord_price (mt_order st)"
      "best_first ?s (mt_book s2) = (if q' = [] then ls else (p, q') # ls)"
      by (simp_all add: s2_def s1_def matching_after_def)
    show ?thesis
    proof (cases "q' = []")
      case empty: True
      have "match_loop req s2 =
          (matching_after req (level_fills c l ls) (level_left c l ls) s2)
            \<lparr>mt_book := set_best_first ?s (level_rest c l ls)
              (book_after_fills (level_fills c l ls) (mt_book s2))\<rparr>"
        using Cons.IH [of s2] Cons.prems(2) s2 empty by simp
      moreover have "book_after_fills gs (book_after_fills fs b) = book_after_fills (fs @ gs) b" for gs b
        using matching_after_compose [of req gs l fs l "st\<lparr>mt_book := b\<rparr>"] by (simp add: matching_after_def)
      ultimately show ?thesis
        using step nz e empty
        by (simp add: s2_def s1_def matching_after_def fill_trade_def
            flip: fs_def l_def q'_def)
    next
      case False
      then have l0: "l = 0" using residue_nonempty_left by (simp add: q'_def l_def)
      then have "match_loop req s2 = s2" using s2 by (subst match_loop.simps) simp
      moreover have lz: "level_fills c 0 ls = []" "level_left c 0 ls = 0" by (cases ls; auto)+
      ultimately show ?thesis
        using step nz e False l0
        by (simp add: s2_def s1_def matching_after_def flip: fs_def l_def q'_def)
    qed
  qed
qed

section \<open>Levels against the flat reference\<close>

lemma level_zero [simp]:
  "level_fills c 0 ls = []" "level_left c 0 ls = 0" "level_rest c 0 ls = ls"
  by (cases ls; auto)+

definition level_orders :: "levels \<Rightarrow> order list" where
  "level_orders ls = concat (map snd ls)"

lemma level_orders_simps [simp]:
  "level_orders [] = []" "level_orders (e # ls) = snd e @ level_orders ls"
  "level_orders (ls @ ms) = level_orders ls @ level_orders ms"
  by (simp_all add: level_orders_def)

lemma set_level_orders: "set (level_orders ls) = (\<Union>(p, q) \<in> set ls. set q)"
  by (auto simp: level_orders_def)

text \<open>The level-by-level matching is one sweep over the crossing orders in priority order.\<close>

lemma level_fills_flat:
  "level_fills c r ls = sweep r (level_orders (takeWhile (\<lambda>(p, q). c p) ls))"
  by (induction c r ls rule: level_fills.induct) (auto simp: sweep_append)

lemma level_left_flat:
  "level_left c r ls = sweep_left r (level_orders (takeWhile (\<lambda>(p, q). c p) ls))"
  by (induction c r ls rule: level_left.induct) (auto simp: sweep_append)

lemma filled_ids_append [simp]: "filled_ids (fs @ gs) = filled_ids fs @ filled_ids gs"
  and filled_ids_Nil [simp]: "filled_ids [] = []"
  by (simp_all add: filled_ids_def)

lemma level_step_cases:
  obtains (stop) "r = 0 \<or> \<not> c p"
  | (gone) "r \<noteq> 0" "c p" "residue r q = []"
  | (part) "r \<noteq> 0" "c p" "residue r q \<noteq> []" "sweep_left r q = 0"
  using residue_nonempty_left by blast

lemma level_ids:
  "map ord_id (level_orders ls) =
     filled_ids (level_fills c r ls) @ map ord_id (level_orders (level_rest c r ls))"
proof (induction c r ls rule: level_fills.induct)
  case (2 c r p q ls)
  note q = residue_ids [of q r]
  show ?case
  proof (cases rule: level_step_cases [where r = r and c = c and p = p and q = q])
    case stop
    then show ?thesis by auto
  next
    case gone
    have "map ord_id (level_orders ((p, q) # ls)) = map ord_id q @ map ord_id (level_orders ls)" by simp
    also have "\<dots> = filled_ids (sweep r q) @ map ord_id (level_orders ls)"
      using q gone(3) by (metis append.right_neutral list.simps(8))
    finally show ?thesis using gone 2 by simp
  next
    case part
    then show ?thesis using q by simp
  qed
qed simp

lemma level_open_qty:
  "open_qty g (level_orders ls) =
     fill_qty g (level_fills c r ls) + open_qty g (level_orders (level_rest c r ls))"
proof (induction c r ls rule: level_fills.induct)
  case (2 c r p q ls)
  note q = open_qty_split [of g q r]
  show ?case
  proof (cases rule: level_step_cases [where r = r and c = c and p = p and q = q])
    case stop
    then show ?thesis by auto
  next
    case gone
    with q have "open_qty g q = fill_qty g (sweep r q)" by (metis add.right_neutral open_qty_simps(1))
    with gone 2 show ?thesis by simp
  next
    case part
    with q show ?thesis by simp
  qed
qed simp

lemma level_rest_mem:
  "(p, q') \<in> set (level_rest c r ls) \<Longrightarrow>
   (p, q') \<in> set ls \<or> (\<exists>q k. (p, q) \<in> set ls \<and> q' = residue k q \<and> q' \<noteq> [])"
  by (induction c r ls rule: level_rest.induct) (auto split: if_splits)

lemma level_rest_keys: "\<exists>k. map fst (level_rest c r ls) = drop k (map fst ls)"
proof (induction c r ls rule: level_rest.induct)
  case (2 c r p q ls)
  consider (stop) "r = 0 \<or> \<not> c p" | (gone) "\<not> (r = 0 \<or> \<not> c p)" "residue r q = []"
    | (part) "\<not> (r = 0 \<or> \<not> c p)" "residue r q \<noteq> []" by blast
  then show ?case
  proof cases
    case gone
    then obtain k where "map fst (level_rest c (sweep_left r q) ls) = drop k (map fst ls)"
      using 2 by blast
    with gone show ?thesis by (intro exI [of _ "Suc k"]) simp
  qed (auto intro!: exI [of _ 0])
qed simp

text \<open>An order with something left has met no crossing level it did not exhaust.\<close>

lemma level_rest_left:
  "level_left c r ls \<noteq> 0 \<Longrightarrow> level_rest c r ls = dropWhile (\<lambda>(p, q). c p) ls"
proof (induction c r ls rule: level_rest.induct)
  case (2 c r p q ls)
  then show ?case using residue_nonempty_left [of r q] by (auto split: if_splits)
qed simp

lemma level_fills_mem:
  "(m, x) \<in> set (level_fills c r ls) \<Longrightarrow>
   \<exists>p q. (p, q) \<in> set ls \<and> c p \<and> m \<in> set q \<and> x \<le> ord_remaining m"
proof (induction c r ls rule: level_fills.induct)
  case (2 c r p q ls)
  then show ?case using sweep_mem [of m x r q] by (auto split: if_splits)
qed simp

lemma level_fills_pos:
  assumes "\<forall>m \<in> set (level_orders ls). 0 < ord_remaining m" and "(m, x) \<in> set (level_fills c r ls)"
  shows "0 < x"
proof -
  have "set (level_orders (takeWhile P ls)) \<subseteq> set (level_orders ls)" for P
    by (auto simp: set_level_orders dest: set_takeWhileD)
  with assms show ?thesis unfolding level_fills_flat by (meson sweep_pos subsetD)
qed

lemma sum_level_fills:
  "(\<Sum>(m, x) \<leftarrow> level_fills c r ls. unat x) + unat (level_left c r ls) = unat r"
  unfolding level_fills_flat level_left_flat by (rule sum_sweep)

section \<open>add_order, explicitly\<close>

definition order_fills :: "order_request \<Rightarrow> order_book \<Rightarrow> (order \<times> u64) list" where
  "order_fills req b =
     level_fills (crosses (req_type req) (req_side req) (req_price req)) (req_size req)
       (best_first (req_side req) b)"

definition order_left :: "order_request \<Rightarrow> order_book \<Rightarrow> u64" where
  "order_left req b =
     level_left (crosses (req_type req) (req_side req) (req_price req)) (req_size req)
       (best_first (req_side req) b)"

definition order_rest :: "order_request \<Rightarrow> order_book \<Rightarrow> levels" where
  "order_rest req b =
     level_rest (crosses (req_type req) (req_side req) (req_price req)) (req_size req)
       (best_first (req_side req) b)"

definition taker_after :: "u64 \<Rightarrow> account_id \<Rightarrow> order_request \<Rightarrow> order_book \<Rightarrow> order" where
  "taker_after i account req b = (taker_order i account req)\<lparr>ord_remaining := order_left req b\<rparr>"

definition book_after :: "u64 \<Rightarrow> account_id \<Rightarrow> order_request \<Rightarrow> order_book \<Rightarrow> order_book" where
  "book_after i account req b =
     index_rested account (taker_after i account req b)
       (rest_order (taker_after i account req b)
         (set_best_first (req_side req) (order_rest req b) (book_after_fills (order_fills req b) b)))"

lemma taker_after_simps [simp]:
  "ord_id (taker_after i a req b) = i" "ord_account (taker_after i a req b) = a"
  "ord_type (taker_after i a req b) = req_type req" "ord_side (taker_after i a req b) = req_side req"
  "ord_price (taker_after i a req b) = req_price req" "ord_size (taker_after i a req b) = req_size req"
  "ord_remaining (taker_after i a req b) = order_left req b"
  by (simp_all add: taker_after_def taker_order_def)

lemma add_order_eq:
  "add_order d i account req b =
     ((book_after i account req b)\<lparr>dirty_levels := {}\<rparr>,
      \<lparr>mr_order_id = i,
       mr_trades = map (fill_trade req (taker_order i account req)) (order_fills req b),
       mr_updates = map fill_update (order_fills req b) @ taker_updates (taker_after i account req b),
       mr_taker_remaining = order_left req b,
       mr_book_deltas = snd (take_dirty_levels d (book_after i account req b))\<rparr>)"
  by (simp add: add_order_def Let_def match_loop_eq [OF refl refl] matching_after_def
      order_fills_def order_left_def order_rest_def book_after_def taker_after_def
      take_dirty_levels_def taker_order_def)

end
