(* ===== verification/Book_Invariant.thy ===== *)
theory Book_Invariant
  imports Book_Matching
begin

text \<open>
  The representation invariant of an order book between commands, and that \<open>add_order\<close> and
  \<open>cancel_order\<close> keep it: sorted price levels without empty queues, every resting order filed
  under its own side and price with an open quantity and a notional that fits \<open>u64\<close>, FIFO queues
  in order of id, distinct ids, an index that agrees with the levels, a book that is not
  crossed, and no leftover dirty marks.
\<close>

named_theorems book_inv_simps \<open>unfolding of the book invariant\<close>

section \<open>The invariant\<close>

definition order_ok :: "order \<Rightarrow> bool" where
  "order_ok m \<longleftrightarrow> ord_type m = Limit \<and> 0 < ord_remaining m \<and> ord_remaining m \<le> ord_size m \<and>
     unat (ord_price m) * unat (ord_size m) < 2 ^ 64"

definition level_ok :: "side \<Rightarrow> u64 \<Rightarrow> order list \<Rightarrow> bool" where
  "level_ok s p q \<longleftrightarrow> q \<noteq> [] \<and> sorted_wrt (<) (map ord_id q) \<and>
     (\<forall>m \<in> set q. order_ok m \<and> ord_side m = s \<and> ord_price m = p)"

definition levels_inv :: "side \<Rightarrow> levels \<Rightarrow> bool" where
  "levels_inv s ls \<longleftrightarrow> bt_inv ls \<and> (\<forall>(p, q) \<in> set ls. level_ok s p q)"

definition side_levels :: "side \<Rightarrow> order_book \<Rightarrow> levels" where
  "side_levels s b = (case s of Bid \<Rightarrow> bids b | Ask \<Rightarrow> asks b)"

definition resting :: "order_book \<Rightarrow> order list" where
  "resting b = level_orders (bids b) @ level_orders (asks b)"

definition loc_of :: "order \<Rightarrow> order_location" where
  "loc_of m = \<lparr>loc_owner = ord_account m, loc_side = ord_side m, loc_price = ord_price m\<rparr>"

definition index_ok :: "order_book \<Rightarrow> bool" where
  "index_ok b \<longleftrightarrow>
     (\<forall>i loc. order_index b i = Some loc \<longleftrightarrow> (\<exists>m \<in> set (resting b). ord_id m = i \<and> loc = loc_of m))"

definition uncrossed :: "order_book \<Rightarrow> bool" where
  "uncrossed b \<longleftrightarrow> (\<forall>p \<in> fst ` set (bids b). \<forall>p' \<in> fst ` set (asks b). p < p')"

definition book_inv :: "order_book \<Rightarrow> bool" where
  "book_inv b \<longleftrightarrow> levels_inv Bid (bids b) \<and> levels_inv Ask (asks b) \<and>
     distinct (map ord_id (resting b)) \<and> index_ok b \<and> uncrossed b \<and> dirty_levels b = {}"

lemma book_inv_new [simp]: "book_inv order_book_new"
  by (simp add: book_inv_def order_book_new_def levels_inv_def resting_def index_ok_def uncrossed_def)

fun other_side :: "side \<Rightarrow> side" where
  "other_side Bid = Ask"
| "other_side Ask = Bid"

lemma side_levels_simps [simp]:
  "side_levels Bid b = bids b" "side_levels Ask b = asks b"
  by (simp_all add: side_levels_def)

lemma best_first_side: "best_first s b = (case s of Bid \<Rightarrow> asks b | Ask \<Rightarrow> rev (bids b))"
  by (simp add: best_first_def)

lemma set_level_orders_rev [simp]: "set (level_orders (rev ls)) = set (level_orders ls)"
  by (simp add: set_level_orders)

lemma mset_level_orders_rev [simp]: "mset (level_orders (rev ls)) = mset (level_orders ls)"
  by (induction ls) auto

lemma set_resting: "set (resting b) = set (level_orders (side_levels s b)) \<union> set (level_orders (side_levels (other_side s) b))"
  by (cases s) (auto simp: resting_def)

lemma mset_resting:
  "mset (resting b) = mset (level_orders (side_levels s b)) + mset (level_orders (side_levels (other_side s) b))"
  by (cases s) (auto simp: resting_def)

lemma mset_best_first: "mset (level_orders (best_first s b)) = mset (level_orders (side_levels (other_side s) b))"
  by (cases s) (auto simp: best_first_def)

lemma levels_inv_bt [simp]: "levels_inv s ls \<Longrightarrow> bt_inv ls"
  by (simp add: levels_inv_def)

lemma book_inv_side: "book_inv b \<Longrightarrow> levels_inv s (side_levels s b)"
  by (cases s) (auto simp: book_inv_def)

lemma levels_inv_mem:
  "levels_inv s ls \<Longrightarrow> m \<in> set (level_orders ls) \<Longrightarrow>
   order_ok m \<and> ord_side m = s \<and> (\<exists>q. (ord_price m, q) \<in> set ls \<and> m \<in> set q)"
  by (fastforce simp: levels_inv_def level_ok_def set_level_orders)

lemma order_ok_notional:
  "order_ok m \<Longrightarrow> x \<le> ord_remaining m \<Longrightarrow> unat (ord_price m) * unat x < 2 ^ 64"
proof -
  assume "order_ok m" "x \<le> ord_remaining m"
  then have "unat x \<le> unat (ord_size m)" "unat (ord_price m) * unat (ord_size m) < 2 ^ 64"
    by (auto simp: order_ok_def word_le_nat_alt)
  then show ?thesis by (meson le_less_trans mult_le_mono2)
qed

lemma order_ok_shrunk:
  assumes "order_ok m" "shrunk m m'"
  shows "order_ok m'"
  using assms(1) shrunkD [OF assms(2)] by (auto simp: order_ok_def intro: order_trans)

section \<open>Levels after matching\<close>

lemma sorted_wrt_map_drop: "sorted_wrt P xs \<Longrightarrow> sorted_wrt P (drop k xs)"
  by (metis append_take_drop_id sorted_wrt_append)

lemma bt_inv_rev_drop:
  assumes "bt_inv (rev ls)" and "map fst ls' = drop k (map fst ls)"
  shows "bt_inv (rev ls')"
proof -
  have "map fst (rev ls') = rev (drop k (map fst ls))"
    by (metis assms(2) rev_map)
  also have "\<dots> = take (length ls - k) (map fst (rev ls))"
    by (simp add: rev_drop rev_map)
  finally show ?thesis using assms(1) unfolding bt_inv_def
    by (metis append_take_drop_id sorted_wrt_append)
qed

lemma level_ok_residue:
  assumes "level_ok s p q" and "residue k q \<noteq> []"
  shows "level_ok s p (residue k q)"
proof -
  have "sorted_wrt (<) (map ord_id (residue k q))"
    using assms(1) residue_ids [of q k] by (metis level_ok_def sorted_wrt_append)
  moreover have "order_ok m \<and> ord_side m = s \<and> ord_price m = p" if "m \<in> set (residue k q)" for m
    using residue_mem [OF that] assms(1) by (metis level_ok_def order_ok_shrunk shrunkD(2,3))
  ultimately show ?thesis using assms(2) by (simp add: level_ok_def)
qed

lemma level_rest_ok:
  assumes "\<forall>(p, q) \<in> set ls. level_ok s p q"
  shows "\<forall>(p, q) \<in> set (level_rest c r ls). level_ok s p q"
  using assms level_ok_residue by (fastforce dest: level_rest_mem)

lemma levels_inv_rest:
  assumes "levels_inv s ls"
  shows "levels_inv s (level_rest c r ls)"
proof -
  obtain k where "map fst (level_rest c r ls) = drop k (map fst ls)" using level_rest_keys by blast
  with assms level_rest_ok [of ls s c r] show ?thesis
    by (simp add: levels_inv_def bt_inv_def sorted_wrt_map_drop)
qed

lemma levels_inv_rest_rev:
  assumes "levels_inv s (rev ls)"
  shows "levels_inv s (rev (level_rest c r ls))"
proof -
  obtain k where "map fst (level_rest c r ls) = drop k (map fst ls)" using level_rest_keys by blast
  with assms level_rest_ok [of ls s c r] show ?thesis
    by (auto simp: levels_inv_def intro: bt_inv_rev_drop)
qed

lemma level_rest_shrunk:
  assumes "m' \<in> set (level_orders (level_rest c r ls))"
  shows "\<exists>m \<in> set (level_orders ls). shrunk m m'"
proof -
  from assms obtain p q where pq: "(p, q) \<in> set (level_rest c r ls)" "m' \<in> set q"
    by (auto simp: set_level_orders)
  from level_rest_mem [OF pq(1)] show ?thesis
  proof
    assume "(p, q) \<in> set ls"
    with pq show ?thesis using shrunk_refl by (fastforce simp: set_level_orders)
  next
    assume "\<exists>q' k. (p, q') \<in> set ls \<and> q = residue k q' \<and> q \<noteq> []"
    with pq show ?thesis using residue_mem by (fastforce simp: set_level_orders)
  qed
qed

section \<open>Resting an order\<close>

lemma push_back_get:
  "bt_get (push_back m ls) =
     (bt_get ls)(ord_price m \<mapsto> (case bt_get ls (ord_price m) of None \<Rightarrow> [] | Some q \<Rightarrow> q) @ [m])"
  by (simp add: push_back_def)

lemma mset_push_back:
  "bt_inv ls \<Longrightarrow> mset (level_orders (push_back m ls)) = add_mset m (mset (level_orders ls))"
  using mset_bt_insert [of ls "ord_price m"
      "(case bt_get ls (ord_price m) of None \<Rightarrow> [] | Some q \<Rightarrow> q) @ [m]"]
  by (auto simp: push_back_def level_orders_def queued_def split: option.splits)

lemma set_push_back:
  "bt_inv ls \<Longrightarrow> set (level_orders (push_back m ls)) = insert m (set (level_orders ls))"
  using mset_push_back [of ls m] by (metis set_mset_add_mset_insert set_mset_mset)

lemma levels_inv_push_back:
  assumes "levels_inv s ls" "order_ok m" "ord_side m = s"
    and new: "\<forall>x \<in> set (level_orders ls). ord_id x < ord_id m"
  shows "levels_inv s (push_back m ls)"
proof -
  have inv: "bt_inv ls" and inv': "bt_inv (push_back m ls)"
    using assms(1) by (simp_all add: levels_inv_def push_back_def)
  have "level_ok s p q" if "(p, q) \<in> set (push_back m ls)" for p q
  proof -
    have g: "bt_get (push_back m ls) p = Some q" using that btm.entries_mem [OF inv'] by simp
    show ?thesis
    proof (cases "p = ord_price m")
      case False
      then have "(p, q) \<in> set ls" using g btm.entries_mem [OF inv] by (simp add: push_back_get)
      then show ?thesis using assms(1) by (auto simp: levels_inv_def)
    next
      case True
      define old where "old = (case bt_get ls p of None \<Rightarrow> [] | Some q \<Rightarrow> q)"
      have q: "q = old @ [m]" using g True by (simp add: push_back_get old_def)
      have "old = [] \<or> (p, old) \<in> set ls"
        using btm.entries_mem [OF inv] by (auto simp: old_def split: option.splits)
      then have "old = [] \<or> level_ok s p old \<and> (\<forall>x \<in> set old. ord_id x < ord_id m)"
        using assms(1) new by (auto simp: levels_inv_def set_level_orders)
      then show ?thesis using q True assms(2,3) by (auto simp: level_ok_def sorted_wrt_append)
    qed
  qed
  then show ?thesis using inv' by (auto simp: levels_inv_def)
qed

section \<open>add_order\<close>

definition rests :: "order_request \<Rightarrow> order_book \<Rightarrow> bool" where
  "rests req b \<longleftrightarrow> req_type req = Limit \<and> 0 < order_left req b"

lemma book_after_sides:
  "side_levels (req_side req) (book_after i a req b) =
     (if rests req b then push_back (taker_after i a req b) (side_levels (req_side req) b)
      else side_levels (req_side req) b)"
  "best_first (req_side req) (book_after i a req b) = order_rest req b"
  by (cases "req_side req"; cases "req_type req";
      auto simp: book_after_def index_rested_def rest_order_def rests_def best_first_def)+

lemma side_levels_other:
  "side_levels (other_side s) b = (case s of Bid \<Rightarrow> best_first s b | Ask \<Rightarrow> rev (best_first s b))"
  by (cases s) (auto simp: best_first_def)

lemma book_after_index:
  "order_index (book_after i a req b) =
     (if rests req b then ((order_index b) |` (- set (filled_ids (order_fills req b))))
        (i \<mapsto> loc_of (taker_after i a req b))
      else (order_index b) |` (- set (filled_ids (order_fills req b))))"
  by (cases "req_side req"; cases "req_type req")
    (auto simp: book_after_def index_rested_def rest_order_def rests_def book_after_fills_def loc_of_def)

lemma book_after_dirty:
  "dirty_levels (book_after i a req b) =
     (if rests req b then insert (req_side req, req_price req) else (\<lambda>x. x))
       (fill_key ` set (order_fills req b) \<union> dirty_levels b)"
  by (cases "req_side req"; cases "req_type req")
    (auto simp: book_after_def index_rested_def rest_order_def rests_def book_after_fills_def)

lemma mset_resting_after:
  assumes "book_inv b"
  shows "mset (resting (book_after i a req b)) =
    (if rests req b then {#taker_after i a req b#} else {#}) +
      mset (level_orders (side_levels (req_side req) b)) + mset (level_orders (order_rest req b))"
  using mset_resting [of "book_after i a req b" "req_side req"]
    mset_best_first [of "req_side req" "book_after i a req b"]
    mset_push_back [OF levels_inv_bt [OF book_inv_side [OF assms, of "req_side req"]]]
  by (simp add: book_after_sides)

lemma set_resting_after:
  assumes "book_inv b"
  shows "set (resting (book_after i a req b)) =
    (if rests req b then {taker_after i a req b} else {}) \<union>
      set (level_orders (side_levels (req_side req) b)) \<union> set (level_orders (order_rest req b))"
  using mset_resting_after [OF assms, of i a req, THEN arg_cong [where f = set_mset]] by simp

text \<open>The hypotheses of the engine when it calls \<open>add_order\<close>: a fresh id, larger than every
  id in the book, and a limit order whose notional was checked not to overflow.\<close>

definition order_fresh :: "u64 \<Rightarrow> order_request \<Rightarrow> order_book \<Rightarrow> bool" where
  "order_fresh i req b \<longleftrightarrow> (\<forall>m \<in> set (resting b). ord_id m < i) \<and>
     (req_type req = Limit \<longrightarrow> unat (req_price req) * unat (req_size req) < 2 ^ 64)"

lemma order_left_le: "order_left req b \<le> req_size req"
  using sum_level_fills [of "crosses (req_type req) (req_side req) (req_price req)" "req_size req"
      "best_first (req_side req) b"]
  by (simp add: order_left_def word_le_nat_alt)

lemma taker_after_ok: "order_fresh i req b \<Longrightarrow> rests req b \<Longrightarrow> order_ok (taker_after i a req b)"
  by (simp add: order_ok_def rests_def order_fresh_def order_left_le)

lemma order_rest_inv:
  assumes "book_inv b"
  shows "levels_inv (other_side (req_side req)) (side_levels (other_side (req_side req)) (book_after i a req b))"
proof (cases "req_side req")
  case Bid
  then show ?thesis using assms book_after_sides(2) [of req i a b]
    by (simp add: best_first_def order_rest_def book_inv_def levels_inv_rest)
next
  case Ask
  then have "bids (book_after i a req b) = rev (order_rest req b)"
    using book_after_sides(2) [of req i a b] by (simp add: best_first_def flip: rev_swap)
  with Ask show ?thesis using assms
    by (simp add: best_first_def order_rest_def book_inv_def levels_inv_rest_rev)
qed

lemma own_side_inv:
  assumes "book_inv b" "order_fresh i req b"
  shows "levels_inv (req_side req) (side_levels (req_side req) (book_after i a req b))"
  using assms taker_after_ok [OF assms(2)] book_inv_side [OF assms(1)]
  by (auto simp: book_after_sides order_fresh_def set_resting [of _ "req_side req"]
      intro!: levels_inv_push_back)

lemma resting_cases:
  "m \<in> set (resting b) \<longleftrightarrow>
   m \<in> set (level_orders (side_levels s b)) \<or> m \<in> set (level_orders (best_first s b))"
  by (cases s) (auto simp: resting_def best_first_def)

lemma loc_of_shrunk: "shrunk m m' \<Longrightarrow> loc_of m' = loc_of m \<and> ord_id m' = ord_id m"
  by (simp add: loc_of_def shrunkD)

lemma order_rest_from:
  assumes "m' \<in> set (level_orders (order_rest req b))"
  obtains m where "m \<in> set (level_orders (best_first (req_side req) b))" "m \<in> set (resting b)"
    "shrunk m m'" "loc_of m' = loc_of m" "ord_id m' = ord_id m"
proof -
  obtain m where "m \<in> set (level_orders (best_first (req_side req) b))" "shrunk m m'"
    using assms level_rest_shrunk unfolding order_rest_def by blast
  then show thesis using that [of m] loc_of_shrunk [of m m'] by (simp add: resting_cases [of m b "req_side req"])
qed

lemma remaining_ids_fresh:
  assumes "order_fresh i req b"
    and "m \<in> set (level_orders (side_levels (req_side req) b)) \<union> set (level_orders (order_rest req b))"
  shows "ord_id m < i"
  using assms(2)
proof
  assume "m \<in> set (level_orders (side_levels (req_side req) b))"
  then show ?thesis using assms(1) resting_cases by (auto simp: order_fresh_def)
next
  assume "m \<in> set (level_orders (order_rest req b))"
  then show ?thesis using assms(1) by (auto simp: order_fresh_def elim!: order_rest_from)
qed

lemma resting_ids_after:
  assumes "book_inv b" "order_fresh i req b"
  shows "distinct (map ord_id (resting (book_after i a req b)))"
    and "\<forall>m \<in> set (level_orders (order_rest req b)). ord_id m \<notin> set (filled_ids (order_fills req b))"
    and "\<forall>m \<in> set (level_orders (side_levels (req_side req) b)).
           ord_id m \<notin> set (filled_ids (order_fills req b))"
proof -
  let ?own = "level_orders (side_levels (req_side req) b)"
  let ?opp = "level_orders (best_first (req_side req) b)"
  let ?rest = "level_orders (order_rest req b)"
  have ids: "map ord_id ?opp = filled_ids (order_fills req b) @ map ord_id ?rest"
    unfolding order_fills_def order_rest_def by (rule level_ids)
  have "distinct (map ord_id (resting b))" using assms(1) by (simp add: book_inv_def)
  moreover have "mset (map ord_id (resting b)) = mset (map ord_id ?own @ map ord_id ?opp)"
    by (simp add: mset_resting [of b "req_side req"] mset_best_first)
  ultimately have d: "distinct (map ord_id ?own @ filled_ids (order_fills req b) @ map ord_id ?rest)"
    using ids mset_eq_imp_distinct_iff by metis
  then show "\<forall>m \<in> set ?rest. ord_id m \<notin> set (filled_ids (order_fills req b))"
    and "\<forall>m \<in> set ?own. ord_id m \<notin> set (filled_ids (order_fills req b))" by auto
  have "\<forall>m \<in> set ?own \<union> set ?rest. ord_id m < i"
    using remaining_ids_fresh [OF assms(2)] by blast
  then have "i \<notin> ord_id ` (set ?own \<union> set ?rest)" by auto
  then have "distinct (map ord_id ((if rests req b then [taker_after i a req b] else []) @ ?own @ ?rest))"
    using d by auto
  moreover have "mset (resting (book_after i a req b)) =
      mset ((if rests req b then [taker_after i a req b] else []) @ ?own @ ?rest)"
    using mset_resting_after [OF assms(1)] by simp
  ultimately show "distinct (map ord_id (resting (book_after i a req b)))"
    by (metis mset_eq_imp_distinct_iff mset_map)
qed

lemma same_id_same_order:
  "book_inv b \<Longrightarrow> m \<in> set (resting b) \<Longrightarrow> n \<in> set (resting b) \<Longrightarrow> ord_id m = ord_id n \<Longrightarrow> m = n"
  by (auto simp: book_inv_def distinct_map inj_on_def)

lemma index_after_fills:
  assumes "book_inv b" "order_fresh i req b"
  shows "((order_index b) |` (- set (filled_ids (order_fills req b)))) j = Some loc \<longleftrightarrow>
    (\<exists>m \<in> set (level_orders (side_levels (req_side req) b)) \<union> set (level_orders (order_rest req b)).
       ord_id m = j \<and> loc = loc_of m)" (is "?L \<longleftrightarrow> ?R")
proof -
  let ?opp = "level_orders (best_first (req_side req) b)"
  have ids: "map ord_id ?opp = filled_ids (order_fills req b) @ map ord_id (level_orders (order_rest req b))"
    unfolding order_fills_def order_rest_def by (rule level_ids)
  have idx: "order_index b j = Some loc \<longleftrightarrow> (\<exists>m \<in> set (resting b). ord_id m = j \<and> loc = loc_of m)"
    using assms(1) by (simp add: book_inv_def index_ok_def)
  show ?thesis
  proof
    assume ?L
    then have nf: "j \<notin> set (filled_ids (order_fills req b))" and "order_index b j = Some loc"
      by (auto simp: restrict_map_def split: if_splits)
    with idx obtain m where m: "m \<in> set (resting b)" "ord_id m = j" "loc = loc_of m" by blast
    show ?R
    proof (cases "m \<in> set ?opp")
      case True
      then have "j \<in> ord_id ` set (level_orders (order_rest req b))"
        using nf ids m(2) by (metis Un_iff imageI list.set_map set_append)
      then obtain m' where m': "m' \<in> set (level_orders (order_rest req b))" "ord_id m' = j" by auto
      then obtain n where n: "n \<in> set (resting b)" "loc_of m' = loc_of n" "ord_id m' = ord_id n"
        by (blast elim: order_rest_from)
      then have "n = m" using same_id_same_order [OF assms(1) n(1) m(1)] m(2) m'(2) by simp
      then show ?thesis using m m' n by (intro bexI [of _ m']) auto
    next
      case False
      then show ?thesis using m resting_cases by blast
    qed
  next
    assume ?R
    then obtain m where m: "m \<in> set (level_orders (side_levels (req_side req) b)) \<union>
        set (level_orders (order_rest req b))" "ord_id m = j" "loc = loc_of m" by blast
    then have "\<exists>n \<in> set (resting b). ord_id n = j \<and> loc = loc_of n"
      using resting_cases [of _ b "req_side req"] by (auto elim!: order_rest_from)
    moreover have "j \<notin> set (filled_ids (order_fills req b))"
      using m resting_ids_after(2,3) [OF assms] by blast
    ultimately show ?L using idx by (simp add: restrict_map_def)
  qed
qed

lemma index_ok_after:
  assumes "book_inv b" "order_fresh i req b"
  shows "index_ok (book_after i a req b)"
proof -
  have new: "ord_id m \<noteq> i" if "m \<in> set (level_orders (side_levels (req_side req) b)) \<union>
      set (level_orders (order_rest req b))" for m
    using remaining_ids_fresh [OF assms(2) that] by auto
  show ?thesis
    unfolding index_ok_def set_resting_after [OF assms(1)]
    using index_after_fills [OF assms] new by (auto simp: book_after_index split: if_splits)
qed

text \<open>Best price first: where a worse price crosses, every better one does.\<close>

lemma best_first_mono:
  assumes "book_inv b"
  shows "sorted_wrt (\<lambda>e e'. crosses ty s limit (fst e') \<longrightarrow> crosses ty s limit (fst e)) (best_first s b)"
proof (cases s)
  case Bid
  have "sorted_wrt (\<lambda>e e'. fst e < fst e') (asks b)"
    using assms by (simp add: book_inv_def levels_inv_def bt_inv_def sorted_wrt_map)
  with Bid show ?thesis
    by (auto simp: best_first_def crosses_def elim!: sorted_wrt_mono_rel [rotated])
next
  case Ask
  have "sorted_wrt (\<lambda>e e'. fst e < fst e') (bids b)"
    using assms by (simp add: book_inv_def levels_inv_def bt_inv_def sorted_wrt_map)
  with Ask show ?thesis
    by (auto simp: best_first_def crosses_def sorted_wrt_rev elim!: sorted_wrt_mono_rel [rotated])
qed

lemma mono_dropWhile: "sorted_wrt (\<lambda>x y. P y \<longrightarrow> P x) xs \<Longrightarrow> y \<in> set (dropWhile P xs) \<Longrightarrow> \<not> P y"
  by (induction xs) (auto split: if_splits)

lemma mono_takeWhile: "sorted_wrt (\<lambda>x y. P y \<longrightarrow> P x) xs \<Longrightarrow> takeWhile P xs = filter P xs"
  by (induction xs) (auto simp: filter_empty_conv)

lemma rest_not_crossing:
  assumes "book_inv b" "order_left req b \<noteq> 0" "(p, q) \<in> set (order_rest req b)"
  shows "\<not> crosses (req_type req) (req_side req) (req_price req) p"
proof -
  let ?c = "crosses (req_type req) (req_side req) (req_price req)"
  have "order_rest req b = dropWhile (\<lambda>(p, q). ?c p) (best_first (req_side req) b)"
    using assms(2) unfolding order_rest_def order_left_def by (rule level_rest_left)
  then show ?thesis
    using mono_dropWhile [of "\<lambda>e. ?c (fst e)" "best_first (req_side req) b" "(p, q)"]
      best_first_mono [OF assms(1)] assms(3)
    by (simp add: case_prod_beta')
qed

lemma level_rest_prices: "fst ` set (level_rest c r ls) \<subseteq> fst ` set ls"
  by (force dest: level_rest_mem)

lemma uncrossed_after:
  assumes "book_inv b"
  shows "uncrossed (book_after i a req b)"
proof -
  have keys: "fst ` set (push_back m ls) \<subseteq> insert (ord_price m) (fst ` set ls)" for m ls
    using set_bt_insert by (fastforce simp: push_back_def)
  have unc: "\<forall>p \<in> fst ` set (bids b). \<forall>p' \<in> fst ` set (asks b). p < p'"
    using assms by (simp add: book_inv_def uncrossed_def)
  have rest: "fst ` set (order_rest req b) \<subseteq> fst ` set (best_first (req_side req) b)"
    unfolding order_rest_def by (rule level_rest_prices)
  have nc: "rests req b \<Longrightarrow> \<forall>p \<in> fst ` set (order_rest req b).
      \<not> crosses (req_type req) (req_side req) (req_price req) p"
    using rest_not_crossing [OF assms, of req] by (auto simp: rests_def word_gt_0)
  have own: "fst ` set (side_levels (req_side req) (book_after i a req b)) \<subseteq>
      (if rests req b then {req_price req} else {}) \<union> fst ` set (side_levels (req_side req) b)"
    using keys [of "taker_after i a req b" "side_levels (req_side req) b"]
    by (auto simp: book_after_sides)
  have "\<forall>p \<in> fst ` set (bids (book_after i a req b)). \<forall>p' \<in> fst ` set (asks (book_after i a req b)). p < p'"
  proof (cases "req_side req")
    case Bid
    then have "asks (book_after i a req b) = order_rest req b"
      using book_after_sides(2) [of req i a b] by (simp add: best_first_def)
    then show ?thesis using own nc rest unc Bid
      by (fastforce simp: crosses_def best_first_def rests_def split: if_splits)
  next
    case Ask
    then have "set (bids (book_after i a req b)) = set (order_rest req b)"
      using book_after_sides(2) [of req i a b] by (metis best_first_def set_rev side.simps(4))
    then show ?thesis using own nc rest unc Ask
      by (fastforce simp: crosses_def best_first_def rests_def split: if_splits)
  qed
  then show ?thesis by (simp add: uncrossed_def)
qed

lemma add_order_inv:
  assumes "book_inv b" "order_fresh i req b"
  shows "book_inv (fst (add_order d i a req b))"
proof -
  let ?b = "book_after i a req b"
  have "levels_inv Bid (bids ?b) \<and> levels_inv Ask (asks ?b)"
    using own_side_inv [OF assms, of a] order_rest_inv [OF assms(1), of req i a]
    by (cases "req_side req") auto
  then show ?thesis
    using resting_ids_after(1) [OF assms, of a] index_ok_after [OF assms, of a]
      uncrossed_after [OF assms(1), of i a req]
    by (auto simp: add_order_eq book_inv_def resting_def index_ok_def uncrossed_def)
qed

section \<open>cancel_order\<close>

lemma level_at_side: "level_at s p b = bt_get (side_levels s b) p"
  by (cases s) (simp_all add: level_at_def)

lemma resting_level:
  assumes "book_inv b" "m \<in> set (resting b)"
  obtains q where "level_at (ord_side m) (ord_price m) b = Some q" "m \<in> set q"
    "(ord_price m, q) \<in> set (side_levels (ord_side m) b)"
proof -
  obtain s where s: "m \<in> set (level_orders (side_levels s b))"
    using assms(2) by (auto simp: resting_def intro: that [of Bid] that [of Ask])
  have inv: "levels_inv s (side_levels s b)" by (rule book_inv_side [OF assms(1)])
  with s obtain q where "ord_side m = s" "(ord_price m, q) \<in> set (side_levels s b)" "m \<in> set q"
    using levels_inv_mem by blast
  with inv show thesis
    using that btm.entries_mem [OF levels_inv_bt [OF inv]] by (simp add: level_at_side)
qed

text \<open>The orders of one side after one level is replaced.\<close>

definition put_level :: "u64 \<Rightarrow> order list \<Rightarrow> levels \<Rightarrow> levels" where
  "put_level p q ls = (if q = [] then bt_remove p ls else bt_insert p q ls)"

lemma set_level_sides:
  "side_levels s (set_level s' p q b) = (if s = s' then put_level p q (side_levels s b) else side_levels s b)"
  "order_index (set_level s' p q b) = order_index b" "dirty_levels (set_level s' p q b) = dirty_levels b"
  "last_trade_price (set_level s' p q b) = last_trade_price b"
  by (cases s; cases s'; simp add: set_level_def put_level_def)+

lemma mset_put_level:
  "bt_inv ls \<Longrightarrow> mset (level_orders (put_level p q ls)) + queued (bt_get ls p) = mset (level_orders ls) + mset q"
  using mset_bt_insert [of ls p q] mset_bt_remove [of ls p] by (simp add: put_level_def level_orders_def)

lemma bt_get_put_level: "bt_get (put_level p q ls) = (bt_get ls)(p := (if q = [] then None else Some q))"
  by (simp add: put_level_def)

lemma bt_inv_put_level [simp]: "bt_inv ls \<Longrightarrow> bt_inv (put_level p q ls)"
  by (simp add: put_level_def)

lemma levels_inv_put_level:
  assumes "levels_inv s ls" and "q \<noteq> [] \<Longrightarrow> level_ok s p q"
  shows "levels_inv s (put_level p q ls)"
proof -
  have inv: "bt_inv ls" using assms(1) by simp
  have "level_ok s p' q'" if "(p', q') \<in> set (put_level p q ls)" for p' q'
  proof -
    have "bt_get (put_level p q ls) p' = Some q'"
      using that btm.entries_mem [OF bt_inv_put_level [OF inv]] by simp
    then have "(p' = p \<and> q' = q \<and> q \<noteq> []) \<or> (p', q') \<in> set ls"
      using btm.entries_mem [OF inv] by (auto simp: bt_get_put_level split: if_splits)
    then show ?thesis using assms by (auto simp: levels_inv_def)
  qed
  then show ?thesis using inv by (auto simp: levels_inv_def)
qed

lemma put_level_prices: "p \<in> fst ` set ls \<Longrightarrow> fst ` set (put_level p q ls) \<subseteq> fst ` set ls"
  using image_mono [OF set_bt_insert [of p q ls], of fst]
  by (cases "q = []") (auto simp: put_level_def bt_remove_def)

lemma level_ok_remove: "level_ok s p (xs @ m # ys) \<Longrightarrow> xs @ ys \<noteq> [] \<Longrightarrow> level_ok s p (xs @ ys)"
  by (auto simp: level_ok_def sorted_wrt_append)

definition book_removed :: "order \<Rightarrow> order list \<Rightarrow> order_book \<Rightarrow> order_book" where
  "book_removed m q b =
     (set_level (ord_side m) (ord_price m) q b)
       \<lparr>order_index := (order_index b)(ord_id m := None), dirty_levels := {}\<rparr>"

lemma book_cancel_found:
  assumes "book_inv b" "m \<in> set (resting b)" "ord_account m = a"
  obtains before after where
    "level_at (ord_side m) (ord_price m) b = Some (before @ m # after)"
    "book_cancel_order d a (ord_id m) b =
       Some (book_removed m (before @ after) b, m,
         snd (take_dirty_levels d ((book_removed m (before @ after) b)
           \<lparr>dirty_levels := {(ord_side m, ord_price m)}\<rparr>)))"
proof -
  obtain q where q: "level_at (ord_side m) (ord_price m) b = Some q" "m \<in> set q"
    "(ord_price m, q) \<in> set (side_levels (ord_side m) b)"
    using resting_level [OF assms(1,2)] .
  have ix: "order_index b (ord_id m) = Some (loc_of m)"
    using assms(1,2) by (auto simp: book_inv_def index_ok_def)
  obtain before n after where e: "List.extract (\<lambda>x. ord_id x = ord_id m) q = Some (before, n, after)"
    using q(2) extract_None_iff [of "\<lambda>x. ord_id x = ord_id m" q] by (metis not_Some_eq prod_cases3)
  then have qe: "q = before @ n # after" "ord_id n = ord_id m" by (auto dest: extract_SomeE)
  then have "n \<in> set (resting b)"
    using q(3) by (cases "ord_side m") (force simp: resting_def set_level_orders)+
  then have nm: "n = m" using same_id_same_order [OF assms(1) _ assms(2)] qe(2) by simp
  have dl: "dirty_levels b = {}" using assms(1) by (simp add: book_inv_def)
  show thesis
    using that [of before after] q(1) qe(1) nm e ix dl assms(3)
    by (simp add: book_cancel_order_def loc_of_def Let_def take_dirty_levels_def book_removed_def
        set_level_sides)
qed

lemma book_cancel_missing:
  assumes "book_inv b"
  shows "book_cancel_order d a i b = None \<longleftrightarrow>
    \<not> (\<exists>m \<in> set (resting b). ord_id m = i \<and> ord_account m = a)"
proof
  assume n: "book_cancel_order d a i b = None"
  show "\<not> (\<exists>m \<in> set (resting b). ord_id m = i \<and> ord_account m = a)"
  proof
    assume "\<exists>m \<in> set (resting b). ord_id m = i \<and> ord_account m = a"
    then obtain m where "m \<in> set (resting b)" "ord_id m = i" "ord_account m = a" by blast
    then show False using book_cancel_found [OF assms, of m a d] n by auto
  qed
next
  assume "\<not> (\<exists>m \<in> set (resting b). ord_id m = i \<and> ord_account m = a)"
  then show "book_cancel_order d a i b = None"
    using assms by (auto simp: book_cancel_order_def book_inv_def index_ok_def loc_of_def split: option.splits)
qed

lemma mset_book_removed:
  assumes "book_inv b" "level_at (ord_side m) (ord_price m) b = Some (before @ m # after)"
  shows "add_mset m (mset (level_orders (side_levels (ord_side m) (book_removed m (before @ after) b)))) =
      mset (level_orders (side_levels (ord_side m) b))"
    and "s \<noteq> ord_side m \<Longrightarrow> side_levels s (book_removed m (before @ after) b) = side_levels s b"
proof -
  have side: "side_levels s (book_removed m q b) = side_levels s (set_level (ord_side m) (ord_price m) q b)" for s q
    by (cases s) (simp_all add: book_removed_def)
  have "mset (level_orders (put_level (ord_price m) (before @ after) (side_levels (ord_side m) b))) +
      mset (before @ m # after) = mset (level_orders (side_levels (ord_side m) b)) + mset (before @ after)"
    using mset_put_level [OF levels_inv_bt [OF book_inv_side [OF assms(1)]],
        of "ord_price m" "before @ after" "ord_side m"] assms(2)
    by (simp add: queued_def level_at_side)
  then show "add_mset m (mset (level_orders (side_levels (ord_side m) (book_removed m (before @ after) b)))) =
      mset (level_orders (side_levels (ord_side m) b))"
    by (simp add: side set_level_sides)
  show "s \<noteq> ord_side m \<Longrightarrow> side_levels s (book_removed m (before @ after) b) = side_levels s b"
    by (simp add: side set_level_sides)
qed

lemma mset_resting_removed:
  assumes "book_inv b" "level_at (ord_side m) (ord_price m) b = Some (before @ m # after)"
  shows "add_mset m (mset (resting (book_removed m (before @ after) b))) = mset (resting b)"
proof -
  let ?b = "book_removed m (before @ after) b" and ?s = "ord_side m"
  have oth: "side_levels (other_side ?s) ?b = side_levels (other_side ?s) b"
    by (rule mset_book_removed(2) [OF assms]) (cases ?s; simp)
  have "add_mset m (mset (resting ?b)) =
      add_mset m (mset (level_orders (side_levels ?s ?b))) + mset (level_orders (side_levels (other_side ?s) ?b))"
    by (simp add: mset_resting [of ?b ?s])
  also have "\<dots> = mset (resting b)"
    unfolding mset_book_removed(1) [OF assms] oth by (simp add: mset_resting [of b ?s])
  finally show ?thesis .
qed

lemma cancel_inv:
  assumes "book_inv b" "m \<in> set (resting b)"
    and "level_at (ord_side m) (ord_price m) b = Some (before @ m # after)"
  shows "book_inv (book_removed m (before @ after) b)"
proof -
  let ?b = "book_removed m (before @ after) b"
  let ?s = "ord_side m" and ?p = "ord_price m"
  have inv: "levels_inv ?s (side_levels ?s b)" by (rule book_inv_side [OF assms(1)])
  have mem: "(?p, before @ m # after) \<in> set (side_levels ?s b)"
    using assms(3) btm.entries_mem [OF levels_inv_bt [OF inv]] by (simp add: level_at_side)
  then have lo: "level_ok ?s ?p (before @ m # after)" using inv by (auto simp: levels_inv_def)
  have key: "?p \<in> fst ` set (side_levels ?s b)" using mem by force
  have own: "side_levels ?s ?b = put_level ?p (before @ after) (side_levels ?s b)"
    by (cases ?s) (simp_all add: book_removed_def set_level_def put_level_def)
  note oth = mset_book_removed(2) [OF assms(1,3)]
  have lv: "levels_inv s (side_levels s ?b)" for s
    using own oth [of s] book_inv_side [OF assms(1), of s] level_ok_remove [OF lo]
    by (cases "s = ?s") (auto intro: levels_inv_put_level)
  have ms: "mset (resting b) = mset (m # resting ?b)"
    using mset_resting_removed [OF assms(1,3)] by simp
  then have di: "distinct (map ord_id (m # resting ?b))"
    using assms(1) unfolding book_inv_def by (metis mset_eq_imp_distinct_iff mset_map)
  have st: "set (resting b) = insert m (set (resting ?b))"
    using ms by (metis list.simps(15) set_mset_mset)
  have ix: "order_index ?b = (order_index b)(ord_id m := None)" by (simp add: book_removed_def)
  have iok: "index_ok ?b"
    unfolding index_ok_def
  proof (intro allI)
    fix i loc
    have "order_index b i = Some loc \<longleftrightarrow> (\<exists>n \<in> insert m (set (resting ?b)). ord_id n = i \<and> loc = loc_of n)"
      using assms(1) st by (simp add: book_inv_def index_ok_def)
    moreover have "\<forall>n \<in> set (resting ?b). ord_id n \<noteq> ord_id m" using di by (auto simp: image_iff)
    ultimately show "order_index ?b i = Some loc \<longleftrightarrow> (\<exists>n \<in> set (resting ?b). ord_id n = i \<and> loc = loc_of n)"
      by (auto simp: ix)
  qed
  have unc: "uncrossed ?b"
  proof -
    have "fst ` set (side_levels s ?b) \<subseteq> fst ` set (side_levels s b)" for s
      using own oth [of s] put_level_prices [OF key] by (cases "s = ?s") auto
    note sub = this [of Bid, unfolded side_levels_simps] this [of Ask, unfolded side_levels_simps]
    have "uncrossed b" using assms(1) by (simp add: book_inv_def)
    then show ?thesis unfolding uncrossed_def using sub by (meson subsetD)
  qed
  show ?thesis using lv [of Bid] lv [of Ask] di iok unc by (simp add: book_inv_def book_removed_def)
qed

end
