(* ===== verification/Book_Queries.thy ===== *)
theory Book_Queries
  imports Book_Invariant
begin

text \<open>
  The read-only walks of \<open>book.rs\<close> against the matching they predict: \<open>market_buy_cost\<close> is the
  exact cost of the trades a market buy will make (or an overflow of that cost),
  \<open>would_self_trade\<close> says whether one of them would be against the same account, and the
  drained book deltas are the totals of exactly the levels that changed.
\<close>

section \<open>market_buy_cost\<close>

lemma unat_sub_min: "unat (r - min r x :: u64) = unat r - unat x"
  by (simp add: unat_min_u64 u64_simps)

lemma sweep_left_total: "unat (sweep_left r q) = unat r - (\<Sum>m \<leftarrow> q. unat (ord_remaining m))"
proof (induction q arbitrary: r)
  case (Cons m q)
  show ?case using Cons [of "r - min r (ord_remaining m)"]
    by (auto simp: unat_sub_min)
qed simp

lemma sweep_left_min:
  assumes "(\<Sum>m \<leftarrow> q. unat (ord_remaining m)) < 2 ^ 64"
  shows "sweep_left r q = r - min r (\<Sum>m \<leftarrow> q. ord_remaining m)"
proof -
  have "unat (sweep_left r q) = unat (r - min r (\<Sum>m \<leftarrow> q. ord_remaining m))"
    using unat_sum_list_exact [OF assms]
    by (simp add: sweep_left_total unat_sub_min)
  then show ?thesis by (rule word_unat_eq_iff [THEN iffD2])
qed

lemma fill_qty_level:
  assumes "\<forall>m \<in> set q. ord_price m = p" and "(\<Sum>m \<leftarrow> q. unat (ord_remaining m)) < 2 ^ 64"
  shows "fill_qty (\<lambda>p a. unat p) (sweep r q) = unat p * unat (min r (\<Sum>m \<leftarrow> q. ord_remaining m))"
proof -
  have "fill_qty (\<lambda>p a. unat p) (sweep r q) = (\<Sum>(m, x) \<leftarrow> sweep r q. unat x * unat p)"
    unfolding fill_qty_def
    using assms(1) by (intro arg_cong [where f = sum_list] map_cong) (auto dest: sweep_mem)
  also have "\<dots> = (\<Sum>(m, x) \<leftarrow> sweep r q. unat x) * unat p"
    using sum_list_mult_const [of "\<lambda>(m, x). unat x" "unat p" "sweep r q"] by (simp add: case_prod_unfold)
  also have "(\<Sum>(m, x) \<leftarrow> sweep r q. unat x) = unat r - unat (sweep_left r q)"
    using sum_sweep [of r q] by simp
  also have "\<dots> = unat (min r (\<Sum>m \<leftarrow> q. ord_remaining m))"
    using unat_sum_list_exact [OF assms(2)] by (simp add: sweep_left_total unat_min_u64)
  finally show ?thesis by simp
qed

lemma checked_chain:
  "(case checked_mul p t of None \<Rightarrow> Inl e
    | Some lc \<Rightarrow> (case checked_add c lc of None \<Rightarrow> Inl e | Some c' \<Rightarrow> f c')) =
   (if unat c + unat p * unat t < 2 ^ 64 then f (c + p * t) else Inl e)"
  by (auto simp: checked_mul_def checked_add_def u64_simps split: if_splits)

lemma buy_cost_loop_eq:
  assumes "\<forall>(p, q) \<in> set ls. \<forall>m \<in> set q. ord_price m = p"
    and "(\<Sum>m \<leftarrow> level_orders ls. unat (ord_remaining m)) < 2 ^ 64"
  shows "buy_cost_loop ls r c =
    (let total = unat c + fill_qty (\<lambda>p a. unat p) (level_fills (\<lambda>_. True) r ls)
     in if total < 2 ^ 64 then Inr (of_nat total) else Inl InvalidAmount)"
  using assms
proof (induction ls arbitrary: r c)
  case (Cons e ls)
  obtain p q where e: "e = (p, q)" by fastforce
  show ?case
  proof (cases "r = 0")
    case False
    define t where "t = min r (\<Sum>m \<leftarrow> q. ord_remaining m)"
    have q: "\<forall>m \<in> set q. ord_price m = p" "(\<Sum>m \<leftarrow> q. unat (ord_remaining m)) < 2 ^ 64"
      "(\<Sum>m \<leftarrow> level_orders ls. unat (ord_remaining m)) < 2 ^ 64"
      using Cons.prems e by auto
    have fl: "fill_qty (\<lambda>p a. unat p) (sweep r q) = unat p * unat t" "sweep_left r q = r - t"
      using fill_qty_level [OF q(1,2)] sweep_left_min [OF q(2)] by (simp_all add: t_def)
    have step: "buy_cost_loop (e # ls) r c =
        (if unat c + unat p * unat t < 2 ^ 64 then buy_cost_loop ls (r - t) (c + p * t)
         else Inl InvalidAmount)"
      using False e by (simp add: Let_def checked_chain del: One_nat_def flip: t_def)
    show ?thesis
    proof (cases "unat c + unat p * unat t < 2 ^ 64")
      case True
      then have "unat (c + p * t) = unat c + unat p * unat t" by (simp add: u64_simps)
      then show ?thesis using step True False e fl Cons.IH [of "r - t" "c + p * t"] Cons.prems(1) q(3)
        by (simp add: Let_def add.assoc)
    next
      case over: False
      then show ?thesis using step e fl False by (simp add: Let_def)
    qed
  qed (use e in \<open>simp add: Let_def\<close>)
qed (simp add: Let_def)

definition buy_total :: "order_request \<Rightarrow> order_book \<Rightarrow> nat" where
  "buy_total req b = fill_qty (\<lambda>p a. unat p) (order_fills req b)"

lemma market_buy_cost_eq:
  assumes "book_inv b" and "req_type req = Market" "req_side req = Bid"
    and "(\<Sum>m \<leftarrow> level_orders (asks b). unat (ord_remaining m)) < 2 ^ 64"
  shows "market_buy_cost b (req_size req) =
    (if buy_total req b < 2 ^ 64 then Inr (of_nat (buy_total req b)) else Inl InvalidAmount)"
proof -
  have "\<forall>(p, q) \<in> set (asks b). \<forall>m \<in> set q. ord_price m = p"
    using assms(1) by (auto simp: book_inv_def levels_inv_def level_ok_def)
  moreover have "order_fills req b = level_fills (\<lambda>_. True) (req_size req) (asks b)"
    using assms(2,3) by (simp add: order_fills_def crosses_def [abs_def] best_first_def)
  ultimately show ?thesis using buy_cost_loop_eq [of "asks b" "req_size req" 0] assms(4)
    by (simp add: market_buy_cost_def buy_total_def Let_def)
qed

section \<open>would_self_trade\<close>

lemma saturating_sub_min: "saturating_sub r x = r - min r x"
  by (auto simp: saturating_sub_def min_def)

definition meets :: "account_id \<Rightarrow> (order \<times> u64) list \<Rightarrow> bool" where
  "meets a fs \<longleftrightarrow> (\<exists>(m, x) \<in> set fs. ord_account m = a)"

lemma meets_simps [simp]:
  "\<not> meets a []" "meets a (f # fs) \<longleftrightarrow> ord_account (fst f) = a \<or> meets a fs"
  "meets a (fs @ gs) \<longleftrightarrow> meets a fs \<or> meets a gs"
  by (auto simp: meets_def)

lemma scan_level_eq:
  "r \<noteq> 0 \<Longrightarrow> scan_level a q r =
     (if meets a (sweep r q) then Inl True
      else if sweep_left r q = 0 then Inl False else Inr (sweep_left r q))"
  by (induction q arbitrary: r) (auto simp: Let_def saturating_sub_min)

lemma scan_levels_eq:
  "r \<noteq> 0 \<Longrightarrow> scan_levels c a ls r = meets a (level_fills c r ls)"
  by (induction ls arbitrary: r) (auto simp: scan_level_eq split: if_splits)

lemma would_self_trade_eq:
  assumes "req_size req \<noteq> 0"
  shows "would_self_trade a req b = meets a (order_fills req b)"
proof (cases "req_side req")
  case Bid
  then have "(\<lambda>p. req_type req = Market \<or> p \<le> req_price req) =
      crosses (req_type req) (req_side req) (req_price req)"
    by (auto simp: crosses_def fun_eq_iff)
  with Bid assms show ?thesis
    by (simp add: would_self_trade_def Let_def scan_levels_eq order_fills_def best_first_def)
next
  case Ask
  then have "(\<lambda>p. req_type req = Market \<or> req_price req \<le> p) =
      crosses (req_type req) (req_side req) (req_price req)"
    by (auto simp: crosses_def fun_eq_iff)
  with Ask assms show ?thesis
    by (simp add: would_self_trade_def Let_def scan_levels_eq order_fills_def best_first_def)
qed

section \<open>Book deltas\<close>

lemma level_rest_unchanged:
  assumes "\<forall>(p', q) \<in> set ls. q \<noteq> [] \<and> (\<forall>m \<in> set q. ord_price m = p')" "distinct (map fst ls)"
    and "\<forall>(m, x) \<in> set (level_fills c r ls). ord_price m \<noteq> p"
  shows "map_of (level_rest c r ls) p = map_of ls p"
  using assms
proof (induction c r ls rule: level_rest.induct)
  case (2 c r p' q ls)
  show ?case
  proof (cases "r = 0 \<or> \<not> c p'")
    case False
    then obtain m q1 where q: "q = m # q1" using 2(2) by (cases q) auto
    with False 2(2,4) have "p' \<noteq> p" by auto
    then show ?thesis using 2 False by auto
  qed auto
qed simp

lemma levels_inv_queue: "levels_inv s ls \<Longrightarrow> \<forall>(p, q) \<in> set ls. q \<noteq> [] \<and> (\<forall>m \<in> set q. ord_price m = p)"
  by (auto simp: levels_inv_def level_ok_def)

lemma map_of_rev_distinct: "distinct (map fst xs) \<Longrightarrow> map_of (rev xs) = map_of xs"
proof (induction xs)
  case (Cons x xs)
  then have "map_of xs (fst x) = None" by (simp add: map_of_eq_None_iff)
  with Cons show ?case by (auto simp: map_add_def fun_eq_iff split: option.splits)
qed simp

lemma map_of_best_first:
  assumes "levels_inv (other_side s) (side_levels (other_side s) b)"
  shows "map_of (best_first s b) = bt_get (side_levels (other_side s) b)"
    and "distinct (map fst (best_first s b))"
  using btm.entries_distinct [OF levels_inv_bt [OF assms]]
  by (cases s; auto simp: best_first_def map_of_rev_distinct simp flip: map_of_bt_get rev_map)+

lemma other_side_neq [simp]: "other_side s \<noteq> s" "s \<noteq> other_side s"
  by (cases s; simp)+

lemma side_cases: "s' = s \<or> s' = other_side s"
  by (cases s; cases s') simp_all

text \<open>A level the command did not mark dirty is untouched.\<close>

lemma add_order_clean_level:
  assumes "book_inv b" and "(s, p) \<notin> dirty_levels (book_after i a req b)"
  shows "level_at s p (book_after i a req b) = level_at s p b"
proof -
  let ?t = "req_side req" and ?b = "book_after i a req b"
  have opp: "levels_inv (other_side ?t) (side_levels (other_side ?t) b)"
    by (rule book_inv_side [OF assms(1)])
  show ?thesis
  proof (cases "s = ?t")
    case True
    then have "rests req b \<longrightarrow> p \<noteq> req_price req" using assms(2) by (auto simp: book_after_dirty)
    then show ?thesis using True by (simp add: level_at_side book_after_sides push_back_get)
  next
    case False
    then have s: "s = other_side ?t" using side_cases by blast
    have "ord_price m \<noteq> p" if "(m, x) \<in> set (order_fills req b)" for m x
    proof -
      have "m \<in> set (level_orders (best_first ?t b))"
        using level_fills_mem [OF that [unfolded order_fills_def]] by (auto simp: set_level_orders)
      then have "ord_side m = s"
        using levels_inv_mem [OF opp] s mset_best_first [of ?t b] by (metis set_mset_mset)
      moreover have "fill_key (m, x) \<in> dirty_levels ?b"
        using that unfolding book_after_dirty by (auto intro: image_eqI [of _ fill_key "(m, x)"])
      ultimately show ?thesis using assms(2) by (auto simp: fill_key_def)
    qed
    moreover have "\<forall>(p', q) \<in> set (best_first ?t b). q \<noteq> [] \<and> (\<forall>m \<in> set q. ord_price m = p')"
      using levels_inv_queue [OF opp] by (cases ?t) (auto simp: best_first_def)
    ultimately have "map_of (order_rest req b) p = map_of (best_first ?t b) p"
      unfolding order_rest_def order_fills_def
      by (intro level_rest_unchanged map_of_best_first(2) opp) auto
    moreover have "map_of (order_rest req b) = bt_get (side_levels (other_side ?t) ?b)"
      using map_of_best_first(1) [OF order_rest_inv [OF assms(1), of req i a]]
      by (simp add: book_after_sides)
    ultimately show ?thesis using map_of_best_first(1) [OF opp] s by (simp add: level_at_side)
  qed
qed

lemma finite_dirty_after: "book_inv b \<Longrightarrow> finite (dirty_levels (book_after i a req b))"
  by (simp add: book_after_dirty book_inv_def)

lemma level_qty_dirty [simp]: "level_qty s p (b\<lparr>dirty_levels := D\<rparr>) = level_qty s p b"
  by (cases s) (simp_all add: level_qty_def level_at_def)

lemma set_deltas:
  assumes "is_drain d" "finite (dirty_levels b)"
  shows "set (snd (take_dirty_levels d b)) = {(s, p, level_qty s p b) | s p. (s, p) \<in> dirty_levels b}"
  using assms by (auto simp: take_dirty_levels_def)

text \<open>The contract of the deltas of one command: each carries its level's new total, no
  level is reported twice, and every level that is not reported is unchanged.\<close>

definition deltas_of :: "book_delta list \<Rightarrow> order_book \<Rightarrow> order_book \<Rightarrow> bool" where
  "deltas_of ds b b' \<longleftrightarrow> distinct (map (\<lambda>(s, p, x). (s, p)) ds) \<and>
     (\<forall>(s, p, x) \<in> set ds. x = level_qty s p b') \<and>
     (\<forall>s p. (s, p) \<notin> (\<lambda>(s, p, x). (s, p)) ` set ds \<longrightarrow> level_at s p b' = level_at s p b)"

lemma deltas_of_drain:
  assumes "is_drain d" "finite (dirty_levels b1)"
    and "\<And>s p. (s, p) \<notin> dirty_levels b1 \<Longrightarrow> level_at s p b1 = level_at s p b"
  shows "deltas_of (snd (take_dirty_levels d b1)) b (b1\<lparr>dirty_levels := {}\<rparr>)"
proof -
  let ?ds = "snd (take_dirty_levels d b1)"
  have keys: "map (\<lambda>(s, p, x). (s, p)) ?ds = d (dirty_levels b1)"
    by (simp add: take_dirty_levels_def comp_def case_prod_unfold)
  have "(\<lambda>(s, p, x). (s, p)) ` set ?ds = dirty_levels b1"
    by (metis assms(1,2) keys list.set_map set_drain)
  moreover have "level_at s p (b1\<lparr>dirty_levels := {}\<rparr>) = level_at s p b1" for s p
    by (cases s) (simp_all add: level_at_def)
  ultimately show ?thesis
    using assms set_deltas [OF assms(1,2)] by (auto simp: deltas_of_def keys)
qed

lemma add_order_deltas:
  assumes "book_inv b" "is_drain d"
  shows "deltas_of (mr_book_deltas (snd (add_order d i a req b))) b (fst (add_order d i a req b))"
  unfolding add_order_eq fst_conv snd_conv match_response.simps
  by (rule deltas_of_drain) (simp_all add: assms finite_dirty_after add_order_clean_level)

lemma level_at_removed:
  "level_at s p (book_removed m q b) =
     (if s = ord_side m \<and> p = ord_price m then (if q = [] then None else Some q) else level_at s p b)"
  by (cases s; cases "ord_side m") (auto simp: book_removed_def set_level_def level_at_def)

lemma cancel_deltas:
  assumes "is_drain d"
  shows "deltas_of (snd (take_dirty_levels d
    ((book_removed m q b)\<lparr>dirty_levels := {(ord_side m, ord_price m)}\<rparr>))) b (book_removed m q b)"
proof -
  let ?b = "(book_removed m q b)\<lparr>dirty_levels := {(ord_side m, ord_price m)}\<rparr>"
  have "level_at s p ?b = level_at s p (book_removed m q b)" for s p
    by (cases s) (simp_all add: level_at_def)
  then have "deltas_of (snd (take_dirty_levels d ?b)) b (?b\<lparr>dirty_levels := {}\<rparr>)"
    using assms by (intro deltas_of_drain) (auto simp: level_at_removed)
  moreover have "?b\<lparr>dirty_levels := {}\<rparr> = book_removed m q b" by (simp add: book_removed_def)
  ultimately show ?thesis by simp
qed

end
