(* ===== verification/Engine.thy ===== *)
theory Engine
  imports Ledger Messages Book_Queries
begin

text \<open>
  \<open>src/engine.rs\<close>: the engine's state and every operation on it, from the abuse guards and the
  idempotency window up to \<open>apply\<close>, which turns one command into a response and a batch of
  events. \<open>None\<close> is a panic (the \<open>expect\<close> of \<open>settle\<close>, the map indexing of \<open>apply\<close>). The orders
  in which the two dirty sets are drained are arguments (\<open>hashing\<close>), one pair of them per command.
\<close>

section \<open>Limits\<close>

record limits =
  deposit_ceiling :: "currency \<Rightarrow> u64"
  price_band_bps :: "u64 option"
  prevent_self_trade :: bool

fun demo_deposit_ceiling :: "currency \<Rightarrow> u64" where
  "demo_deposit_ceiling USD = 100000"
| "demo_deposit_ceiling SOL = 1000"

definition no_deposit_ceiling :: "currency \<Rightarrow> u64" where
  "no_deposit_ceiling c = - 1"

definition limits_default :: limits where
  "limits_default = \<lparr>deposit_ceiling = demo_deposit_ceiling, price_band_bps = Some 2000,
     prevent_self_trade = True\<rparr>"

definition limits_none :: limits where
  "limits_none = \<lparr>deposit_ceiling = no_deposit_ceiling, price_band_bps = None,
     prevent_self_trade = False\<rparr>"

section \<open>The idempotency window\<close>

record dedup =
  dd_seen :: "(account_id \<times> u64) set"
  dd_order :: "account_id \<rightharpoonup> u64 list"

definition dedup_window :: nat where
  "dedup_window = 1000"

definition dedup_new :: dedup where
  "dedup_new = \<lparr>dd_seen = {}, dd_order = Map.empty\<rparr>"

definition recent_of :: "dedup \<Rightarrow> account_id \<Rightarrow> u64 list" where
  "recent_of dd a = (case dd_order dd a of None \<Rightarrow> [] | Some q \<Rightarrow> q)"

definition dedup_insert :: "account_id \<Rightarrow> u64 \<Rightarrow> dedup \<Rightarrow> dedup \<times> bool" where
  "dedup_insert a i dd =
     (if (a, i) \<in> dd_seen dd then (dd, False)
      else
        (let seen = insert (a, i) (dd_seen dd);
             recent = recent_of dd a @ [i]
         in if dedup_window < length recent
            then (\<lparr>dd_seen = seen - {(a, hd recent)}, dd_order = (dd_order dd)(a \<mapsto> tl recent)\<rparr>, True)
            else (\<lparr>dd_seen = seen, dd_order = (dd_order dd)(a \<mapsto> recent)\<rparr>, True)))"

definition price_band :: "u64 \<Rightarrow> u64 \<Rightarrow> u64 \<times> u64" where
  "price_band last_px bps =
     (let delta = max (saturating_mul last_px bps div 10000) 1
      in (saturating_sub last_px delta, saturating_add last_px delta))"

section \<open>The engine\<close>

record engine =
  books :: "pair \<rightharpoonup> order_book"
  order_pair :: "u64 \<rightharpoonup> pair"
  next_order_id :: u64
  next_seq :: u64
  eng_ledger :: ledger
  eng_dedup :: dedup
  listed_pairs :: "pair set"
  eng_limits :: limits

definition engine_new :: engine where
  "engine_new = \<lparr>books = Map.empty, order_pair = Map.empty, next_order_id = 0, next_seq = 0,
     eng_ledger = ledger_new, eng_dedup = dedup_new, listed_pairs = {}, eng_limits = limits_default\<rparr>"

type_synonym hashing = "level_key drain \<times> ledger_key drain"

text \<open>The guards of \<open>place_order\<close>, in order: \<open>Some\<close> is the early return.\<close>

definition out_of_band :: "limits \<Rightarrow> order_request \<Rightarrow> order_book \<Rightarrow> bool" where
  "out_of_band lim req b =
     (if req_type req = Limit then
        (case (price_band_bps lim, last_trade_price b) of
           (Some bps, Some last_px) \<Rightarrow>
             (case price_band last_px bps of (low, high) \<Rightarrow>
                req_price req < low \<or> req_price req > high)
         | _ \<Rightarrow> False)
      else False)"

definition place_guard :: "account_id \<Rightarrow> order_request \<Rightarrow> engine \<Rightarrow> reject_reason option" where
  "place_guard account req e =
     (if \<not> is_valid (req_pair req) \<or> req_pair req \<notin> listed_pairs e then Some InvalidPair
      else
        (case books e (req_pair req) of
           None \<Rightarrow> None
         | Some b \<Rightarrow>
             if out_of_band (eng_limits e) req b then Some PriceOutOfBand
             else if prevent_self_trade (eng_limits e) \<and> would_self_trade account req b
             then Some SelfTrade
             else None))"

definition quote_amount :: "order_request \<Rightarrow> engine \<Rightarrow> reject_reason + u64" where
  "quote_amount req e =
     (if req_type req = Market \<and> req_side req = Bid then
        (case books e (req_pair req) of
           None \<Rightarrow> Inr 0
         | Some b \<Rightarrow> market_buy_cost b (req_size req))
      else
        (case checked_mul (req_price req) (req_size req) of
           None \<Rightarrow> Inl InvalidAmount
         | Some x \<Rightarrow> Inr x))"

definition reserve_for ::
    "account_id \<Rightarrow> order_request \<Rightarrow> u64 \<Rightarrow> ledger \<Rightarrow> ledger \<times> (reject_reason + unit)" where
  "reserve_for account req amount l =
     (case req_side req of
        Bid \<Rightarrow> reserve account (quote (req_pair req)) amount l
      | Ask \<Rightarrow> reserve account (base (req_pair req)) (req_size req) l)"

text \<open>Route future cancels and drop the makers this order filled completely.\<close>

definition route_orders ::
    "pair \<Rightarrow> u64 \<Rightarrow> order_book \<Rightarrow> trade list \<Rightarrow> (u64 \<rightharpoonup> pair) \<Rightarrow> (u64 \<rightharpoonup> pair)" where
  "route_orders p i b ts op =
     (let rested = (order_index b i \<noteq> None);
          filled_makers = filter (\<lambda>j. order_index b j = None) (map trd_maker_id ts);
          op1 = (if rested then op(i \<mapsto> p) else op)
      in fold (\<lambda>j m. m(j := None)) filled_makers op1)"

definition release_unsold :: "account_id \<Rightarrow> order_request \<Rightarrow> match_response \<Rightarrow> ledger \<Rightarrow> ledger" where
  "release_unsold account req mr l =
     (if req_type req = Market \<and> req_side req = Ask \<and> 0 < mr_taker_remaining mr
      then fst (release account (base (req_pair req)) (mr_taker_remaining mr) l)
      else l)"

definition surplus :: "order_request \<Rightarrow> trade list \<Rightarrow> u64" where
  "surplus req ts = (\<Sum>t \<leftarrow> ts. (req_price req - trd_price t) * trd_qty t)"

definition release_surplus ::
    "account_id \<Rightarrow> order_request \<Rightarrow> match_response \<Rightarrow> ledger \<Rightarrow> ledger \<times> (reject_reason + unit)" where
  "release_surplus account req mr l =
     (if req_side req = Bid \<and> req_type req = Limit \<and> 0 < surplus req (mr_trades mr)
      then release account (quote (req_pair req)) (surplus req (mr_trades mr)) l
      else (l, Inr ()))"

definition book_for :: "engine \<Rightarrow> pair \<Rightarrow> order_book" where
  "book_for e p = (case books e p of None \<Rightarrow> order_book_new | Some b \<Rightarrow> b)"

text \<open>From the match to the end of \<open>place_order\<close>, once the funds are reserved.\<close>

definition execute ::
    "level_key drain \<Rightarrow> account_id \<Rightarrow> order_request \<Rightarrow> engine \<Rightarrow>
     (engine \<times> (reject_reason + match_response)) option" where
  "execute d account req e =
     (let p = req_pair req;
          order_id = next_order_id e;
          (b, mr) = add_order d order_id account req (book_for e p);
          e1 = e\<lparr>next_order_id := next_order_id e + 1,
                 books := (books e)(p \<mapsto> b),
                 order_pair := route_orders p order_id b (mr_trades mr) (order_pair e)\<rparr>
      in case for_each (settle p) (mr_trades mr) (eng_ledger e1) of
           None \<Rightarrow> None
         | Some l1 \<Rightarrow>
             (case release_surplus account req mr (release_unsold account req mr l1) of
                (l2, Inl r) \<Rightarrow> Some (e1\<lparr>eng_ledger := l2\<rparr>, Inl r)
              | (l2, Inr _) \<Rightarrow> Some (e1\<lparr>eng_ledger := l2\<rparr>, Inr mr)))"

definition place_order ::
    "level_key drain \<Rightarrow> account_id \<Rightarrow> order_request \<Rightarrow> engine \<Rightarrow>
     (engine \<times> (reject_reason + match_response)) option" where
  "place_order d account req e =
     (case place_guard account req e of
        Some r \<Rightarrow> Some (e, Inl r)
      | None \<Rightarrow>
          (case quote_amount req e of
             Inl r \<Rightarrow> Some (e, Inl r)
           | Inr amount \<Rightarrow>
               (case reserve_for account req amount (eng_ledger e) of
                  (l, Inl r) \<Rightarrow> Some (e\<lparr>eng_ledger := l\<rparr>, Inl r)
                | (l, Inr _) \<Rightarrow> execute d account req (e\<lparr>eng_ledger := l\<rparr>))))"

definition engine_deposit ::
    "account_id \<Rightarrow> deposit_request \<Rightarrow> engine \<Rightarrow> engine \<times> (reject_reason + u64)" where
  "engine_deposit account req e =
     (case checked_add (held (eng_ledger e) account (dep_currency req)) (dep_amount req) of
        None \<Rightarrow> (e, Inl InvalidAmount)
      | Some after \<Rightarrow>
          if after > deposit_ceiling (eng_limits e) (dep_currency req)
          then (e, Inl DepositLimitExceeded)
          else
            (case ledger_deposit (dep_currency req) account (dep_amount req) (eng_ledger e) of
               (l, av) \<Rightarrow> (e\<lparr>eng_ledger := l\<rparr>, Inr av)))"

text \<open>What a cancelled order had reserved.\<close>

definition cancel_refund :: "pair \<Rightarrow> order \<Rightarrow> currency \<times> u64" where
  "cancel_refund p ord =
     (case ord_side ord of
        Bid \<Rightarrow> (quote p, ord_remaining ord * ord_price ord)
      | Ask \<Rightarrow> (base p, ord_remaining ord))"

definition engine_cancel_order ::
    "level_key drain \<Rightarrow> account_id \<Rightarrow> cancel_request \<Rightarrow> engine \<Rightarrow>
     engine \<times> (pair \<times> order \<times> book_delta list) option" where
  "engine_cancel_order d account req e =
     (case order_pair e (can_order_id req) of
        None \<Rightarrow> (e, None)
      | Some p \<Rightarrow>
          (case books e p of
             None \<Rightarrow> (e, None)
           | Some b \<Rightarrow>
               (case book_cancel_order d account (can_order_id req) b of
                  None \<Rightarrow> (e, None)
                | Some (b', ord, deltas) \<Rightarrow>
                    (case cancel_refund p ord of (c, amount) \<Rightarrow>
                       (e\<lparr>books := (books e)(p \<mapsto> b'),
                          eng_ledger := fst (release (ord_account ord) c amount (eng_ledger e)),
                          order_pair := (order_pair e)(can_order_id req := None)\<rparr>,
                        Some (p, ord, deltas))))))"

section \<open>apply\<close>

definition delta_events :: "pair \<Rightarrow> book_delta list \<Rightarrow> event list" where
  "delta_events p ds = map (\<lambda>(s, price, x). BookDelta p s price x) ds"

definition update_event :: "pair \<Rightarrow> order_update \<Rightarrow> event" where
  "update_event p u = OrderUpdated (upd_order_id u) (upd_account_id u) p (upd_filled_qty u)
     (upd_remaining_size u) (upd_status u)"

definition place_events :: "account_id \<Rightarrow> order_request \<Rightarrow> match_response \<Rightarrow> event list" where
  "place_events account req mr =
     [OrderAccepted (mr_order_id mr) account (req_pair req) (req_side req) (req_type req)
        (req_price req) (req_size req)] @
     map Trade (mr_trades mr) @
     map (update_event (req_pair req)) (mr_updates mr) @
     delta_events (req_pair req) (mr_book_deltas mr)"

definition place_response :: "match_response \<Rightarrow> place_order_response" where
  "place_response mr =
     \<lparr>por_order_id = mr_order_id mr,
      por_filled_qty = (\<Sum>t \<leftarrow> mr_trades mr. trd_qty t),
      por_total_cost = (\<Sum>t \<leftarrow> mr_trades mr. trd_qty t * trd_price t)\<rparr>"

definition cancel_events :: "u64 \<Rightarrow> pair \<Rightarrow> order \<Rightarrow> book_delta list \<Rightarrow> event list" where
  "cancel_events i p ord deltas =
     [OrderCancelled i,
      OrderUpdated (ord_id ord) (ord_account ord) p (ord_size ord - ord_remaining ord)
        (ord_remaining ord) Cancelled] @
     delta_events p deltas"

text \<open>The \<open>match command\<close> of \<open>apply\<close>: the new state, the response and the events so far.\<close>

fun apply_command ::
    "level_key drain \<Rightarrow> account_id \<Rightarrow> command \<Rightarrow> engine \<Rightarrow>
     (engine \<times> command_response \<times> event list) option" where
  "apply_command d account (Place req) e =
     (case place_order d account req e of
        None \<Rightarrow> None
      | Some (e', Inl r) \<Rightarrow> Some (e', PlaceR (Inl r), [])
      | Some (e', Inr mr) \<Rightarrow> Some (e', PlaceR (Inr (place_response mr)), place_events account req mr))"
| "apply_command d account (Cancel req) e =
     (case engine_cancel_order d account req e of
        (e', None) \<Rightarrow> Some (e', CancelR False, [])
      | (e', Some (p, ord, deltas)) \<Rightarrow>
          Some (e', CancelR True, cancel_events (can_order_id req) p ord deltas))"
| "apply_command d account (Deposit req) e =
     (case engine_deposit account req e of (e', r) \<Rightarrow> Some (e', DepositR r, []))"
| "apply_command d account (Withdraw req) e =
     (case ledger_withdraw account (wd_currency req) (wd_amount req) (eng_ledger e) of
        (l, r) \<Rightarrow> Some (e\<lparr>eng_ledger := l\<rparr>, WithdrawR r, []))"
| "apply_command d account (ListPair p) e =
     (if \<not> is_valid p then Some (e, ListPairR (Inl InvalidPair), [])
      else Some (e\<lparr>listed_pairs := insert p (listed_pairs e)\<rparr>,
                 ListPairR (Inr (p \<notin> listed_pairs e)), []))"
| "apply_command d account (DelistPair p) e =
     Some (e\<lparr>listed_pairs := listed_pairs e - {p}\<rparr>, DelistPairR (p \<in> listed_pairs e), [])"

text \<open>\<open>balances[&account_id][&currency]\<close> panics on a missing key.\<close>

definition balance_event :: "ledger \<Rightarrow> ledger_key \<Rightarrow> event option" where
  "balance_event l = (\<lambda>(a, c).
     case balances l a of
       None \<Rightarrow> None
     | Some m \<Rightarrow>
         (case m c of
            None \<Rightarrow> None
          | Some b \<Rightarrow> Some (BalanceChanged a c (available b) (reserved b))))"

definition finish_batch ::
    "ledger_key drain \<Rightarrow> engine \<Rightarrow> event list \<Rightarrow> (engine \<times> event_batch option) option" where
  "finish_batch d e events =
     (case take_dirty d (eng_ledger e) of (l, keys) \<Rightarrow>
        (case those (map (balance_event l) keys) of
           None \<Rightarrow> None
         | Some balance_events \<Rightarrow>
             (let e1 = e\<lparr>eng_ledger := l\<rparr>;
                  all_events = events @ balance_events
              in if all_events = [] then Some (e1, None)
                 else Some (e1\<lparr>next_seq := next_seq e1 + 1\<rparr>,
                            Some \<lparr>batch_seq = next_seq e1, batch_events = all_events\<rparr>))))"

definition engine_apply ::
    "hashing \<Rightarrow> account_id \<Rightarrow> u64 \<Rightarrow> command \<Rightarrow> engine \<Rightarrow>
     (engine \<times> command_response \<times> event_batch option) option" where
  "engine_apply h account client_order_id cmd e =
     (case dedup_insert account client_order_id (eng_dedup e) of
        (_, False) \<Rightarrow> Some (e, Duplicate, None)
      | (dd, True) \<Rightarrow>
          (case apply_command (fst h) account cmd (e\<lparr>eng_dedup := dd\<rparr>) of
             None \<Rightarrow> None
           | Some (e1, resp, events) \<Rightarrow>
               (case finish_batch (snd h) e1 events of
                  None \<Rightarrow> None
                | Some (e2, batch) \<Rightarrow> Some (e2, resp, batch))))"

end
