(* ===== verification/Book_Funds.thy ===== *)
theory Book_Funds
  imports Ledger Book_Queries
begin

text \<open>
  What the ledger has to set aside for a book. The contract of a matching book, as far as
  the funds of its users are concerned, is the locale \<open>matching_book\<close>: which orders are open,
  what an incoming order is filled with, and what rests afterwards. From it follows, once
  for all four kinds of order, that the reserve taken at placement pays for every trade
  and that what is left over is exactly what \<open>place_order\<close> releases again.
\<close>

section \<open>Commitments\<close>

text \<open>A unit open at price \<open>price\<close> for account \<open>acct\<close> commits its price in the quote currency on
  the bid side and one unit of the base currency on the ask side.\<close>

definition weight :: "pair \<Rightarrow> side \<Rightarrow> account_id \<Rightarrow> currency \<Rightarrow> u64 \<Rightarrow> account_id \<Rightarrow> nat" where
  "weight p s a c price acct =
     (if acct \<noteq> a then 0
      else case s of Bid \<Rightarrow> (if c = quote p then unat price else 0) | Ask \<Rightarrow> (if c = base p then 1 else 0))"

definition pay_currency :: "pair \<Rightarrow> side \<Rightarrow> currency" where
  "pay_currency p s = (case s of Bid \<Rightarrow> quote p | Ask \<Rightarrow> base p)"

lemma weight_zero [simp]: "acct \<noteq> a \<Longrightarrow> weight p s a c price acct = 0"
  "c \<noteq> pay_currency p s \<Longrightarrow> weight p s a c price acct = 0"
  by (auto simp: weight_def pay_currency_def split: side.splits)

lemma open_qty_mset: "mset q = mset q' \<Longrightarrow> open_qty g q = open_qty g q'"
proof -
  assume "mset q = mset q'"
  then have "sum_mset (mset (map (\<lambda>m. unat (ord_remaining m) * g (ord_price m) (ord_account m)) q)) =
      sum_mset (mset (map (\<lambda>m. unat (ord_remaining m) * g (ord_price m) (ord_account m)) q'))"
    by simp
  then show ?thesis unfolding sum_mset_sum_list open_qty_def .
qed

text \<open>Summed over all accounts, the weights of the ask side count the open quantity.\<close>

lemma sum_open_qty:
  "(\<Sum>a \<in> UNIV. open_qty (weight p Ask a (base p)) q) = (\<Sum>m \<leftarrow> q. unat (ord_remaining m))"
proof (induction q)
  case (Cons m q)
  have "unat (ord_remaining m) * weight p Ask a (base p) (ord_price m) (ord_account m) =
      (if a = ord_account m then unat (ord_remaining m) else 0)" for a
    by (simp add: weight_def)
  with Cons show ?case by (simp add: sum.distrib)
qed simp

text \<open>Paying each fill's own price instead of a common limit saves the difference.\<close>

lemma fill_cost_split:
  "\<forall>(m, x) \<in> set fs. unat (ord_price m) \<le> P \<Longrightarrow>
   fill_qty (\<lambda>p a. unat p) fs + (\<Sum>(m, x) \<leftarrow> fs. (P - unat (ord_price m)) * unat x) =
   P * (\<Sum>(m, x) \<leftarrow> fs. unat x)"
proof (induction fs)
  case (Cons f fs)
  have "unat (snd f) * unat (ord_price (fst f)) + (P - unat (ord_price (fst f))) * unat (snd f) = P * unat (snd f)"
    using Cons.prems by (auto simp: mult.commute [of P] mult.commute [of _ "unat (snd f)"] simp flip: add_mult_distrib2)
  with Cons show ?case by (simp add: case_prod_unfold add_mult_distrib2)
qed simp

section \<open>The contract of a matching book\<close>

locale matching_book =
  fixes inv :: "'b \<Rightarrow> bool"
    and orders :: "side \<Rightarrow> 'b \<Rightarrow> order list"
    and fills :: "order_request \<Rightarrow> 'b \<Rightarrow> (order \<times> u64) list"
    and left :: "order_request \<Rightarrow> 'b \<Rightarrow> u64"
    and add :: "u64 \<Rightarrow> account_id \<Rightarrow> order_request \<Rightarrow> 'b \<Rightarrow> 'b \<times> match_response"
  assumes orders_ok: "inv b \<Longrightarrow> m \<in> set (orders s b) \<Longrightarrow> order_ok m"
    and fills_open:
    "inv b \<Longrightarrow> (m, x) \<in> set (fills req b) \<Longrightarrow> m \<in> set (orders (other_side (req_side req)) b) \<and>
     x \<le> ord_remaining m \<and> crosses (req_type req) (req_side req) (req_price req) (ord_price m)"
    and fills_total: "(\<Sum>(m, x) \<leftarrow> fills req b. unat x) + unat (left req b) = unat (req_size req)"
    and add_trades:
    "mr_trades (snd (add i a req b)) = map (fill_trade req (taker_order i a req)) (fills req b)"
    and add_remaining: "mr_taker_remaining (snd (add i a req b)) = left req b"
    and add_own_side:
    "inv b \<Longrightarrow> mset (orders (req_side req) (fst (add i a req b))) =
     mset (orders (req_side req) b) +
       (if req_type req = Limit \<and> 0 < left req b
        then {#(taker_order i a req)\<lparr>ord_remaining := left req b\<rparr>#} else {#})"
    and add_other_side:
    "inv b \<Longrightarrow> open_qty g (orders (other_side (req_side req)) b) =
     fill_qty g (fills req b) + open_qty g (orders (other_side (req_side req)) (fst (add i a req b)))"
begin

definition committed :: "pair \<Rightarrow> 'b \<Rightarrow> account_id \<Rightarrow> currency \<Rightarrow> nat" where
  "committed p b a c = open_qty (weight p Bid a c) (orders Bid b) + open_qty (weight p Ask a c) (orders Ask b)"

lemma committed_sides:
  "committed p b a c = open_qty (weight p s a c) (orders s b) +
     open_qty (weight p (other_side s) a c) (orders (other_side s) b)"
  by (cases s) (simp_all add: committed_def)

text \<open>What the trades of an incoming order demand: the makers' share comes out of the book's
  commitments, the taker's share is \<open>taker_pays\<close>.\<close>

definition taker_pays :: "order_request \<Rightarrow> 'b \<Rightarrow> nat" where
  "taker_pays req b = (case req_side req of
     Bid \<Rightarrow> fill_qty (\<lambda>p a. unat p) (fills req b) | Ask \<Rightarrow> fill_qty (\<lambda>p a. 1) (fills req b))"

lemma demand_fill:
  "demand p (fill_trade req (taker_order i acct req) (m, x)) a c =
     unat x * weight p (other_side (req_side req)) a c (ord_price m) (ord_account m) +
     unat x * weight p (req_side req) a c (ord_price m) acct"
  by (cases "req_side req")
    (auto simp: demand_def buyer_def seller_def trade_cost_def fill_trade_def weight_def taker_order_def)

lemma demands_fills:
  "demands p (map (fill_trade req (taker_order i acct req)) fs) a c =
     fill_qty (weight p (other_side (req_side req)) a c) fs +
     fill_qty (\<lambda>pr _. weight p (req_side req) a c pr acct) fs"
  by (induction fs) (simp_all add: demand_fill [where m = "fst f" and x = "snd f" for f, simplified])

lemma demands_trades:
  "demands p (mr_trades (snd (add i acct req b))) a c =
     fill_qty (weight p (other_side (req_side req)) a c) (fills req b) +
     (if a = acct \<and> c = pay_currency p (req_side req) then taker_pays req b else 0)"
proof -
  have "fill_qty (\<lambda>pr _. weight p (req_side req) a c pr acct) (fills req b) =
      (if a = acct \<and> c = pay_currency p (req_side req) then taker_pays req b else 0)"
    by (cases "req_side req") (auto simp: taker_pays_def weight_def pay_currency_def fill_qty_def)
  then show ?thesis by (simp add: add_trades demands_fills)
qed

text \<open>What an order keeps committed after matching, and what it has reserved in excess.\<close>

definition kept :: "order_request \<Rightarrow> 'b \<Rightarrow> nat" where
  "kept req b = (if req_type req = Limit
     then (case req_side req of Bid \<Rightarrow> unat (left req b) * unat (req_price req) | Ask \<Rightarrow> unat (left req b))
     else 0)"

lemma committed_after:
  assumes "inv b"
  shows "committed p (fst (add i acct req b)) a c + fill_qty (weight p (other_side (req_side req)) a c) (fills req b) =
    committed p b a c + (if a = acct \<and> c = pay_currency p (req_side req) then kept req b else 0)"
proof -
  let ?s = "req_side req"
  have "open_qty (weight p ?s a c) (orders ?s (fst (add i acct req b))) =
      open_qty (weight p ?s a c) (orders ?s b) +
      (if a = acct \<and> c = pay_currency p ?s then kept req b else 0)"
  proof (cases "req_type req = Limit \<and> 0 < left req b")
    case True
    then have "mset (orders ?s (fst (add i acct req b))) =
        mset (orders ?s b @ [(taker_order i acct req)\<lparr>ord_remaining := left req b\<rparr>])"
      using add_own_side [OF assms] by simp
    from open_qty_mset [OF this] True show ?thesis
      by (cases ?s) (auto simp: kept_def weight_def pay_currency_def taker_order_def)
  next
    case False
    then have "mset (orders ?s (fst (add i acct req b))) = mset (orders ?s b)"
      using add_own_side [OF assms, of req i acct] unfolding if_not_P [OF False] by simp
    from open_qty_mset [OF this] False show ?thesis by (auto simp: kept_def split: side.splits)
  qed
  then show ?thesis
    using add_other_side [OF assms, of "weight p (other_side ?s) a c" req i acct]
    by (simp add: committed_sides [of _ _ _ _ ?s])
qed

lemma fills_notional: "inv b \<Longrightarrow> (m, x) \<in> set (fills req b) \<Longrightarrow> unat (ord_price m) * unat x < 2 ^ 64"
  using fills_open orders_ok order_ok_notional by blast

lemma trades_fit: "inv b \<Longrightarrow> t \<in> set (mr_trades (snd (add i a req b))) \<Longrightarrow> trade_cost t < 2 ^ 64"
  using fills_notional by (fastforce simp: add_trades trade_cost_def fill_trade_def)

lemma demands_covered:
  assumes "inv b"
  shows "fill_qty (weight p (other_side (req_side req)) a c) (fills req b) \<le> committed p b a c"
  using add_other_side [OF assms, of "weight p (other_side (req_side req)) a c" req undefined undefined]
  by (simp add: committed_sides [of _ _ _ _ "req_side req"])

text \<open>The reserve an order needs, and its split into the price of the fills, what stays
  committed to the rest of the order, and what has to be released.\<close>

definition improvement :: "order_request \<Rightarrow> 'b \<Rightarrow> nat" where
  "improvement req b = (\<Sum>(m, x) \<leftarrow> fills req b. (unat (req_price req) - unat (ord_price m)) * unat x)"

definition needed :: "order_request \<Rightarrow> 'b \<Rightarrow> nat" where
  "needed req b = (case req_side req of
     Bid \<Rightarrow> (if req_type req = Limit then unat (req_price req) * unat (req_size req) else taker_pays req b)
   | Ask \<Rightarrow> unat (req_size req))"

definition excess :: "order_request \<Rightarrow> 'b \<Rightarrow> nat" where
  "excess req b = (case (req_side req, req_type req) of
     (Bid, Limit) \<Rightarrow> improvement req b | (Ask, Market) \<Rightarrow> unat (left req b) | _ \<Rightarrow> 0)"

lemma improvement_eq:
  assumes "inv b" "req_type req = Limit" "req_side req = Bid"
  shows "fill_qty (\<lambda>p a. unat p) (fills req b) + improvement req b =
    unat (req_price req) * (\<Sum>(m, x) \<leftarrow> fills req b. unat x)"
proof -
  have "\<forall>(m, x) \<in> set (fills req b). unat (ord_price m) \<le> unat (req_price req)"
    using fills_open [OF assms(1)] assms(2,3) by (fastforce simp: crosses_def word_le_nat_alt)
  then show ?thesis unfolding improvement_def by (rule fill_cost_split)
qed

lemma needed_split:
  assumes "inv b"
  shows "needed req b = taker_pays req b + kept req b + excess req b"
proof (cases "req_side req")
  case Bid
  show ?thesis
  proof (cases "req_type req")
    case Limit
    have "unat (req_price req) * unat (req_size req) =
        unat (req_price req) * (\<Sum>(m, x) \<leftarrow> fills req b. unat x) + unat (left req b) * unat (req_price req)"
      by (subst fills_total [symmetric, of req b]) (simp add: algebra_simps)
    then show ?thesis using improvement_eq [OF assms Limit Bid] Limit Bid
      by (simp add: needed_def taker_pays_def kept_def excess_def)
  qed (simp add: Bid needed_def kept_def excess_def)
next
  case Ask
  then show ?thesis using fills_total [of req b]
    by (cases "req_type req")
      (simp_all add: needed_def taker_pays_def kept_def excess_def fill_qty_def case_prod_unfold)
qed

lemma improvement_trades:
  assumes "inv b" "req_type req = Limit" "req_side req = Bid"
    and "unat (req_price req) * unat (req_size req) < 2 ^ 64"
  shows "unat (\<Sum>t \<leftarrow> mr_trades (snd (add i a req b)). (req_price req - trd_price t) * trd_qty t) = improvement req b"
proof -
  have le: "improvement req b < 2 ^ 64"
    using needed_split [OF assms(1), of req] assms(2-4) by (simp add: needed_def excess_def)
  have each: "unat ((req_price req - ord_price m) * x) = (unat (req_price req) - unat (ord_price m)) * unat x"
    if "(m, x) \<in> set (fills req b)" for m x
  proof -
    have "unat (ord_price m) \<le> unat (req_price req)"
      using fills_open [OF assms(1) that] assms(2,3) by (simp add: crosses_def word_le_nat_alt)
    moreover have "(unat (req_price req) - unat (ord_price m)) * unat x \<le> improvement req b"
      using member_le_sum_list_nat [OF that, of "\<lambda>(m, x). (unat (req_price req) - unat (ord_price m)) * unat x"]
      by (simp add: improvement_def)
    ultimately show ?thesis using le by (simp add: u64_simps)
  qed
  have "improvement req b = (\<Sum>f \<leftarrow> fills req b. unat ((req_price req - ord_price (fst f)) * snd f))"
    unfolding improvement_def using each by (intro arg_cong [of _ _ sum_list] map_cong) auto
  then show ?thesis using le
    unat_sum_list_exact [of "\<lambda>f. (req_price req - ord_price (fst f)) * snd f" "fills req b"]
    by (simp add: add_trades fill_trade_def case_prod_unfold o_def)
qed

end

section \<open>The order book of the code meets the contract\<close>

definition side_orders :: "side \<Rightarrow> order_book \<Rightarrow> order list" where
  "side_orders s b = level_orders (side_levels s b)"

lemma side_orders_dirty [simp]: "side_orders s (b\<lparr>dirty_levels := D\<rparr>) = side_orders s b"
  by (cases s) (simp_all add: side_orders_def)

lemma best_first_dirty [simp]: "best_first s (b\<lparr>dirty_levels := D\<rparr>) = best_first s b"
  by (cases s) (simp_all add: best_first_def)

lemma side_orders_other:
  "mset (side_orders (other_side s) b) = mset (level_orders (best_first s b))"
  by (simp add: side_orders_def mset_best_first)

lemma order_fills_open:
  assumes "book_inv b" "(m, x) \<in> set (order_fills req b)"
  shows "m \<in> set (side_orders (other_side (req_side req)) b)" "x \<le> ord_remaining m"
    "crosses (req_type req) (req_side req) (req_price req) (ord_price m)"
proof -
  let ?s = "req_side req"
  obtain p q where q: "(p, q) \<in> set (best_first ?s b)" "crosses (req_type req) ?s (req_price req) p"
    "m \<in> set q" "x \<le> ord_remaining m"
    using assms(2) level_fills_mem unfolding order_fills_def by blast
  then have "m \<in> set (level_orders (best_first ?s b))" by (auto simp: set_level_orders)
  then show mem: "m \<in> set (side_orders (other_side ?s) b)"
    using mset_eq_setD [OF side_orders_other [of ?s b]] by simp
  have "(p, q) \<in> set (side_levels (other_side ?s) b)"
    using q(1) by (cases ?s) (auto simp: best_first_def)
  then have "ord_price m = p"
    using book_inv_side [OF assms(1), of "other_side ?s"] q(3) by (fastforce simp: levels_inv_def level_ok_def)
  with q(2,4) show "x \<le> ord_remaining m" "crosses (req_type req) ?s (req_price req) (ord_price m)" by simp_all
qed

lemma own_side_after:
  assumes "book_inv b"
  shows "mset (side_orders (req_side req) (book_after i a req b)) =
    mset (side_orders (req_side req) b) + (if rests req b then {#taker_after i a req b#} else {#})"
  unfolding side_orders_def book_after_sides(1)
  using book_inv_side [OF assms, of "req_side req"] by (simp add: mset_push_back)

interpretation mb: matching_book book_inv side_orders order_fills order_left "add_order d" for d
proof unfold_locales
  fix b m s x req i a g
  show "book_inv b \<Longrightarrow> m \<in> set (side_orders s b) \<Longrightarrow> order_ok m"
    using levels_inv_mem [OF book_inv_side] by (simp add: side_orders_def)
  show "book_inv b \<Longrightarrow> (m, x) \<in> set (order_fills req b) \<Longrightarrow>
      m \<in> set (side_orders (other_side (req_side req)) b) \<and> x \<le> ord_remaining m \<and>
      crosses (req_type req) (req_side req) (req_price req) (ord_price m)"
    using order_fills_open by blast
  show "(\<Sum>(m, x) \<leftarrow> order_fills req b. unat x) + unat (order_left req b) = unat (req_size req)"
    unfolding order_fills_def order_left_def by (rule sum_level_fills)
  show "book_inv b \<Longrightarrow> mset (side_orders (req_side req) (fst (add_order d i a req b))) =
      mset (side_orders (req_side req) b) + (if req_type req = Limit \<and> 0 < order_left req b
        then {#(taker_order i a req)\<lparr>ord_remaining := order_left req b\<rparr>#} else {#})"
    by (auto simp: own_side_after add_order_eq rests_def taker_after_def)
  show "book_inv b \<Longrightarrow> open_qty g (side_orders (other_side (req_side req)) b) =
      fill_qty g (order_fills req b) +
      open_qty g (side_orders (other_side (req_side req)) (fst (add_order d i a req b)))"
    using open_qty_mset [OF side_orders_other [of "req_side req" b], of g]
      open_qty_mset [OF side_orders_other [of "req_side req" "fst (add_order d i a req b)"], of g]
      level_open_qty [of g "best_first (req_side req) b"]
    by (simp add: add_order_eq book_after_sides(2) order_rest_def order_fills_def)
qed (simp_all add: add_order_eq)

end
