(* ===== verification/Engine_Funds.thy ===== *)
theory Engine_Funds
  imports Engine Book_Funds
begin

text \<open>
  The money side of \<open>place_order\<close>: from the reserve at placement, through the settlement of
  the trades, to the release of what was reserved in excess. The result, \<open>clear_order\<close>, is
  that none of these steps can panic or fail and that exactly the new commitments of the
  book stay reserved.
\<close>

section \<open>Commitments of the open orders\<close>

definition commitment :: "pair \<Rightarrow> order \<Rightarrow> account_id \<Rightarrow> currency \<Rightarrow> nat" where
  "commitment p m a c =
     (if ord_account m \<noteq> a then 0
      else case ord_side m of
             Bid \<Rightarrow> (if c = quote p then unat (ord_remaining m) * unat (ord_price m) else 0)
           | Ask \<Rightarrow> (if c = base p then unat (ord_remaining m) else 0))"

definition book_commit :: "pair \<Rightarrow> order_book \<Rightarrow> account_id \<Rightarrow> currency \<Rightarrow> nat" where
  "book_commit p b a c = (\<Sum>m \<leftarrow> resting b. commitment p m a c)"

definition engine_commit :: "engine \<Rightarrow> account_id \<Rightarrow> currency \<Rightarrow> nat" where
  "engine_commit e a c = (\<Sum>p \<in> UNIV. book_commit p (book_for e p) a c)"

lemma commitment_weight:
  "commitment p m a c = unat (ord_remaining m) * weight p (ord_side m) a c (ord_price m) (ord_account m)"
  by (auto simp: commitment_def weight_def split: side.splits)

lemma open_qty_commitment:
  "\<forall>m \<in> set q. ord_side m = s \<Longrightarrow> open_qty (weight p s a c) q = (\<Sum>m \<leftarrow> q. commitment p m a c)"
  unfolding open_qty_def by (intro arg_cong [of _ _ sum_list] map_cong) (auto simp: commitment_weight)

lemma book_commit_eq:
  assumes "book_inv b"
  shows "mb.committed p b a c = book_commit p b a c"
proof -
  have "\<forall>m \<in> set (side_orders s b). ord_side m = s" for s
    using levels_inv_mem [OF book_inv_side [OF assms]] by (simp add: side_orders_def)
  then show ?thesis
    unfolding mb.committed_def by (simp add: open_qty_commitment)
      (simp add: book_commit_def resting_def side_orders_def)
qed

lemma book_commit_mset: "mset (resting b') = mset (resting b) \<Longrightarrow> book_commit p b' a c = book_commit p b a c"
  unfolding book_commit_def by (metis (no_types) mset_map sum_mset_sum_list)

lemma book_commit_new [simp]: "book_commit p order_book_new a c = 0"
  by (simp add: book_commit_def resting_def order_book_new_def)

section \<open>Releasing the excess\<close>

lemma release_exact:
  assumes "unat x = n" "n \<le> resv l a c" "avail l a c + resv l a c < 2 ^ 64"
  shows "snd (release a c x l) = Inr ()"
    "avail (fst (release a c x l)) = upd2 (avail l) a c (avail l a c + n)"
    "resv (fst (release a c x l)) = upd2 (resv l) a c (resv l a c - n)"
  using lg.release_accepts [of x l a c] assms by simp_all

lemma release_excess:
  assumes "book_inv b" "req_type req = Limit \<Longrightarrow> unat (req_price req) * unat (req_size req) < 2 ^ 64"
    and mr: "mr = snd (add_order d i a req b)" and k: "k = pay_currency (req_pair req) (req_side req)"
    and "mb.excess req b \<le> resv l a k" "avail l a k + resv l a k < 2 ^ 64"
  obtains l' where "release_surplus a req mr (release_unsold a req mr l) = (l', Inr ())"
    "avail l' = upd2 (avail l) a k (avail l a k + mb.excess req b)"
    "resv l' = upd2 (resv l) a k (resv l a k - mb.excess req b)" "tracked l l'"
proof -
  have same: "upd2 f a k (f a k) = f" for f :: "account_id \<Rightarrow> currency \<Rightarrow> nat"
    by (simp add: upd2_def fun_eq_iff)
  consider (buy) "req_side req = Bid" "req_type req = Limit" | (sell) "req_side req = Ask" "req_type req = Market"
    | (none) "mb.excess req b = 0" "\<not> (req_side req = Bid \<and> req_type req = Limit)"
        "\<not> (req_side req = Ask \<and> req_type req = Market)"
    by (cases "req_side req"; cases "req_type req") (auto simp: mb.excess_def)
  then show thesis
  proof cases
    case buy
    then have s: "unat (surplus req (mr_trades mr)) = mb.excess req b"
      using mb.improvement_trades [OF assms(1), of req d i a] assms(2) by (simp add: surplus_def mr mb.excess_def)
    show thesis
    proof (cases "surplus req (mr_trades mr) = 0")
      case True
      then have "mb.excess req b = 0" using s by simp
      with True buy show thesis using that [of l] by (simp add: release_surplus_def release_unsold_def same)
    next
      case False
      then show thesis using buy that release_exact [OF s assms(5,6)] k
        by (cases "release a k (surplus req (mr_trades mr)) l")
          (auto simp: release_surplus_def release_unsold_def pay_currency_def word_gt_0, metis fst_conv tracked_ops(2))
    qed
  next
    case sell
    then have s: "unat (mr_taker_remaining mr) = mb.excess req b"
      by (simp add: mr mb.add_remaining mb.excess_def)
    show thesis
    proof (cases "mr_taker_remaining mr = 0")
      case True
      then have "mb.excess req b = 0" using s by simp
      with True sell show thesis using that [of l] by (simp add: release_surplus_def release_unsold_def same)
    next
      case False
      then show thesis using sell that [of "fst (release a k (mr_taker_remaining mr) l)"]
          release_exact [OF s assms(5,6)] k
        by (simp add: release_surplus_def release_unsold_def pay_currency_def word_gt_0)
    qed
  next
    case none
    then have "release_surplus a req mr (release_unsold a req mr l) = (l, Inr ())"
      by (auto simp: release_surplus_def release_unsold_def)
    then show thesis using that [of l] none(1) by (simp add: same)
  qed
qed

section \<open>Clearing an order\<close>

text \<open>The ledger right after the reserve of an order: the other commitments (\<open>oth\<close>), those of the
  order's own book, and what the order needs.\<close>

lemma clear_order:
  assumes inv: "book_inv b" and p: "p = req_pair req" "is_valid p"
    and fits: "req_type req = Limit \<Longrightarrow> unat (req_price req) * unat (req_size req) < 2 ^ 64"
    and mr: "mr = snd (add_order d i acct req b)" and k: "k = pay_currency p (req_side req)"
    and rs: "\<And>a c. resv l a c = mb.committed p b a c + oth a c + (if a = acct \<and> c = k then mb.needed req b else 0)"
    and sup: "\<And>c. total_supply l c < 2 ^ 64"
  obtains l1 l2 where "for_each (settle p) (mr_trades mr) l = Some l1"
    "release_surplus acct req mr (release_unsold acct req mr l1) = (l2, Inr ())"
    "\<And>a c. resv l2 a c = mb.committed p (fst (add_order d i acct req b)) a c + oth a c"
    "\<And>a c. avail l2 a c = avail l a c + credits p (mr_trades mr) a c + (if a = acct \<and> c = k then mb.excess req b else 0)"
    "\<And>c. total_supply l2 c = total_supply l c" "tracked l l2"
proof -
  let ?ts = "mr_trades mr" and ?F = "\<lambda>a c. fill_qty (weight p (other_side (req_side req)) a c) (order_fills req b)"
  have dem: "demands p ?ts a c = ?F a c + (if a = acct \<and> c = k then mb.taker_pays req b else 0)" for a c
    unfolding mr k by (rule mb.demands_trades)
  have cov: "?F a c \<le> mb.committed p b a c" for a c by (rule mb.demands_covered [OF inv])
  note need = mb.needed_split [OF inv, of req]
  have cover: "demands p ?ts a c \<le> resv l a c" for a c
    using cov [of a c] need by (auto simp: rs dem)
  have fit: "\<forall>t \<in> set ?ts. trade_cost t < 2 ^ 64" using mb.trades_fit [OF inv] mr by blast
  have ne: "base p \<noteq> quote p" and sup0: "\<And>c. lg.sup l c < 2 ^ 64"
    using p(2) sup by (simp_all add: is_valid_def total_supply_def)
  obtain l1 where l1: "for_each (settle p) ?ts l = Some l1"
      "\<And>a c. resv l1 a c = resv l a c - demands p ?ts a c" "\<And>a c. avail l1 a c = avail l a c + credits p ?ts a c"
      and s1: "\<And>c. lg.sup l1 c = lg.sup l c"
    by (rule lg.settle_all [OF ne fit cover sup0]) blast
  have sup1: "total_of (avail l1) (resv l1) c < 2 ^ 64" for c
    using sup [of c] s1 [of c] by (simp add: total_supply_def)
  have ex: "mb.excess req b \<le> resv l1 acct k" "avail l1 acct k + resv l1 acct k < 2 ^ 64"
    using cov [of acct k] need le_total [of "avail l1" acct k "resv l1"] sup1 [of k] by (simp_all add: l1(2) rs dem)
  obtain l2 where l2: "release_surplus acct req mr (release_unsold acct req mr l1) = (l2, Inr ())"
      "avail l2 = upd2 (avail l1) acct k (avail l1 acct k + mb.excess req b)"
      "resv l2 = upd2 (resv l1) acct k (resv l1 acct k - mb.excess req b)" "tracked l1 l2"
    using release_excess [OF inv fits mr _ ex(1,2)] k p(1) by blast
  show thesis
  proof (rule that [OF l1(1) l2(1)])
    fix a c
    show "resv l2 a c = mb.committed p (fst (add_order d i acct req b)) a c + oth a c"
      using mb.committed_after [OF inv, where d = d and i = i and acct = acct and req = req and p = p and a = a and c = c] cov [of a c] need
      by (auto simp: l2(3) l1(2) upd2_apply rs dem k)
    show "avail l2 a c = avail l a c + credits p ?ts a c + (if a = acct \<and> c = k then mb.excess req b else 0)"
      by (simp add: l2(2) l1(3) upd2_apply)
  next
    fix c
    have "avail l1 acct k \<le> total_of (avail l1) (resv l1) k" "mb.excess req b \<le> total_of (avail l1) (resv l1) k - avail l1 acct k"
      using ex(1) le_total [of "avail l1" acct k "resv l1"] by simp_all
    then show "total_supply l2 c = total_supply l c"
      using s1 [of c] ex(1) le_total [of "avail l1" acct k "resv l1"]
      by (auto simp: total_supply_def l2(2,3) total_of_upd2 upd2_apply)
  qed (use tracked_settle_all [OF l1(1)] l2(4) tracked_trans in blast)
qed

end
