(* ===== verification/Engine_Invariant.thy ===== *)
theory Engine_Invariant
  imports Engine_Funds
begin

text \<open>
  The invariant of the whole engine between commands: every book is well formed and belongs
  to a valid pair, order ids are unique across books and below the next id, cancels are
  routed to the book that holds the order, and for every account and currency the reserved
  balance is exactly what the account's open orders commit. Every command keeps it, none
  panics, and only deposits and withdrawals change the supply of a currency.
\<close>

section \<open>The invariant\<close>

definition books_ok :: "engine \<Rightarrow> bool" where
  "books_ok e \<longleftrightarrow> (\<forall>p b. books e p = Some b \<longrightarrow>
     is_valid p \<and> book_inv b \<and> (\<forall>m \<in> set (resting b). ord_id m < next_order_id e))"

definition routes_ok :: "engine \<Rightarrow> bool" where
  "routes_ok e \<longleftrightarrow> (\<forall>i p. order_pair e i = Some p \<longleftrightarrow>
     (\<exists>b. books e p = Some b \<and> order_index b i \<noteq> None))"

definition backed :: "engine \<Rightarrow> bool" where
  "backed e \<longleftrightarrow> (\<forall>a c. resv (eng_ledger e) a c = engine_commit e a c)"

definition engine_inv :: "engine \<Rightarrow> bool" where
  "engine_inv e \<longleftrightarrow> books_ok e \<and> routes_ok e \<and> backed e"

text \<open>Balances cannot wrap while the supply of each currency fits \<open>u64\<close>.\<close>

definition funded :: "engine \<Rightarrow> bool" where
  "funded e \<longleftrightarrow> (\<forall>c. total_supply (eng_ledger e) c < 2 ^ 64)"

lemma book_for_ok:
  assumes "books_ok e"
  shows "book_inv (book_for e p)" "\<forall>m \<in> set (resting (book_for e p)). ord_id m < next_order_id e"
  using assms by (auto simp: book_for_def books_ok_def resting_def order_book_new_def simp del: book_inv_new
      intro: book_inv_new [unfolded order_book_new_def] split: option.splits)

lemma routes_ok_iff:
  "routes_ok e \<longleftrightarrow> (\<forall>i p. order_pair e i = Some p \<longleftrightarrow> order_index (book_for e p) i \<noteq> None)"
proof -
  have "(\<exists>b. books e p = Some b \<and> order_index b i \<noteq> None) \<longleftrightarrow> order_index (book_for e p) i \<noteq> None" for i p
    by (cases "books e p") (simp_all add: book_for_def order_book_new_def)
  then show ?thesis unfolding routes_ok_def by simp
qed

lemma engine_commit_split:
  "engine_commit e a c = book_commit p (book_for e p) a c + (\<Sum>q \<in> UNIV - {p}. book_commit q (book_for e q) a c)"
  unfolding engine_commit_def by (rule sum.remove) auto

lemma engine_commit_update:
  assumes "\<And>q. q \<noteq> p \<Longrightarrow> book_for e' q = book_for e q"
  shows "engine_commit e' a c = book_commit p (book_for e' p) a c + (\<Sum>q \<in> UNIV - {p}. book_commit q (book_for e q) a c)"
  unfolding engine_commit_split [of e' a c p] using assms by (intro arg_cong2 [of _ _ _ _ "(+)"] sum.cong) auto

section \<open>Reserving for an order\<close>

lemma asks_total_fits:
  assumes "books_ok e" "backed e" "funded e"
  shows "(\<Sum>m \<leftarrow> level_orders (asks (book_for e p)). unat (ord_remaining m)) < 2 ^ 64"
proof -
  let ?b = "book_for e p" and ?l = "eng_ledger e"
  have "open_qty (weight p Ask a (base p)) (side_orders Ask ?b) \<le> avail ?l a (base p) + resv ?l a (base p)" for a
    using book_commit_eq [OF book_for_ok(1) [OF assms(1)], of p p a "base p"] engine_commit_split [of e a "base p" p]
      assms(2) by (simp add: mb.committed_def backed_def)
  then have "(\<Sum>a \<in> UNIV. open_qty (weight p Ask a (base p)) (side_orders Ask ?b)) \<le> total_supply ?l (base p)"
    unfolding total_supply_def total_of_def by (intro sum_mono)
  moreover have "total_supply ?l (base p) < 2 ^ 64" using assms(3) by (simp add: funded_def)
  ultimately show ?thesis by (simp add: sum_open_qty side_orders_def)
qed

lemma quote_amount_needed:
  assumes "books_ok e" "backed e" "funded e" "quote_amount req e = Inr x"
  shows "req_side req = Bid \<Longrightarrow> unat x = mb.needed req (book_for e (req_pair req))"
    and "req_type req = Limit \<Longrightarrow> unat (req_price req) * unat (req_size req) < 2 ^ 64"
proof -
  let ?b = "book_for e (req_pair req)"
  have mul: "unat x = unat (req_price req) * unat (req_size req) \<and> unat (req_price req) * unat (req_size req) < 2 ^ 64"
    if m: "\<not> (req_type req = Market \<and> req_side req = Bid)"
  proof -
    have "checked_mul (req_price req) (req_size req) = Some x"
      using assms(4) unfolding quote_amount_def if_not_P [OF m] by (simp split: option.splits)
    then show ?thesis by (rule checked_mul_Some)
  qed
  then show "req_type req = Limit \<Longrightarrow> unat (req_price req) * unat (req_size req) < 2 ^ 64" by auto
  assume bid: "req_side req = Bid"
  show "unat x = mb.needed req ?b"
  proof (cases "req_type req")
    case Market
    have tot: "market_buy_cost ?b (req_size req) =
        (if buy_total req ?b < 2 ^ 64 then Inr (of_nat (buy_total req ?b)) else Inl InvalidAmount)"
      by (rule market_buy_cost_eq [OF book_for_ok(1) [OF assms(1)] Market bid asks_total_fits [OF assms(1-3)]])
    have "market_buy_cost order_book_new (req_size req) = Inr 0"
      by (simp add: market_buy_cost_def order_book_new_def)
    then have "market_buy_cost ?b (req_size req) = Inr x"
      using assms(4) Market bid by (auto simp: quote_amount_def book_for_def split: option.splits)
    then have "x = of_nat (buy_total req ?b)" "buy_total req ?b < 2 ^ 64" using tot by (auto split: if_splits)
    then have "unat x = buy_total req ?b" by (simp add: unat_of_nat)
    then show ?thesis using Market bid by (simp add: mb.needed_def mb.taker_pays_def buy_total_def)
  next
    case Limit
    then show ?thesis using mul bid by (simp add: mb.needed_def)
  qed
qed

text \<open>The outcome of \<open>reserve_for\<close>: refused for lack of funds with every balance as it was, or the
  needed amount moved from available to reserved.\<close>

lemma total_of_move:
  assumes "n \<le> av a c"
  shows "total_of (upd2 av a c (av a c - n)) (upd2 rs a c (rs a c + n)) = total_of av rs"
proof
  fix c'
  show "total_of (upd2 av a c (av a c - n)) (upd2 rs a c (rs a c + n)) c' = total_of av rs c'"
    using assms le_total [of av a c rs] by (simp add: total_of_upd2 upd2_apply)
qed

lemma reserve_for_eq:
  assumes "books_ok e" "backed e" "funded e" "quote_amount req e = Inr x"
    and k: "k = pay_currency (req_pair req) (req_side req)" and n: "n = mb.needed req (book_for e (req_pair req))"
    and r: "reserve_for acct req x (eng_ledger e) = (l, r)"
  shows "(avail (eng_ledger e) acct k < n \<and> r = Inl InsufficientFunds \<and> entry_balance l = entry_balance (eng_ledger e)) \<or>
    (n \<le> avail (eng_ledger e) acct k \<and> r = Inr () \<and> total_supply l = total_supply (eng_ledger e) \<and>
     avail l = upd2 (avail (eng_ledger e)) acct k (avail (eng_ledger e) acct k - n) \<and>
     resv l = upd2 (resv (eng_ledger e)) acct k (resv (eng_ledger e) acct k + n))"
    and "tracked (eng_ledger e) l"
proof -
  let ?l = "eng_ledger e"
  define z where "z = (case req_side req of Bid \<Rightarrow> x | Ask \<Rightarrow> req_size req)"
  have res: "reserve acct k z ?l = (l, r)"
    using r by (cases "req_side req") (simp_all add: reserve_for_def k pay_currency_def z_def)
  have z: "unat z = n"
    using quote_amount_needed(1) [OF assms(1-4)] by (cases "req_side req") (simp_all add: z_def n mb.needed_def)
  show "tracked ?l l" using tracked_ops(1) [of ?l acct k z] res by simp
  have "avail ?l acct k + resv ?l acct k < 2 ^ 64"
    using assms(3) le_total [of "avail ?l" acct k "resv ?l"] by (auto simp: funded_def total_supply_def intro: le_less_trans)
  then have ok: "n \<le> avail ?l acct k \<Longrightarrow> resv ?l acct k + n < 2 ^ 64" by simp
  show "(avail ?l acct k < n \<and> r = Inl InsufficientFunds \<and> entry_balance l = entry_balance ?l) \<or>
    (n \<le> avail ?l acct k \<and> r = Inr () \<and> total_supply l = total_supply ?l \<and>
     avail l = upd2 (avail ?l) acct k (avail ?l acct k - n) \<and> resv l = upd2 (resv ?l) acct k (resv ?l acct k + n))"
  proof (cases "n \<le> avail ?l acct k")
    case True
    then show ?thesis using lg.reserve_accepts [of z ?l acct k] res z ok
      by (simp add: total_supply_def total_of_move)
  next
    case False
    then show ?thesis using reserve_eq(1) [of acct k z ?l] reserve_eq(3) [of ?l acct k z] res z by simp
  qed
qed

section \<open>place_order\<close>

definition matched :: "level_key drain \<Rightarrow> account_id \<Rightarrow> order_request \<Rightarrow> engine \<Rightarrow> order_book \<times> match_response" where
  "matched d account req e = add_order d (next_order_id e) account req (book_for e (req_pair req))"

definition after_match :: "level_key drain \<Rightarrow> account_id \<Rightarrow> order_request \<Rightarrow> engine \<Rightarrow> ledger \<Rightarrow> engine" where
  "after_match d account req e l =
     e\<lparr>next_order_id := next_order_id e + 1,
       books := (books e)(req_pair req \<mapsto> fst (matched d account req e)),
       order_pair := route_orders (req_pair req) (next_order_id e) (fst (matched d account req e))
         (mr_trades (snd (matched d account req e))) (order_pair e),
       eng_ledger := l\<rparr>"

text \<open>The two outcomes of placing an order.\<close>

definition place_rejected :: "engine \<Rightarrow> engine \<Rightarrow> bool" where
  "place_rejected e e' \<longleftrightarrow> (\<exists>l. e' = e\<lparr>eng_ledger := l\<rparr> \<and> entry_balance l = entry_balance (eng_ledger e) \<and>
     tracked (eng_ledger e) l)"

definition place_accepted :: "level_key drain \<Rightarrow> account_id \<Rightarrow> order_request \<Rightarrow> engine \<Rightarrow> engine \<Rightarrow> bool" where
  "place_accepted d acct req e e' \<longleftrightarrow> (\<exists>l.
     e' = after_match d acct req e l \<and> tracked (eng_ledger e) l \<and>
     total_supply l = total_supply (eng_ledger e) \<and>
     (\<forall>a c. resv l a c = engine_commit e' a c) \<and>
     (let k = pay_currency (req_pair req) (req_side req);
          b = book_for e (req_pair req)
      in mb.needed req b \<le> avail (eng_ledger e) acct k \<and>
         (\<forall>a c. avail l a c + (if a = acct \<and> c = k then mb.needed req b else 0) =
            avail (eng_ledger e) a c + credits (req_pair req) (mr_trades (snd (matched d acct req e))) a c +
            (if a = acct \<and> c = k then mb.excess req b else 0))))"

lemma place_rejected_refl [simp]: "place_rejected e e"
  unfolding place_rejected_def by (rule exI [of _ "eng_ledger e"]) simp

lemma book_for_after_match:
  "book_for (after_match d acct req e l) q = (if q = req_pair req then fst (matched d acct req e) else book_for e q)"
  by (simp add: book_for_def after_match_def)

lemma matched_ledger [simp]: "matched d acct req (e\<lparr>eng_ledger := l\<rparr>) = matched d acct req e"
  "after_match d acct req (e\<lparr>eng_ledger := l\<rparr>) l' = after_match d acct req e l'"
  by (simp_all add: matched_def after_match_def book_for_def)

lemma execute_eq:
  "for_each (settle (req_pair req)) (mr_trades (snd (matched d acct req e))) (eng_ledger e) = Some l1 \<Longrightarrow>
   release_surplus acct req (snd (matched d acct req e)) (release_unsold acct req (snd (matched d acct req e)) l1) = (l2, Inr ()) \<Longrightarrow>
   execute d acct req e = Some (after_match d acct req e l2, Inr (snd (matched d acct req e)))"
  by (simp add: execute_def Let_def case_prod_unfold matched_def after_match_def)

lemma engine_commit_after_match:
  assumes "book_inv (fst (matched d acct req e))"
  shows "engine_commit (after_match d acct req e l) a c =
    mb.committed (req_pair req) (fst (matched d acct req e)) a c +
    (\<Sum>q \<in> UNIV - {req_pair req}. book_commit q (book_for e q) a c)"
  using engine_commit_update [of "req_pair req" "after_match d acct req e l" e a c]
  by (simp add: book_for_after_match book_commit_eq [OF assms])

lemma place_fresh:
  assumes "books_ok e" "req_type req = Limit \<Longrightarrow> unat (req_price req) * unat (req_size req) < 2 ^ 64"
  shows "order_fresh (next_order_id e) req (book_for e (req_pair req))"
    and "book_inv (fst (matched d acct req e))"
proof -
  show f: "order_fresh (next_order_id e) req (book_for e (req_pair req))"
    using book_for_ok(2) [OF assms(1)] assms(2) by (simp add: order_fresh_def)
  show "book_inv (fst (matched d acct req e))"
    unfolding matched_def by (rule add_order_inv [OF book_for_ok(1) [OF assms(1)] f])
qed

lemma execute_clears:
  assumes inv: "books_ok e" "backed e" and fits: "req_type req = Limit \<Longrightarrow> unat (req_price req) * unat (req_size req) < 2 ^ 64"
    and v: "is_valid (req_pair req)" and k: "k = pay_currency (req_pair req) (req_side req)"
    and n: "n = mb.needed req (book_for e (req_pair req))" "n \<le> avail (eng_ledger e) acct k"
    and l: "avail l = upd2 (avail (eng_ledger e)) acct k (avail (eng_ledger e) acct k - n)"
      "resv l = upd2 (resv (eng_ledger e)) acct k (resv (eng_ledger e) acct k + n)"
      "total_supply l = total_supply (eng_ledger e)" "tracked (eng_ledger e) l" and f: "funded e"
  shows "\<exists>e'. execute d acct req (e\<lparr>eng_ledger := l\<rparr>) = Some (e', Inr (snd (matched d acct req e))) \<and>
    place_accepted d acct req e e'"
proof -
  let ?p = "req_pair req" and ?b = "book_for e (req_pair req)" and ?mr = "snd (matched d acct req e)"
  let ?oth = "\<lambda>a c. \<Sum>q \<in> UNIV - {?p}. book_commit q (book_for e q) a c"
  note b = book_for_ok(1) [OF inv(1), of ?p]
  have rs: "resv l a c = mb.committed ?p ?b a c + ?oth a c + (if a = acct \<and> c = k then mb.needed req ?b else 0)" for a c
    using inv(2) by (simp add: l(2) upd2_apply backed_def n(1) engine_commit_split [of e _ _ ?p] book_commit_eq [OF b])
  have sup: "total_supply l c < 2 ^ 64" for c using f by (simp add: l(3) funded_def)
  obtain l1 l2 where c: "for_each (settle ?p) (mr_trades ?mr) l = Some l1"
    "release_surplus acct req ?mr (release_unsold acct req ?mr l1) = (l2, Inr ())"
    "\<And>a c. resv l2 a c = mb.committed ?p (fst (matched d acct req e)) a c + ?oth a c"
    "\<And>a c. avail l2 a c = avail l a c + credits ?p (mr_trades ?mr) a c + (if a = acct \<and> c = k then mb.excess req ?b else 0)"
    "\<And>c. total_supply l2 c = total_supply l c" "tracked l l2"
    using clear_order [OF b refl v fits refl k rs sup, of d "next_order_id e"] unfolding matched_def by blast
  have "execute d acct req (e\<lparr>eng_ledger := l\<rparr>) = Some (after_match d acct req e l2, Inr ?mr)"
    using execute_eq [of req d acct "e\<lparr>eng_ledger := l\<rparr>" l1 l2] c(1,2) by simp
  moreover have "tracked (eng_ledger e) l2" using l(4) c(6) by (rule tracked_trans)
  moreover have "resv l2 a c = engine_commit (after_match d acct req e l2) a c" for a c
    using engine_commit_after_match [OF place_fresh(2) [OF inv(1) fits]] c(3) by simp
  moreover have "avail l2 a c + (if a = acct \<and> c = k then n else 0) =
      avail (eng_ledger e) a c + credits ?p (mr_trades ?mr) a c + (if a = acct \<and> c = k then mb.excess req ?b else 0)" for a c
    using n(2) by (simp add: c(4) l(1) upd2_apply)
  moreover have "total_supply l2 = total_supply (eng_ledger e)" using c(5) l(3) by (simp add: fun_eq_iff)
  ultimately show ?thesis using n unfolding place_accepted_def Let_def k by blast
qed

lemma place_order_outcome:
  assumes "books_ok e" "backed e" "funded e"
  obtains (rejected) r e' where "place_order d acct req e = Some (e', Inl r)" "place_rejected e e'"
    "place_guard acct req e = Some r \<or> quote_amount req e = Inl r \<or> r = InsufficientFunds \<and>
       avail (eng_ledger e) acct (pay_currency (req_pair req) (req_side req)) < mb.needed req (book_for e (req_pair req))"
  | (accepted) e' where "place_order d acct req e = Some (e', Inr (snd (matched d acct req e)))"
    "place_accepted d acct req e e'" "place_guard acct req e = None"
    "req_type req = Limit \<Longrightarrow> unat (req_price req) * unat (req_size req) < 2 ^ 64"
proof (cases "place_guard acct req e")
  case (Some r)
  then show thesis using rejected [of e r] by (simp add: place_order_def)
next
  case guard: None
  show thesis
  proof (cases "quote_amount req e")
    case (Inl r)
    then show thesis using guard rejected [of e r] by (simp add: place_order_def)
  next
    case (Inr x)
    obtain l r where lr: "reserve_for acct req x (eng_ledger e) = (l, r)" by fastforce
    note out = reserve_for_eq [OF assms Inr refl refl lr]
    note fits = quote_amount_needed(2) [OF assms Inr]
    have v: "is_valid (req_pair req)" using guard by (auto simp: place_guard_def split: if_splits)
    show thesis
    proof (cases r)
      case (Inl s)
      then have "place_order d acct req e = Some (e\<lparr>eng_ledger := l\<rparr>, Inl s)" "s = InsufficientFunds"
        "place_rejected e (e\<lparr>eng_ledger := l\<rparr>)"
        using guard Inr lr out by (auto simp: place_order_def place_rejected_def)
      then show thesis using rejected Inl out(1) by auto
    next
      case (Inr u)
      then have "place_order d acct req e = execute d acct req (e\<lparr>eng_ledger := l\<rparr>)"
        using guard \<open>quote_amount req e = Inr x\<close> lr by (simp add: place_order_def)
      then show thesis
        using accepted guard fits execute_clears [OF assms(1,2) fits v refl refl, of acct l] out Inr assms(3) by auto
    qed
  qed
qed

section \<open>Books and routes after a match\<close>

lemma fold_remove: "fold (\<lambda>j m. m(j := None)) js M = M |` (- set js)"
proof (induction js arbitrary: M)
  case (Cons j js)
  then show ?case by (auto simp: fun_eq_iff restrict_map_def)
qed simp

lemma resting_dirty [simp]: "resting (b\<lparr>dirty_levels := D\<rparr>) = resting b"
  by (simp add: resting_def)

lemma matched_eq:
  assumes "b = book_for e (req_pair req)"
  shows "fst (matched d acct req e) = (book_after (next_order_id e) acct req b)\<lparr>dirty_levels := {}\<rparr>"
    and "mr_trades (snd (matched d acct req e)) = map (fill_trade req (taker_order (next_order_id e) acct req)) (order_fills req b)"
  by (simp_all add: matched_def add_order_eq assms)

lemma u64_less_Suc: "unat n + 1 < 2 ^ 64 \<Longrightarrow> (i :: u64) < n + 1 \<longleftrightarrow> i < n \<or> i = n"
  by (auto simp: word_less_nat_alt u64_simps word_unat_eq_iff)

lemma books_ok_after_match:
  assumes "books_ok e" "is_valid (req_pair req)" "unat (next_order_id e) + 1 < 2 ^ 64"
    and fits: "req_type req = Limit \<Longrightarrow> unat (req_price req) * unat (req_size req) < 2 ^ 64"
  shows "books_ok (after_match d acct req e l)"
proof -
  let ?b = "book_for e (req_pair req)" and ?n = "next_order_id e"
  note fresh = place_fresh [OF assms(1) fits] and b = book_for_ok(1) [OF assms(1), of "req_pair req"]
  have "ord_id m < ?n + 1" if "m \<in> set (resting (fst (matched d acct req e)))" for m
    using that remaining_ids_fresh [OF fresh(1), of m] assms(3)
    by (auto simp: matched_eq(1) set_resting_after [OF b] u64_less_Suc split: if_splits)
  then show ?thesis
    using assms(1-3) fresh(2) by (auto simp: books_ok_def after_match_def u64_less_Suc)
qed

lemma index_resting: "book_inv b \<Longrightarrow> order_index b i \<noteq> None \<longleftrightarrow> (\<exists>m \<in> set (resting b). ord_id m = i)"
  unfolding book_inv_def index_ok_def by (metis not_Some_eq)

lemma filled_ids_fills: "i \<in> set (filled_ids fs) \<Longrightarrow> \<exists>(m, x) \<in> set fs. ord_id m = i"
  by (auto simp: filled_ids_def)

lemma fills_resting: "book_inv b \<Longrightarrow> (m, x) \<in> set (order_fills req b) \<Longrightarrow> m \<in> set (resting b)"
  using order_fills_open(1) [of b m x req] set_resting [of b "req_side req"] by (simp add: side_orders_def)

text \<open>A maker leaves the index exactly when it is filled completely.\<close>

lemma filled_makers_eq:
  assumes "book_inv b" "order_fresh i req b"
  shows "set (filter (\<lambda>j. order_index (book_after i a req b) j = None)
      (map trd_maker_id (map (fill_trade req t) (order_fills req b)))) = set (filled_ids (order_fills req b))"
proof -
  let ?fs = "order_fills req b"
  have ids: "trd_maker_id (fill_trade req t f) = ord_id (fst f)" for f by (simp add: fill_trade_def case_prod_unfold)
  have "order_index (book_after i a req b) (ord_id m) = None \<longleftrightarrow> ord_id m \<in> set (filled_ids ?fs)"
    if "(m, x) \<in> set ?fs" for m x
  proof -
    have "m \<in> set (resting b)" by (rule fills_resting [OF assms(1) that])
    then have "order_index b (ord_id m) \<noteq> None" "ord_id m \<noteq> i"
      using index_resting [OF assms(1)] assms(2) by (auto simp: order_fresh_def)
    then show ?thesis by (auto simp: book_after_index restrict_map_def)
  qed
  then show ?thesis using filled_ids_fills [of _ ?fs] by (force simp: ids)
qed

lemma routes_ok_after_match:
  assumes "books_ok e" "routes_ok e"
    and fits: "req_type req = Limit \<Longrightarrow> unat (req_price req) * unat (req_size req) < 2 ^ 64"
  shows "routes_ok (after_match d acct req e l)"
proof -
  let ?p = "req_pair req" and ?b = "book_for e (req_pair req)" and ?n = "next_order_id e"
  let ?fs = "order_fills req (book_for e (req_pair req))"
  note b = book_for_ok(1) [OF assms(1), of ?p] and fresh = place_fresh(1) [OF assms(1) fits]
  have route: "order_pair e j = Some q \<longleftrightarrow> order_index (book_for e q) j \<noteq> None" for j q
    using assms(2) by (simp add: routes_ok_iff)
  have new: "order_index (book_for e q) ?n = None" "order_pair e ?n = None" for q
  proof -
    show i: "order_index (book_for e q) ?n = None" for q
      using book_for_ok [OF assms(1), of q] index_resting [of "book_for e q" ?n] by fastforce
    then show "order_pair e ?n = None" using route by (cases "order_pair e ?n") auto
  qed
  have made: "order_pair e j = Some ?p" if "j \<in> set (filled_ids ?fs)" for j
    using filled_ids_fills [OF that] fills_resting [OF b] index_resting [OF b] route by fastforce
  have op: "order_pair (after_match d acct req e l) =
      (if rests req ?b then (order_pair e)(?n \<mapsto> ?p) else order_pair e) |` (- set (filled_ids ?fs))"
    using new(1) filled_makers_eq [OF b fresh, of acct "taker_order ?n acct req"]
    by (simp add: after_match_def route_orders_def fold_remove matched_eq book_after_index restrict_map_def)
  have "order_pair (after_match d acct req e l) j = Some q \<longleftrightarrow>
      order_index (book_for (after_match d acct req e l) q) j \<noteq> None" for j q
  proof (cases "q = ?p")
    case True
    then show ?thesis using route [of j ?p] new made [of j]
      by (auto simp: op book_for_after_match matched_eq(1) book_after_index restrict_map_def)
  next
    case False
    then show ?thesis using route [of j q] new made [of j]
      by (auto simp: op book_for_after_match restrict_map_def)
  qed
  then show ?thesis by (simp add: routes_ok_iff)
qed

section \<open>What every command keeps\<close>

text \<open>The effect of a command on everything but the books' contents.\<close>

definition kept_by :: "engine \<Rightarrow> engine \<Rightarrow> bool" where
  "kept_by e e' \<longleftrightarrow> engine_inv e' \<and> tracked (eng_ledger e) (eng_ledger e') \<and>
     eng_limits e' = eng_limits e \<and> eng_dedup e' = eng_dedup e \<and> next_seq e' = next_seq e \<and>
     next_order_id e' \<in> {next_order_id e, next_order_id e + 1}"

definition supply_of :: "engine \<Rightarrow> currency \<Rightarrow> nat" where
  "supply_of e = total_supply (eng_ledger e)"

lemma entry_eq_supply: "entry_balance l' = entry_balance l \<Longrightarrow> total_supply l' = total_supply l"
  using entry_eq_nat [of l' l] by (simp add: total_supply_def)

text \<open>The invariant depends only on the books, the routes, the next id and the reserves.\<close>

lemma engine_inv_cong:
  assumes "books e' = books e" "order_pair e' = order_pair e" "next_order_id e' = next_order_id e"
    and "resv (eng_ledger e') = resv (eng_ledger e)"
  shows "engine_inv e' = engine_inv e"
proof -
  have "book_for e' = book_for e" using assms(1) by (simp add: fun_eq_iff book_for_def)
  then have "engine_commit e' = engine_commit e" by (simp add: fun_eq_iff engine_commit_def)
  then show ?thesis using assms by (simp add: engine_inv_def books_ok_def routes_ok_def backed_def)
qed

lemma engine_inv_balances:
  "engine_inv e \<Longrightarrow> entry_balance l = entry_balance (eng_ledger e) \<Longrightarrow> engine_inv (e\<lparr>eng_ledger := l\<rparr>)"
  using engine_inv_cong [of "e\<lparr>eng_ledger := l\<rparr>" e] entry_eq_nat [of l "eng_ledger e"] by simp

lemma place_order_kept:
  assumes "engine_inv e" "funded e" "unat (next_order_id e) + 1 < 2 ^ 64"
  obtains e' r where "place_order d acct req e = Some (e', r)" "kept_by e e'" "supply_of e' = supply_of e"
proof -
  have inv: "books_ok e" "routes_ok e" "backed e" using assms(1) by (simp_all add: engine_inv_def)
  show thesis using inv(1,3) assms(2)
  proof (cases rule: place_order_outcome [where d = d and acct = acct and req = req])
    case (rejected r e')
    then obtain l where l: "e' = e\<lparr>eng_ledger := l\<rparr>" "entry_balance l = entry_balance (eng_ledger e)"
      "tracked (eng_ledger e) l" by (auto simp: place_rejected_def)
    then show thesis using that rejected(1) engine_inv_balances [OF assms(1) l(2)] entry_eq_supply [OF l(2)]
      by (simp add: kept_by_def supply_of_def)
  next
    case (accepted e')
    then obtain l where l: "e' = after_match d acct req e l" "tracked (eng_ledger e) l"
      "total_supply l = total_supply (eng_ledger e)" "\<forall>a c. resv l a c = engine_commit e' a c"
      by (auto simp: place_accepted_def)
    have "is_valid (req_pair req)" using accepted(3) by (auto simp: place_guard_def split: if_splits)
    then have "books_ok e'" unfolding l(1) using books_ok_after_match inv(1) assms(3) accepted(4) by blast
    moreover have "routes_ok e'" unfolding l(1) using routes_ok_after_match [OF inv(1,2) accepted(4)] by blast
    moreover have "backed e'" using l(4) by (simp add: backed_def l(1) after_match_def)
    ultimately show thesis using that [OF accepted(1)] l(2,3)
      by (simp add: kept_by_def engine_inv_def supply_of_def l(1)) (simp add: after_match_def)
  qed
qed

section \<open>cancel_order\<close>

definition after_cancel :: "pair \<Rightarrow> order \<Rightarrow> order_book \<Rightarrow> engine \<Rightarrow> engine" where
  "after_cancel p m b e =
     e\<lparr>books := (books e)(p \<mapsto> b),
       eng_ledger := fst (release (ord_account m) (fst (cancel_refund p m)) (snd (cancel_refund p m)) (eng_ledger e)),
       order_pair := (order_pair e)(ord_id m := None)\<rparr>"

lemma engine_cancel_none:
  assumes "engine_inv e" "\<nexists>p b m. books e p = Some b \<and> m \<in> set (resting b) \<and> ord_id m = can_order_id req \<and> ord_account m = acct"
  shows "engine_cancel_order d acct req e = (e, None)"
proof -
  have "book_cancel_order d acct (can_order_id req) b = None" if "books e p = Some b" for p b
  proof -
    have "book_inv b" using assms(1) that by (auto simp: engine_inv_def books_ok_def)
    then show ?thesis using book_cancel_missing [of b d acct "can_order_id req"] assms(2) that by blast
  qed
  then show ?thesis by (simp add: engine_cancel_order_def split: option.splits)
qed

lemma engine_cancel_some:
  assumes "engine_inv e" "books e p = Some b" "m \<in> set (resting b)" "ord_account m = acct"
  obtains before after where
    "level_at (ord_side m) (ord_price m) b = Some (before @ m # after)"
    "engine_cancel_order d acct \<lparr>can_order_id = ord_id m\<rparr> e =
       (after_cancel p m (book_removed m (before @ after) b) e,
        Some (p, m, snd (take_dirty_levels d ((book_removed m (before @ after) b)
          \<lparr>dirty_levels := {(ord_side m, ord_price m)}\<rparr>))))"
proof -
  have b: "book_inv b" using assms(1,2) by (auto simp: engine_inv_def books_ok_def)
  have "order_pair e (ord_id m) = Some p"
    using assms(1-3) index_resting [OF b, of "ord_id m"] by (auto simp: engine_inv_def routes_ok_def)
  moreover obtain before after where "level_at (ord_side m) (ord_price m) b = Some (before @ m # after)"
    "book_cancel_order d acct (ord_id m) b = Some (book_removed m (before @ after) b, m,
       snd (take_dirty_levels d ((book_removed m (before @ after) b)\<lparr>dirty_levels := {(ord_side m, ord_price m)}\<rparr>)))"
    by (rule book_cancel_found [OF b assms(3,4)])
  ultimately show thesis using that assms(2)
    by (simp add: engine_cancel_order_def after_cancel_def case_prod_unfold)
qed

lemma refund_commitment:
  assumes "order_ok m"
  shows "commitment p m a c = (if a = ord_account m \<and> c = fst (cancel_refund p m) then unat (snd (cancel_refund p m)) else 0)"
proof -
  have "unat (ord_remaining m * ord_price m) = unat (ord_remaining m) * unat (ord_price m)"
    using order_ok_notional [OF assms order_refl] by (simp add: u64_simps mult.commute)
  then show ?thesis by (auto simp: commitment_def cancel_refund_def split: side.splits)
qed

lemma resting_order_ok: "book_inv b \<Longrightarrow> m \<in> set (resting b) \<Longrightarrow> order_ok m"
  using mb.orders_ok [of b m Bid] mb.orders_ok [of b m Ask] by (auto simp: side_orders_def resting_def)

lemma total_of_move_back:
  assumes "n \<le> rs a c"
  shows "total_of (upd2 av a c (av a c + n)) (upd2 rs a c (rs a c - n)) = total_of av rs"
proof
  fix c'
  show "total_of (upd2 av a c (av a c + n)) (upd2 rs a c (rs a c - n)) c' = total_of av rs c'"
    using assms le_total [of av a c rs] by (simp add: total_of_upd2 upd2_apply)
qed

lemma fits_pointwise: "funded e \<Longrightarrow> avail (eng_ledger e) a c + resv (eng_ledger e) a c < 2 ^ 64"
  using le_total [of "avail (eng_ledger e)" a c "resv (eng_ledger e)"]
  by (auto simp: funded_def total_supply_def intro: le_less_trans)

text \<open>Cancelling an order pays back exactly what it had committed.\<close>

lemma cancel_pays_back:
  assumes inv: "engine_inv e" "funded e" and b: "books e p = Some b" and m: "m \<in> set (resting b)"
    and lv: "level_at (ord_side m) (ord_price m) b = Some (before @ m # after)"
    and e': "e' = after_cancel p m (book_removed m (before @ after) b) e"
  shows "engine_commit e' a c + commitment p m a c = engine_commit e a c"
    and "resv (eng_ledger e') a c + commitment p m a c = resv (eng_ledger e) a c"
    and "avail (eng_ledger e') a c = avail (eng_ledger e) a c + commitment p m a c"
    and "total_supply (eng_ledger e') = total_supply (eng_ledger e)"
proof -
  let ?l = "eng_ledger e" and ?acct = "ord_account m" and ?k = "fst (cancel_refund p m)" and ?z = "snd (cancel_refund p m)"
  have ok: "book_inv b" using inv(1) b by (auto simp: engine_inv_def books_ok_def)
  have "order_ok m" using resting_order_ok [OF ok m] .
  note ok = ok this
  have for_p: "book_for e p = b" using b by (simp add: book_for_def)
  have "mset (resting b) = mset (m # resting (book_removed m (before @ after) b))"
    using mset_resting_removed [OF ok(1) lv] by simp
  from this [THEN arg_cong, of "\<lambda>M. sum_mset (image_mset (\<lambda>m. commitment p m a c) M)" for a c]
  have bc: "book_commit p b a c = commitment p m a c + book_commit p (book_removed m (before @ after) b) a c" for a c
    by (simp add: book_commit_def sum_mset_sum_list flip: mset_map)
  have "engine_commit e' a c = book_commit p (book_for e' p) a c + (\<Sum>q \<in> UNIV - {p}. book_commit q (book_for e q) a c)" for a c
    by (rule engine_commit_update) (simp add: e' after_cancel_def book_for_def)
  then show ec: "engine_commit e' a c + commitment p m a c = engine_commit e a c" for a c
    using bc [of a c] engine_commit_split [of e a c p] for_p by (simp add: e' after_cancel_def book_for_def)
  have "resv ?l a c = engine_commit e a c" for a c using inv(1) by (simp add: engine_inv_def backed_def)
  then have le: "unat ?z \<le> resv ?l ?acct ?k"
    using ec [of ?acct ?k] refund_commitment [OF ok(2), of p ?acct ?k] by simp
  note rel = release_exact [OF refl le fits_pointwise [OF inv(2)]]
  have l': "eng_ledger e' = fst (release ?acct ?k ?z ?l)" by (simp add: e' after_cancel_def)
  show "resv (eng_ledger e') a c + commitment p m a c = resv ?l a c"
    and "avail (eng_ledger e') a c = avail ?l a c + commitment p m a c"
    using le by (simp_all add: l' rel(2,3) upd2_apply refund_commitment [OF ok(2)])
  show "total_supply (eng_ledger e') = total_supply ?l"
    using le by (simp add: l' total_supply_def rel(2,3) total_of_move_back)
qed

lemma cancel_kept:
  assumes "engine_inv e" "funded e" "engine_cancel_order d acct req e = (e', r)"
  shows "kept_by e e'" "supply_of e' = supply_of e"
proof -
  have "kept_by e e' \<and> supply_of e' = supply_of e"
  proof (cases "\<exists>p b m. books e p = Some b \<and> m \<in> set (resting b) \<and> ord_id m = can_order_id req \<and> ord_account m = acct")
    case False
    then have "e' = e" using engine_cancel_none [OF assms(1)] assms(3) by simp
    then show ?thesis using assms(1) by (simp add: kept_by_def)
  next
    case True
    then obtain p b m where b: "books e p = Some b" "m \<in> set (resting b)" "ord_account m = acct"
      and i: "ord_id m = can_order_id req" by blast
    have req: "req = \<lparr>can_order_id = ord_id m\<rparr>" by (simp add: i)
    obtain before after where lv: "level_at (ord_side m) (ord_price m) b = Some (before @ m # after)"
      and e': "e' = after_cancel p m (book_removed m (before @ after) b) e"
      using engine_cancel_some [OF assms(1) b, of d] assms(3) unfolding req by (metis prod.inject)
    let ?b' = "book_removed m (before @ after) b"
    note refund = cancel_pays_back [OF assms(1,2) b(1,2) lv e']
    have ok: "books_ok e" "routes_ok e" "backed e" and bi: "book_inv b"
      using assms(1) b(1) by (auto simp: engine_inv_def books_ok_def)
    have rest: "set (resting ?b') \<subseteq> set (resting b)"
      using mset_resting_removed [OF bi lv, THEN arg_cong [of _ _ set_mset]] by auto
    have "books_ok e'" using ok(1) b(1) cancel_inv [OF bi b(2) lv] rest
      by (auto simp: e' after_cancel_def books_ok_def)
    moreover have "routes_ok e'"
      unfolding routes_ok_iff
    proof (intro allI)
      fix j q
      have r: "order_pair e j = Some q \<longleftrightarrow> order_index (book_for e q) j \<noteq> None" for j q
        using ok(2) by (simp add: routes_ok_iff)
      have "order_index (book_for e p) (ord_id m) \<noteq> None"
        using index_resting [OF bi, of "ord_id m"] b(1,2) by (auto simp: book_for_def)
      then have "order_pair e (ord_id m) = Some p" using r by simp
      then show "order_pair e' j = Some q \<longleftrightarrow> order_index (book_for e' q) j \<noteq> None"
        using r [of j q] b(1) by (cases "j = ord_id m") (auto simp: e' after_cancel_def book_for_def book_removed_def)
    qed
    moreover have "resv (eng_ledger e') a c = engine_commit e' a c" for a c
      using refund(1,2) [of a c] ok(3) by (simp add: backed_def)
    ultimately show ?thesis using refund(4)
      by (simp add: kept_by_def engine_inv_def backed_def supply_of_def e') (simp add: after_cancel_def)
  qed
  then show "kept_by e e'" "supply_of e' = supply_of e" by blast+
qed

end
