(* ===== verification/Engine_Safety.thy ===== *)
theory Engine_Safety
  imports Engine_Invariant
begin

text \<open>
  \<open>apply\<close> as a whole and runs of it. A command takes an engine that satisfies the invariant to
  one that satisfies it again, never panics, and changes the supply of a currency only by an
  accepted deposit or withdrawal. Runs of commands from the empty engine inherit this for as long
  as neither the order ids nor the supply can reach \<open>2 ^ 64\<close>.
\<close>

section \<open>Deposits and withdrawals\<close>

definition inflow :: "command \<Rightarrow> command_response \<Rightarrow> currency \<Rightarrow> nat" where
  "inflow cmd resp c =
     (case (cmd, resp) of
        (Deposit req, DepositR (Inr _)) \<Rightarrow> (if c = dep_currency req then unat (dep_amount req) else 0)
      | _ \<Rightarrow> 0)"

definition outflow :: "command \<Rightarrow> command_response \<Rightarrow> currency \<Rightarrow> nat" where
  "outflow cmd resp c =
     (case (cmd, resp) of
        (Withdraw req, WithdrawR (Inr _)) \<Rightarrow> (if c = wd_currency req then unat (wd_amount req) else 0)
      | _ \<Rightarrow> 0)"

text \<open>There is room in \<open>u64\<close> for one more deposit.\<close>

definition roomy :: "engine \<Rightarrow> bool" where
  "roomy e \<longleftrightarrow> (\<forall>c. supply_of e c + unat (deposit_ceiling (eng_limits e) c) < 2 ^ 64)"

lemma roomy_funded: "roomy e \<Longrightarrow> funded e"
  unfolding roomy_def funded_def supply_of_def by (meson add_lessD1)

lemma engine_inv_ledger:
  "engine_inv e \<Longrightarrow> resv l = resv (eng_ledger e) \<Longrightarrow> engine_inv (e\<lparr>eng_ledger := l\<rparr>)"
  using engine_inv_cong [of "e\<lparr>eng_ledger := l\<rparr>" e] by simp

lemma total_supply_avail:
  assumes "avail l' = upd2 (avail l) a c v" "resv l' = resv l"
  shows "total_supply l' c' + (if c' = c then avail l a c else 0) = total_supply l c' + (if c' = c then v else 0)"
  using le_total [of "avail l" a c "resv l"] by (simp add: total_supply_def assms total_of_upd2)

text \<open>The three outcomes of a deposit.\<close>

lemma engine_deposit_eq:
  assumes "funded e" and h: "h = avail (eng_ledger e) a (dep_currency req) + resv (eng_ledger e) a (dep_currency req)"
  shows "engine_deposit a req e =
    (if 2 ^ 64 \<le> h + unat (dep_amount req) then (e, Inl InvalidAmount)
     else if unat (deposit_ceiling (eng_limits e) (dep_currency req)) < h + unat (dep_amount req)
     then (e, Inl DepositLimitExceeded)
     else (e\<lparr>eng_ledger := fst (ledger_deposit (dep_currency req) a (dep_amount req) (eng_ledger e))\<rparr>,
           Inr (snd (ledger_deposit (dep_currency req) a (dep_amount req) (eng_ledger e)))))"
proof -
  have "unat (held (eng_ledger e) a (dep_currency req)) = h"
    using unat_held [OF fits_pointwise [OF assms(1)]] h by simp
  then show ?thesis
    by (simp add: engine_deposit_def checked_add_def word_less_nat_alt u64_simps case_prod_unfold not_less)
qed

lemma deposit_kept:
  assumes "engine_inv e" "roomy e" "engine_deposit a req e = (e', r)"
  shows "kept_by e e' \<and> (\<forall>c. supply_of e' c = supply_of e c + inflow (Deposit req) (DepositR r) c) \<and>
    (\<forall>c. inflow (Deposit req) (DepositR r) c \<le> unat (deposit_ceiling (eng_limits e) c))"
proof -
  let ?c = "dep_currency req" and ?x = "unat (dep_amount req)" and ?l = "eng_ledger e"
  note dep = engine_deposit_eq [OF roomy_funded [OF assms(2)] refl, of a req]
  show ?thesis
  proof (cases r)
    case (Inl s)
    then have "e' = e" using assms(3) dep by (auto split: if_splits)
    then show ?thesis using Inl assms(1) by (simp add: kept_by_def inflow_def)
  next
    case (Inr v)
    then have fit: "avail ?l a ?c + ?x < 2 ^ 64" and e': "e' = e\<lparr>eng_ledger := fst (ledger_deposit ?c a (dep_amount req) ?l)\<rparr>"
      and le: "?x \<le> unat (deposit_ceiling (eng_limits e) ?c)"
      using assms(3) dep by (auto split: if_splits)
    have "engine_inv e'" unfolding e' by (rule engine_inv_ledger [OF assms(1) deposit_eq(2) [OF fit]])
    moreover have "supply_of e' c = supply_of e c + inflow (Deposit req) (DepositR r) c" for c
      using total_supply_avail [OF deposit_eq(1,2) [OF fit], of c] by (auto simp: supply_of_def e' inflow_def Inr split: if_splits)
    moreover have "inflow (Deposit req) (DepositR r) c \<le> unat (deposit_ceiling (eng_limits e) c)" for c
      using le by (simp add: inflow_def Inr)
    ultimately show ?thesis by (simp add: kept_by_def e')
  qed
qed

lemma withdraw_kept:
  assumes "engine_inv e" "ledger_withdraw a (wd_currency req) (wd_amount req) (eng_ledger e) = (l, r)"
  shows "kept_by e (e\<lparr>eng_ledger := l\<rparr>) \<and>
    (\<forall>c. supply_of (e\<lparr>eng_ledger := l\<rparr>) c + outflow (Withdraw req) (WithdrawR r) c = supply_of e c)"
proof -
  let ?c = "wd_currency req" and ?x = "wd_amount req" and ?l = "eng_ledger e"
  have l: "l = fst (ledger_withdraw a ?c ?x ?l)" and r: "r = snd (ledger_withdraw a ?c ?x ?l)" using assms(2) by simp_all
  have rs: "resv l = resv ?l" unfolding l by (rule withdraw_eq(4))
  have "supply_of (e\<lparr>eng_ledger := l\<rparr>) c + outflow (Withdraw req) (WithdrawR r) c = supply_of e c" for c
  proof (cases "unat ?x \<le> avail ?l a ?c")
    case True
    then have "avail l = upd2 (avail ?l) a ?c (avail ?l a ?c - unat ?x)" unfolding l by (rule withdraw_eq(2))
    from total_supply_avail [OF this rs, of c] True show ?thesis using withdraw_eq(1) [of a ?c ?x ?l]
      by (auto simp: supply_of_def outflow_def r split: if_splits)
  next
    case False
    then show ?thesis using rs withdraw_eq(3) [of ?l a ?c ?x] withdraw_eq(1) [of a ?c ?x ?l]
      by (simp add: supply_of_def outflow_def l r total_supply_def)
  qed
  then show ?thesis using engine_inv_ledger [OF assms(1) rs] tracked_ops(3) [of ?l a ?c ?x] by (simp add: kept_by_def l)
qed

section \<open>One command\<close>

lemma kept_by_listed:
  "engine_inv e \<Longrightarrow> kept_by e (e\<lparr>listed_pairs := L\<rparr>)" "supply_of (e\<lparr>listed_pairs := L\<rparr>) = supply_of e"
  using engine_inv_cong [of "e\<lparr>listed_pairs := L\<rparr>" e] by (simp_all add: kept_by_def supply_of_def)

lemma apply_command_kept:
  assumes "engine_inv e" "roomy e" "unat (next_order_id e) + 1 < 2 ^ 64"
  obtains e' resp evs where "apply_command d a cmd e = Some (e', resp, evs)" "kept_by e e'"
    "\<And>c. supply_of e' c + outflow cmd resp c = supply_of e c + inflow cmd resp c"
    "\<And>c. inflow cmd resp c \<le> unat (deposit_ceiling (eng_limits e) c)"
proof -
  note funded = roomy_funded [OF assms(2)]
  show thesis
  proof (cases cmd)
    case (Place req)
    obtain e' r where *: "place_order d a req e = Some (e', r)" "kept_by e e'" "supply_of e' = supply_of e"
      by (rule place_order_kept [OF assms(1) funded assms(3)])
    then show thesis using that Place by (cases r) (auto simp: inflow_def outflow_def)
  next
    case (Cancel req)
    obtain e' r where *: "engine_cancel_order d a req e = (e', r)" by fastforce
    then show thesis using that Cancel cancel_kept [OF assms(1) funded *] by (cases r) (auto simp: inflow_def outflow_def)
  next
    case (Deposit req)
    obtain e' r where *: "engine_deposit a req e = (e', r)" by fastforce
    then show thesis using that Deposit deposit_kept [OF assms(1,2) *] by (simp add: outflow_def)
  next
    case (Withdraw req)
    obtain l r where *: "ledger_withdraw a (wd_currency req) (wd_amount req) (eng_ledger e) = (l, r)" by fastforce
    then show thesis using that Withdraw withdraw_kept [OF assms(1) *] by (simp add: inflow_def)
  next
    case (ListPair p)
    have "kept_by e e" using kept_by_listed(1) [OF assms(1), of "listed_pairs e"] by simp
    then show thesis using that ListPair kept_by_listed(1) [OF assms(1)] kept_by_listed(2)
      by (cases "is_valid p") (auto simp: inflow_def outflow_def)
  next
    case (DelistPair p)
    then show thesis using that kept_by_listed(1) [OF assms(1)] kept_by_listed(2) by (auto simp: inflow_def outflow_def)
  qed
qed

text \<open>Reading the dirty balances back cannot fail.\<close>

definition balance_events :: "ledger_key list \<Rightarrow> ledger \<Rightarrow> event list" where
  "balance_events ks l =
     map (\<lambda>(a, c). BalanceChanged a c (available (entry_balance l a c)) (reserved (entry_balance l a c))) ks"

lemma those_Some: "(\<And>x. x \<in> set xs \<Longrightarrow> f x = Some (g x)) \<Longrightarrow> those (map f xs) = Some (map g xs)"
  by (induction xs) auto

lemma finish_batch_eq:
  assumes "dirty_ok (eng_ledger e)" "is_drain d"
  shows "finish_batch d e evs =
    (let e1 = e\<lparr>eng_ledger := (eng_ledger e)\<lparr>ledger_dirty := {}\<rparr>\<rparr>;
         all = evs @ balance_events (d (ledger_dirty (eng_ledger e))) (eng_ledger e)
     in if all = [] then Some (e1, None)
        else Some (e1\<lparr>next_seq := next_seq e + 1\<rparr>, Some \<lparr>batch_seq = next_seq e, batch_events = all\<rparr>))"
proof -
  let ?l = "eng_ledger e"
  have "those (map (balance_event (?l\<lparr>ledger_dirty := {}\<rparr>)) (d (ledger_dirty ?l))) =
      Some (balance_events (d (ledger_dirty ?l)) ?l)"
    unfolding balance_events_def using assms
    by (intro those_Some) (auto simp: dirty_ok_def has_entry_def balance_event_def entry_balance_def split: option.splits dest!: bspec)
  then show ?thesis by (simp add: finish_batch_def take_dirty_def Let_def)
qed

definition settled :: "engine \<Rightarrow> bool" where
  "settled e \<longleftrightarrow> engine_inv e \<and> ledger_dirty (eng_ledger e) = {}"

lemma engine_new_balances [simp]: "avail (eng_ledger engine_new) a c = 0" "resv (eng_ledger engine_new) a c = 0"
  by (simp_all add: avail_def resv_def entry_balance_def zero_balance_def engine_new_def ledger_new_def)

lemma settled_new [simp]: "settled engine_new"
proof -
  have "book_for engine_new p = order_book_new" for p by (simp add: book_for_def engine_new_def)
  then have "backed engine_new" by (simp add: backed_def engine_commit_def)
  moreover have "books_ok engine_new" by (simp add: books_ok_def engine_new_def)
  moreover have "routes_ok engine_new" by (simp add: routes_ok_def engine_new_def)
  moreover have "ledger_dirty (eng_ledger engine_new) = {}" by (simp add: engine_new_def ledger_new_def)
  ultimately show ?thesis by (simp add: settled_def engine_inv_def)
qed

lemma dirty_ok_empty: "ledger_dirty l = {} \<Longrightarrow> dirty_ok l"
  by (simp add: dirty_ok_def)

lemma entry_balance_dirty [simp]: "entry_balance (l\<lparr>ledger_dirty := D\<rparr>) = entry_balance l"
  by (simp add: fun_eq_iff entry_balance_def)

lemma supply_of_cong: "entry_balance (eng_ledger e') = entry_balance (eng_ledger e) \<Longrightarrow> supply_of e' = supply_of e"
  unfolding supply_of_def by (rule entry_eq_supply)

lemma engine_apply_step:
  assumes "settled e" "roomy e" "unat (next_order_id e) + 1 < 2 ^ 64" "is_drain (snd h)"
  obtains e' resp batch where "engine_apply h a i cmd e = Some (e', resp, batch)" "settled e'"
    "\<And>c. supply_of e' c + outflow cmd resp c = supply_of e c + inflow cmd resp c"
    "\<And>c. inflow cmd resp c \<le> unat (deposit_ceiling (eng_limits e) c)"
    "eng_limits e' = eng_limits e" "unat (next_order_id e') \<le> unat (next_order_id e) + 1"
proof (cases "snd (dedup_insert a i (eng_dedup e))")
  case False
  then have "engine_apply h a i cmd e = Some (e, Duplicate, None)"
    by (cases "dedup_insert a i (eng_dedup e)") (simp add: engine_apply_def)
  moreover have "inflow cmd Duplicate c = 0" "outflow cmd Duplicate c = 0" for c
    by (cases cmd; simp add: inflow_def outflow_def)+
  ultimately show thesis using that [of e Duplicate None] assms(1) by simp
next
  case True
  define e0 where "e0 = e\<lparr>eng_dedup := fst (dedup_insert a i (eng_dedup e))\<rparr>"
  have sup0: "supply_of e0 = supply_of e" by (rule supply_of_cong) (simp add: e0_def)
  have "engine_inv e0" using assms(1) engine_inv_cong [of e0 e] by (simp add: settled_def e0_def)
  moreover have "roomy e0" using assms(2) sup0 by (simp add: roomy_def e0_def)
  moreover have "unat (next_order_id e0) + 1 < 2 ^ 64" using assms(3) by (simp add: e0_def)
  ultimately obtain e1 resp evs where c: "apply_command (fst h) a cmd e0 = Some (e1, resp, evs)" "kept_by e0 e1"
    "\<And>c. supply_of e1 c + outflow cmd resp c = supply_of e0 c + inflow cmd resp c"
    "\<And>c. inflow cmd resp c \<le> unat (deposit_ceiling (eng_limits e0) c)"
    by (rule apply_command_kept) blast
  have dirty: "dirty_ok (eng_ledger e1)"
    using c(2) assms(1) dirty_ok_empty [of "eng_ledger e0"] by (simp add: kept_by_def settled_def tracked_def e0_def)
  define e2 where "e2 = e1\<lparr>eng_ledger := (eng_ledger e1)\<lparr>ledger_dirty := {}\<rparr>\<rparr>"
  obtain e' batch where f: "finish_batch (snd h) e1 evs = Some (e', batch)"
    and e': "e' = e2 \<or> e' = e2\<lparr>next_seq := next_seq e1 + 1\<rparr>"
    unfolding finish_batch_eq [OF dirty assms(4)] e2_def Let_def by (metis (no_types, lifting))
  have same: "books e' = books e1" "order_pair e' = order_pair e1" "next_order_id e' = next_order_id e1"
    "entry_balance (eng_ledger e') = entry_balance (eng_ledger e1)" "ledger_dirty (eng_ledger e') = {}" "eng_limits e' = eng_limits e1"
    using e' by (auto simp: e2_def)
  show thesis
  proof (rule that)
    show "engine_apply h a i cmd e = Some (e', resp, batch)"
      using True c(1) f by (cases "dedup_insert a i (eng_dedup e)") (simp add: engine_apply_def e0_def)
    show "settled e'"
      using c(2) same engine_inv_cong [OF same(1-3)] entry_eq_nat [OF same(4)] by (simp add: settled_def kept_by_def)
    show "supply_of e' c + outflow cmd resp c = supply_of e c + inflow cmd resp c" for c
      using c(3) supply_of_cong [OF same(4)] sup0 by simp
    show "inflow cmd resp c \<le> unat (deposit_ceiling (eng_limits e) c)" for c using c(4) [of c] by (simp add: e0_def)
    show "eng_limits e' = eng_limits e" using c(2) same(6) by (simp add: kept_by_def e0_def)
    show "unat (next_order_id e') \<le> unat (next_order_id e) + 1"
      using c(2) same(3) assms(3) by (auto simp: kept_by_def e0_def u64_simps)
  qed
qed

section \<open>Runs\<close>

text \<open>A command as the engine sees it, with the drain orders in force when it is applied.\<close>

type_synonym log_entry = "hashing \<times> account_id \<times> u64 \<times> command"

type_synonym engine_out = "command_response \<times> event_batch option"

fun engine_run :: "log_entry list \<Rightarrow> engine \<Rightarrow> (engine \<times> engine_out list) option" where
  "engine_run [] e = Some (e, [])"
| "engine_run ((h, a, i, cmd) # es) e =
     (case engine_apply h a i cmd e of
        None \<Rightarrow> None
      | Some (e1, resp, batch) \<Rightarrow>
          (case engine_run es e1 of
             None \<Rightarrow> None
           | Some (e2, outs) \<Rightarrow> Some (e2, (resp, batch) # outs)))"

definition hashing_ok :: "log_entry list \<Rightarrow> bool" where
  "hashing_ok es \<longleftrightarrow> (\<forall>(h, a, i, cmd) \<in> set es. is_drain (fst h) \<and> is_drain (snd h))"

lemma hashing_ok_Cons [simp]:
  "hashing_ok ((h, a, i, cmd) # es) \<longleftrightarrow> is_drain (fst h) \<and> is_drain (snd h) \<and> hashing_ok es" "hashing_ok []"
  by (auto simp: hashing_ok_def)

definition total_inflow :: "log_entry list \<Rightarrow> engine_out list \<Rightarrow> currency \<Rightarrow> nat" where
  "total_inflow es outs c = (\<Sum>((h, a, i, cmd), resp, batch) \<leftarrow> zip es outs. inflow cmd resp c)"

definition total_outflow :: "log_entry list \<Rightarrow> engine_out list \<Rightarrow> currency \<Rightarrow> nat" where
  "total_outflow es outs c = (\<Sum>((h, a, i, cmd), resp, batch) \<leftarrow> zip es outs. outflow cmd resp c)"

lemma engine_run_append:
  "engine_run (es @ fs) e =
     (case engine_run es e of
        None \<Rightarrow> None
      | Some (e1, outs) \<Rightarrow> (case engine_run fs e1 of None \<Rightarrow> None | Some (e2, outs') \<Rightarrow> Some (e2, outs @ outs')))"
  by (induction es e rule: engine_run.induct) (auto split: option.splits)

lemma engine_run_ok:
  assumes "settled e" "hashing_ok es" "unat (next_order_id e) + length es < 2 ^ 64"
    and "\<And>c. supply_of e c + length es * unat (deposit_ceiling (eng_limits e) c) < 2 ^ 64"
  shows "\<exists>e' outs. engine_run es e = Some (e', outs) \<and> length outs = length es \<and> settled e' \<and> eng_limits e' = eng_limits e \<and>
    (\<forall>c. supply_of e' c + total_outflow es outs c = supply_of e c + total_inflow es outs c) \<and>
    (\<forall>c. supply_of e' c \<le> supply_of e c + length es * unat (deposit_ceiling (eng_limits e) c))"
  using assms
proof (induction es arbitrary: e)
  case Nil
  then show ?case by (simp add: total_inflow_def total_outflow_def)
next
  case (Cons x es)
  obtain h a i cmd where x: "x = (h, a, i, cmd)" by (cases x) auto
  let ?ceil = "\<lambda>c. unat (deposit_ceiling (eng_limits e) c)"
  have "roomy e" unfolding roomy_def
  proof
    fix c
    show "supply_of e c + ?ceil c < 2 ^ 64" using Cons.prems(4) [of c] by (simp add: add_lessD1)
  qed
  moreover have "unat (next_order_id e) + 1 < 2 ^ 64" "is_drain (snd h)" using Cons.prems(2,3) by (simp_all add: x)
  ultimately obtain e1 resp batch where s: "engine_apply h a i cmd e = Some (e1, resp, batch)" "settled e1"
    "\<And>c. supply_of e1 c + outflow cmd resp c = supply_of e c + inflow cmd resp c"
    "\<And>c. inflow cmd resp c \<le> ?ceil c"
    "eng_limits e1 = eng_limits e" "unat (next_order_id e1) \<le> unat (next_order_id e) + 1"
    using engine_apply_step [OF Cons.prems(1)] by metis
  have up: "supply_of e1 c \<le> supply_of e c + ?ceil c" for c
    using s(3) [of c] s(4) [of c] by linarith
  have room: "supply_of e1 c + length es * unat (deposit_ceiling (eng_limits e1) c) < 2 ^ 64" for c
    using Cons.prems(4) [of c] up [of c] by (simp add: s(5) algebra_simps)
  have "hashing_ok es" "unat (next_order_id e1) + length es < 2 ^ 64" using Cons.prems(2,3) s(6) by (simp_all add: x)
  from Cons.IH [OF s(2) this room] obtain e' outs where r: "engine_run es e1 = Some (e', outs)" "length outs = length es"
    "settled e'" "eng_limits e' = eng_limits e1"
    "\<forall>c. supply_of e' c + total_outflow es outs c = supply_of e1 c + total_inflow es outs c"
    "\<forall>c. supply_of e' c \<le> supply_of e1 c + length es * unat (deposit_ceiling (eng_limits e1) c)" by blast
  have "supply_of e' c + total_outflow (x # es) ((resp, batch) # outs) c =
      supply_of e c + total_inflow (x # es) ((resp, batch) # outs) c" for c
    using r(5) [rule_format, of c] s(3) [of c] by (simp add: total_inflow_def total_outflow_def x)
  moreover have "supply_of e' c \<le> supply_of e c + length (x # es) * ?ceil c" for c
    using r(6) [rule_format, of c] up [of c] by (simp add: s(5) algebra_simps)
  ultimately show ?case using s(1,5) r(1-4) by (auto simp: x)
qed

text \<open>With the default limits a supply of \<open>2 ^ 64\<close> is out of reach of \<open>10 ^ 14\<close> commands.\<close>

lemma supply_new [simp]: "supply_of engine_new c = 0"
  by (simp add: supply_of_def total_supply_def total_of_def)

lemma run_from_new:
  assumes "hashing_ok es" "length es \<le> 10 ^ 14"
  obtains e outs where "engine_run es engine_new = Some (e, outs)" "length outs = length es" "settled e"
    "\<And>c. supply_of e c + total_outflow es outs c = total_inflow es outs c"
    "\<And>c. supply_of e c \<le> length es * unat (demo_deposit_ceiling c)" "eng_limits e = limits_default"
proof -
  have lim: "eng_limits engine_new = limits_default" "next_order_id engine_new = 0"
    and dc: "deposit_ceiling limits_default = demo_deposit_ceiling"
    by (simp_all add: engine_new_def limits_default_def)
  have "unat (demo_deposit_ceiling c) \<le> 100000" for c by (cases c) simp_all
  then have bound: "length es * unat (demo_deposit_ceiling c) \<le> 10 ^ 14 * 100000" for c
    using assms(2) by (intro mult_le_mono)
  have room: "supply_of engine_new c + length es * unat (deposit_ceiling (eng_limits engine_new) c) < 2 ^ 64" for c
    using bound [of c] by (simp add: lim dc)
  have ids: "unat (next_order_id engine_new) + length es < 2 ^ 64" using assms(2) by (simp add: lim)
  obtain e outs where "engine_run es engine_new = Some (e, outs)" "length outs = length es" "settled e"
    "eng_limits e = eng_limits engine_new"
    "\<forall>c. supply_of e c + total_outflow es outs c = supply_of engine_new c + total_inflow es outs c"
    "\<forall>c. supply_of e c \<le> supply_of engine_new c + length es * unat (deposit_ceiling (eng_limits engine_new) c)"
    using engine_run_ok [OF settled_new assms(1) ids room] by blast
  then show thesis using that by (simp add: lim dc)
qed

lemma run_from_new_facts:
  assumes "hashing_ok es" "length es \<le> 10 ^ 14" "engine_run es engine_new = Some (e, outs)"
  shows "settled e" "supply_of e c + total_outflow es outs c = total_inflow es outs c"
    "supply_of e c \<le> length es * unat (demo_deposit_ceiling c)" "length outs = length es"
proof -
  obtain e' outs' where r: "engine_run es engine_new = Some (e', outs')" "length outs' = length es" "settled e'"
    "\<And>c. supply_of e' c + total_outflow es outs' c = total_inflow es outs' c"
    "\<And>c. supply_of e' c \<le> length es * unat (demo_deposit_ceiling c)"
    by (rule run_from_new [OF assms(1,2)]) blast
  then have "e' = e" "outs' = outs" using assms(3) by simp_all
  with r show "settled e" "supply_of e c + total_outflow es outs c = total_inflow es outs c"
    "supply_of e c \<le> length es * unat (demo_deposit_ceiling c)" "length outs = length es" by simp_all
qed

end
