(* ===== verification/Book_Properties.thy ===== *)
theory Book_Properties
  imports Book_Funds
begin

text \<open>
  What the order book promises to its users: price-time priority, execution at the maker's
  price within the taker's limit, conservation of quantities, an uncrossed book, authorised
  cancels, and the exactness of the two queries the engine relies on.
\<close>

section \<open>A book to evaluate\<close>

definition sol_usd :: pair where
  "sol_usd = \<lparr>base = SOL, quote = USD\<rparr>"

definition limit_order :: "side \<Rightarrow> u64 \<Rightarrow> u64 \<Rightarrow> order_request" where
  "limit_order s price sz =
     \<lparr>req_pair = sol_usd, req_type = Limit, req_side = s, req_price = price, req_size = sz\<rparr>"

definition market_order :: "side \<Rightarrow> u64 \<Rightarrow> order_request" where
  "market_order s sz =
     \<lparr>req_pair = sol_usd, req_type = Market, req_side = s, req_price = 0, req_size = sz\<rparr>"

definition rest_in :: "u64 \<Rightarrow> account_id \<Rightarrow> order_request \<Rightarrow> order_book \<Rightarrow> order_book" where
  "rest_in i a req b = fst (add_order sorted_list_of_set i a req b)"

text \<open>Account 7 sells 5 at 10 and then 4 at 9.\<close>

definition demo_book :: order_book where
  "demo_book = rest_in 1 7 (limit_order Ask 9 4) (rest_in 0 7 (limit_order Ask 10 5) order_book_new)"

lemma demo_book_eq:
  "demo_book =
    \<lparr>bids = [],
     asks = [(9, [\<lparr>ord_id = 1, ord_type = Limit, ord_side = Ask, ord_price = 9, ord_size = 4, ord_remaining = 4, ord_account = 7\<rparr>]),
             (10, [\<lparr>ord_id = 0, ord_type = Limit, ord_side = Ask, ord_price = 10, ord_size = 5, ord_remaining = 5, ord_account = 7\<rparr>])],
     order_index = [0 \<mapsto> \<lparr>loc_owner = 7, loc_side = Ask, loc_price = 10\<rparr>, 1 \<mapsto> \<lparr>loc_owner = 7, loc_side = Ask, loc_price = 9\<rparr>],
     dirty_levels = {}, last_trade_price = None\<rparr>"
  by (simp add: demo_book_def rest_in_def limit_order_def add_order_def match_loop.simps taker_order_def order_book_new_def
      best_opposite_def first_key_value_def last_key_value_def Let_def index_rested_def rest_order_def push_back_def
      bt_get_def take_dirty_levels_def)

lemma demo_book_inv: "book_inv demo_book"
  by (auto simp: demo_book_eq book_inv_def levels_inv_def level_ok_def order_ok_def resting_def index_ok_def
      uncrossed_def loc_of_def)

section \<open>Price-time priority\<close>

text \<open>The order in which an incoming order meets the resting orders: best price first, and
  the older order first at the same price.\<close>

definition priority :: "side \<Rightarrow> order \<Rightarrow> nat \<times> nat" where
  "priority taker_side m =
     (case taker_side of Bid \<Rightarrow> unat (ord_price m) | Ask \<Rightarrow> 2 ^ 64 - unat (ord_price m), unat (ord_id m))"

definition eligible :: "order_request \<Rightarrow> order_book \<Rightarrow> order list" where
  "eligible req b =
     sort_key (priority (req_side req))
       (filter (\<lambda>m. ord_side m \<noteq> req_side req \<and>
          crosses (req_type req) (req_side req) (req_price req) (ord_price m)) (resting b))"

lemma sorted_level_orders:
  assumes "sorted_wrt (\<lambda>e e'. K (fst e) < (K (fst e') :: nat)) ls"
    and "\<forall>(p, q) \<in> set ls. sorted_wrt (<) (map ord_id q) \<and> (\<forall>m \<in> set q. ord_price m = p)"
  shows "sorted (map (\<lambda>m. (K (ord_price m), unat (ord_id m))) (level_orders ls))"
  using assms
proof (induction ls)
  case (Cons e ls)
  obtain p q where e: "e = (p, q)" by (cases e)
  have "sorted_wrt (\<lambda>x y. ord_id x < ord_id y) q" "\<forall>m \<in> set q. ord_price m = p"
    using Cons.prems(2) by (auto simp: e sorted_wrt_map)
  then have "sorted (map (\<lambda>m. (K (ord_price m), unat (ord_id m))) q)"
    by (auto simp: sorted_map word_less_nat_alt less_imp_le elim: sorted_wrt_mono_rel [rotated])
  moreover have "\<forall>x \<in> set q. \<forall>y \<in> set (level_orders ls). K (ord_price x) < K (ord_price y)"
    using Cons.prems by (fastforce simp: e set_level_orders)
  ultimately show ?case using Cons by (auto simp: e sorted_append less_imp_le)
qed simp

lemma sorted_best_first:
  assumes "book_inv b"
  shows "sorted (map (priority s) (level_orders (best_first s b)))"
proof -
  have lv: "\<forall>(p, q) \<in> set (best_first s b). sorted_wrt (<) (map ord_id q) \<and> (\<forall>m \<in> set q. ord_price m = p)"
    using book_inv_side [OF assms, of "other_side s"]
    by (cases s) (auto simp: best_first_def levels_inv_def level_ok_def)
  have "sorted_wrt (\<lambda>e e'. (case s of Bid \<Rightarrow> unat (fst e) | Ask \<Rightarrow> 2 ^ 64 - unat (fst e)) <
      (case s of Bid \<Rightarrow> unat (fst e') | Ask \<Rightarrow> 2 ^ 64 - unat (fst e'))) (best_first s b)"
  proof (cases s)
    case Bid
    have "bt_inv (asks b)" using book_inv_side [OF assms, of Ask] by simp
    then show ?thesis by (simp add: Bid best_first_def bt_inv_def sorted_wrt_map word_less_nat_alt)
  next
    case Ask
    have "bt_inv (bids b)" using book_inv_side [OF assms, of Bid] by simp
    then show ?thesis
      by (auto simp: Ask best_first_def bt_inv_def sorted_wrt_map word_less_nat_alt sorted_wrt_rev diff_less_mono2
          elim!: sorted_wrt_mono_rel [rotated])
  qed
  from sorted_level_orders [OF this lv] show ?thesis by (simp add: priority_def [abs_def])
qed

lemma filter_level_orders:
  "\<forall>(p, q) \<in> set ls. \<forall>m \<in> set q. ord_price m = p \<Longrightarrow>
   level_orders (filter (\<lambda>(p, q). c p) ls) = filter (\<lambda>m. c (ord_price m)) (level_orders ls)"
proof (induction ls)
  case (Cons e ls)
  then have "filter (\<lambda>m. c (ord_price m)) (snd e) = (if c (fst e) then snd e else [])"
    by (auto simp: case_prod_unfold intro!: filter_True filter_False)
  then show ?case using Cons by (auto simp: case_prod_unfold)
qed simp

lemma eligible_flat:
  assumes "book_inv b"
  shows "level_orders (takeWhile (\<lambda>(p, q). crosses (req_type req) (req_side req) (req_price req) p)
    (best_first (req_side req) b)) = eligible req b"
proof -
  let ?s = "req_side req" and ?c = "crosses (req_type req) (req_side req) (req_price req)"
  let ?ys = "filter (\<lambda>m. ?c (ord_price m)) (level_orders (best_first ?s b))"
  let ?xs = "filter (\<lambda>m. ord_side m \<noteq> ?s \<and> ?c (ord_price m)) (resting b)"
  have price: "\<forall>(p, q) \<in> set (best_first ?s b). \<forall>m \<in> set q. ord_price m = p"
    using book_inv_side [OF assms, of "other_side ?s"] by (cases ?s) (auto simp: best_first_def levels_inv_def level_ok_def)
  have "takeWhile (\<lambda>(p, q). ?c p) (best_first ?s b) = filter (\<lambda>(p, q). ?c p) (best_first ?s b)"
    using best_first_mono [OF assms, of "req_type req" ?s "req_price req"]
    by (intro mono_takeWhile) (simp add: case_prod_unfold)
  then have ys: "level_orders (takeWhile (\<lambda>(p, q). ?c p) (best_first ?s b)) = ?ys"
    using filter_level_orders [OF price] by simp
  have side: "m \<in> set (level_orders (side_levels t b)) \<Longrightarrow> ord_side m = t" for m t
    using levels_inv_mem [OF book_inv_side [OF assms]] by blast
  have mset: "mset ?ys = mset ?xs"
  proof -
    have "filter_mset (\<lambda>m. ord_side m \<noteq> ?s \<and> ?c (ord_price m)) (mset (level_orders (side_levels ?s b))) =
        filter_mset (\<lambda>_. False) (mset (level_orders (side_levels ?s b)))"
      using side [of _ ?s] by (intro filter_mset_cong) auto
    moreover have "filter_mset (\<lambda>m. ord_side m \<noteq> ?s \<and> ?c (ord_price m)) (mset (level_orders (side_levels (other_side ?s) b))) =
        filter_mset (\<lambda>m. ?c (ord_price m)) (mset (level_orders (side_levels (other_side ?s) b)))"
      using side [of _ "other_side ?s"] by (intro filter_mset_cong) auto
    ultimately show ?thesis by (simp add: mset_best_first mset_resting [of b ?s])
  qed
  have ids: "distinct (map ord_id ?xs)" "distinct (map ord_id ?ys)"
  proof -
    show "distinct (map ord_id ?xs)" using assms by (simp add: book_inv_def distinct_map_filter)
    moreover have ms: "mset (map ord_id ?ys) = mset (map ord_id ?xs)" using mset by simp
    ultimately show "distinct (map ord_id ?ys)" using mset_eq_imp_distinct_iff [OF ms] by simp
  qed
  have one: "filter (\<lambda>x. priority ?s k = priority ?s x) zs = [k]" if "distinct (map ord_id zs)" and k: "k \<in> set zs" for k zs
  proof -
    obtain us vs where "zs = us @ k # vs" using split_list [OF k] by blast
    then have "priority ?s k \<noteq> priority ?s x" if "x \<in> set us \<union> set vs" for x
      using that \<open>distinct (map ord_id zs)\<close> by (auto simp: priority_def simp flip: word_unat_eq_iff)
    then show ?thesis using \<open>zs = us @ k # vs\<close> by simp
  qed
  have "sort_key (priority ?s) ?xs = ?ys"
  proof (rule properties_for_sort_key [OF mset])
    show "filter (\<lambda>x. priority ?s k = priority ?s x) ?ys = filter (\<lambda>x. priority ?s k = priority ?s x) ?xs" if "k \<in> set ?ys" for k
    proof -
      have "k \<in> set ?xs" using mset_eq_setD [OF mset] that by blast
      from one [OF ids(1) this] one [OF ids(2) that] show ?thesis by (rule trans [OF _ sym, rotated])
    qed
    show "sorted (map (priority ?s) ?ys)"
      by (rule sorted_filter [OF sorted_best_first [OF assms]])
  qed
  then show ?thesis by (simp add: ys eligible_def)
qed

section \<open>The promises\<close>

text \<open>C5: matching follows price-time priority. The trades of an incoming order are those of
  the reference that walks the crossing orders of the other side sorted by price, best first,
  and then by age, filling each as far as the incoming size reaches.\<close>

theorem price_time_priority:
  assumes "book_inv b"
  shows "mr_trades (snd (add_order d i a req b)) =
    map (fill_trade req (taker_order i a req)) (sweep (req_size req) (eligible req b))"
  by (simp add: add_order_eq order_fills_def level_fills_flat eligible_flat [OF assms])

theorem price_time_priority_witness:
  "map (\<lambda>t. (trd_maker_id t, trd_price t, trd_qty t))
     (mr_trades (snd (add_order sorted_list_of_set 2 8 (limit_order Bid 10 6) demo_book))) = [(1, 9, 4), (0, 10, 2)]"
  unfolding price_time_priority [OF demo_book_inv]
  by (simp add: demo_book_eq eligible_def limit_order_def resting_def crosses_def priority_def fill_trade_def)

text \<open>C6: every fill happens at a price the incoming order accepts, at the price and for no
  more than the open quantity of a resting order of the other side, and the fills together
  with the remainder make up the size of the order exactly.\<close>

theorem fills_respect_limits:
  assumes "book_inv b"
  shows "(\<forall>t \<in> set (mr_trades (snd (add_order d i a req b))).
      0 < trd_qty t \<and> (req_type req = Limit \<longrightarrow>
        (case req_side req of Bid \<Rightarrow> trd_price t \<le> req_price req | Ask \<Rightarrow> req_price req \<le> trd_price t)) \<and>
      (\<exists>m \<in> set (resting b). ord_side m \<noteq> req_side req \<and> trd_maker_id t = ord_id m \<and> trd_maker_account t = ord_account m \<and>
         trd_price t = ord_price m \<and> trd_qty t \<le> ord_remaining m)) \<and>
    (\<Sum>t \<leftarrow> mr_trades (snd (add_order d i a req b)). unat (trd_qty t)) +
      unat (mr_taker_remaining (snd (add_order d i a req b))) = unat (req_size req)"
proof
  show "(\<Sum>t \<leftarrow> mr_trades (snd (add_order d i a req b)). unat (trd_qty t)) +
      unat (mr_taker_remaining (snd (add_order d i a req b))) = unat (req_size req)"
    using mb.fills_total [of req b] by (simp add: add_order_eq fill_trade_def case_prod_unfold o_def)
  have side: "m \<in> set (side_orders (other_side s) b) \<Longrightarrow> m \<in> set (resting b) \<and> ord_side m \<noteq> s \<and> 0 < ord_remaining m" for m s
    using levels_inv_mem [OF book_inv_side [OF assms], of m "other_side s"] set_resting [of b s]
    by (simp add: side_orders_def order_ok_def)
  have pos: "0 < x" if "(m, x) \<in> set (order_fills req b)" for m x
  proof (rule level_fills_pos)
    show "(m, x) \<in> set (level_fills (crosses (req_type req) (req_side req) (req_price req)) (req_size req)
        (best_first (req_side req) b))" using that by (simp add: order_fills_def)
    show "\<forall>m \<in> set (level_orders (best_first (req_side req) b)). 0 < ord_remaining m"
      using side mset_eq_setD [OF side_orders_other [of "req_side req" b]] by blast
  qed
  show "\<forall>t \<in> set (mr_trades (snd (add_order d i a req b))).
      0 < trd_qty t \<and> (req_type req = Limit \<longrightarrow>
        (case req_side req of Bid \<Rightarrow> trd_price t \<le> req_price req | Ask \<Rightarrow> req_price req \<le> trd_price t)) \<and>
      (\<exists>m \<in> set (resting b). ord_side m \<noteq> req_side req \<and> trd_maker_id t = ord_id m \<and> trd_maker_account t = ord_account m \<and>
         trd_price t = ord_price m \<and> trd_qty t \<le> ord_remaining m)"
  proof
    fix t assume "t \<in> set (mr_trades (snd (add_order d i a req b)))"
    then obtain m x where f: "(m, x) \<in> set (order_fills req b)" and t: "t = fill_trade req (taker_order i a req) (m, x)"
      by (auto simp: add_order_eq)
    show "0 < trd_qty t \<and> (req_type req = Limit \<longrightarrow>
        (case req_side req of Bid \<Rightarrow> trd_price t \<le> req_price req | Ask \<Rightarrow> req_price req \<le> trd_price t)) \<and>
      (\<exists>m \<in> set (resting b). ord_side m \<noteq> req_side req \<and> trd_maker_id t = ord_id m \<and> trd_maker_account t = ord_account m \<and>
         trd_price t = ord_price m \<and> trd_qty t \<le> ord_remaining m)"
      using pos [OF f] order_fills_open [OF assms f] side [OF order_fills_open(1) [OF assms f]]
      by (cases "req_side req") (auto simp: t fill_trade_def crosses_def)
  qed
qed

theorem fills_respect_limits_witness:
  "(\<Sum>t \<leftarrow> mr_trades (snd (add_order sorted_list_of_set 2 8 (limit_order Bid 10 12) demo_book)). unat (trd_qty t)) +
     unat (mr_taker_remaining (snd (add_order sorted_list_of_set 2 8 (limit_order Bid 10 12) demo_book))) = 12"
  using fills_respect_limits [OF demo_book_inv, of sorted_list_of_set 2 8 "limit_order Bid 10 12"] by (simp add: limit_order_def)

text \<open>C7: \<open>add_order\<close> keeps the book well formed: sorted non-empty levels, FIFO queues, distinct
  ids, an index that mirrors the levels, no crossed prices, no leftover dirty marks.\<close>

theorem add_order_well_formed:
  assumes "book_inv b" "order_fresh i req b"
  shows "book_inv (fst (add_order d i a req b))"
  using assms by (rule add_order_inv)

theorem add_order_well_formed_witness:
  "book_inv (fst (add_order sorted_list_of_set 2 8 (limit_order Bid 10 6) demo_book))"
  by (rule add_order_well_formed [OF demo_book_inv]) (simp add: order_fresh_def demo_book_eq resting_def limit_order_def)

text \<open>A cancel succeeds exactly for the owner of an open order; it removes that order and
  nothing else, and the book stays well formed.\<close>

lemma cancel_exact:
  assumes "book_inv b"
  shows "case book_cancel_order d a i b of
      None \<Rightarrow> \<not> (\<exists>m \<in> set (resting b). ord_id m = i \<and> ord_account m = a)
    | Some (b', m, ds) \<Rightarrow> m \<in> set (resting b) \<and> ord_id m = i \<and> ord_account m = a \<and>
        add_mset m (mset (resting b')) = mset (resting b) \<and> book_inv b'"
proof (cases "\<exists>m \<in> set (resting b). ord_id m = i \<and> ord_account m = a")
  case True
  then obtain m where m: "m \<in> set (resting b)" "ord_account m = a" "ord_id m = i" by blast
  then obtain before after where "level_at (ord_side m) (ord_price m) b = Some (before @ m # after)"
    "book_cancel_order d a i b = Some (book_removed m (before @ after) b, m,
       snd (take_dirty_levels d ((book_removed m (before @ after) b)\<lparr>dirty_levels := {(ord_side m, ord_price m)}\<rparr>)))"
    using book_cancel_found [OF assms m(1,2)] by metis
  then show ?thesis using m mset_resting_removed [OF assms] cancel_inv [OF assms m(1)] by simp
next
  case False
  then have "book_cancel_order d a i b = None" using book_cancel_missing [OF assms, of d a i] by blast
  then show ?thesis using False by simp
qed

text \<open>C9: the cost \<open>market_buy_cost\<close> walks before a market buy is the total cost of the trades the
  buy then executes, and it is refused exactly when that total does not fit \<open>u64\<close>.\<close>

theorem market_buy_cost_exact:
  assumes "book_inv b" "req_type req = Market" "req_side req = Bid"
    and "(\<Sum>m \<leftarrow> level_orders (asks b). unat (ord_remaining m)) < 2 ^ 64"
  shows "market_buy_cost b (req_size req) =
    (let total = (\<Sum>t \<leftarrow> mr_trades (snd (add_order d i a req b)). trade_cost t)
     in if total < 2 ^ 64 then Inr (of_nat total) else Inl InvalidAmount)"
proof -
  have "(\<Sum>t \<leftarrow> mr_trades (snd (add_order d i a req b)). trade_cost t) = buy_total req b"
    by (simp add: add_order_eq buy_total_def fill_qty_def trade_cost_def fill_trade_def case_prod_unfold o_def mult.commute)
  then show ?thesis using market_buy_cost_eq [OF assms] by (simp add: Let_def)
qed

theorem market_buy_cost_exact_witness:
  "market_buy_cost demo_book 6 = Inr 56 \<and>
   (\<Sum>t \<leftarrow> mr_trades (snd (add_order sorted_list_of_set 2 8 (market_order Bid 6) demo_book)). trade_cost t) = 56"
proof -
  let ?total = "\<Sum>t \<leftarrow> mr_trades (snd (add_order sorted_list_of_set 2 8 (market_order Bid 6) demo_book)). trade_cost t"
  have m: "market_buy_cost demo_book 6 = Inr 56"
    by (simp add: demo_book_eq market_buy_cost_def checked_mul_def checked_add_def)
  have "(\<Sum>m \<leftarrow> level_orders (asks demo_book). unat (ord_remaining m)) < 2 ^ 64" by (simp add: demo_book_eq)
  from market_buy_cost_exact [OF demo_book_inv _ _ this, of "market_order Bid 6" sorted_list_of_set 2 8]
  have "?total < 2 ^ 64 \<and> (56 :: u64) = of_nat ?total"
    using m by (auto simp: market_order_def Let_def split: if_splits)
  then have "?total = unat (56 :: u64)" using unat_of_nat [of ?total, where 'a = 64] by auto
  then show ?thesis using m by simp
qed

text \<open>For an order of non-zero size, \<open>would_self_trade\<close> is true exactly when matching it now
  would produce a trade against the same account.\<close>

lemma would_self_trade_exact:
  assumes "req_size req \<noteq> 0"
  shows "would_self_trade a req b \<longleftrightarrow>
    (\<exists>t \<in> set (mr_trades (snd (add_order d i a req b))). trd_maker_account t = trd_taker_account t)"
  by (force simp: would_self_trade_eq [OF assms] meets_def add_order_eq fill_trade_def taker_order_def)

end
