(* ===== verification/Engine_Examples.thy ===== *)
theory Engine_Examples
  imports Engine_Safety Book_Properties
begin

text \<open>
  A session of the engine, evaluated step by step by the simplifier: a market is listed, two
  accounts are funded, a buy crosses the better of two resting sells and rests with what is
  left, and the seller withdraws the proceeds. The theorems on runs are instantiated with it.
\<close>

definition sorted_hashing :: hashing where
  "sorted_hashing = (sorted_list_of_set, sorted_list_of_set)"

definition demo_log :: "log_entry list" where
  "demo_log =
    [(sorted_hashing, 1, 0, ListPair sol_usd),
     (sorted_hashing, 7, 0, Deposit \<lparr>dep_amount = 20, dep_currency = SOL\<rparr>),
     (sorted_hashing, 8, 0, Deposit \<lparr>dep_amount = 500, dep_currency = USD\<rparr>),
     (sorted_hashing, 7, 1, Place (limit_order Ask 10 5)),
     (sorted_hashing, 7, 2, Place (limit_order Ask 15 3)),
     (sorted_hashing, 8, 1, Place (limit_order Bid 12 8)),
     (sorted_hashing, 7, 3, Withdraw \<lparr>wd_amount = 50, wd_currency = USD\<rparr>)]"

text \<open>The responses and batches of the session, and the book at its end: the rest of the buy against
  the worse of the two sells.\<close>

definition demo_outs :: "engine_out list" where
  "demo_outs =
    [(ListPairR (Inr True), None),
     (DepositR (Inr 20), Some \<lparr>batch_seq = 0, batch_events = [BalanceChanged 7 SOL 20 0]\<rparr>),
     (DepositR (Inr 500), Some \<lparr>batch_seq = 1, batch_events = [BalanceChanged 8 USD 500 0]\<rparr>),
     (PlaceR (Inr \<lparr>por_order_id = 0, por_filled_qty = 0, por_total_cost = 0\<rparr>), Some
      \<lparr>batch_seq = 2, batch_events = [OrderAccepted 0 7 sol_usd Ask Limit 10 5, BookDelta sol_usd Ask 10
      5, BalanceChanged 7 SOL 15 5]\<rparr>),
     (PlaceR (Inr \<lparr>por_order_id = 1, por_filled_qty = 0, por_total_cost = 0\<rparr>), Some
      \<lparr>batch_seq = 3, batch_events = [OrderAccepted 1 7 sol_usd Ask Limit 15 3, BookDelta sol_usd Ask 15
      3, BalanceChanged 7 SOL 12 8]\<rparr>),
     (PlaceR (Inr \<lparr>por_order_id = 2, por_filled_qty = 5, por_total_cost = 50\<rparr>), Some
      \<lparr>batch_seq = 4, batch_events = [OrderAccepted 2 8 sol_usd Bid Limit 12 8, Trade \<lparr>trd_pair =
      sol_usd, trd_price = 10, trd_qty = 5, trd_maker_id = 0, trd_taker_id = 2, trd_taker_side = Bid,
      trd_maker_account = 7, trd_taker_account = 8\<rparr>, OrderUpdated 0 7 sol_usd 5 0 Filled, OrderUpdated 2
      8 sol_usd 5 3 PartiallyFilled, BookDelta sol_usd Bid 12 3, BookDelta sol_usd Ask 10 0, BalanceChanged 7
      USD 50 0, BalanceChanged 7 SOL 12 3, BalanceChanged 8 USD 414 36, BalanceChanged 8 SOL 5 0]\<rparr>),
     (WithdrawR (Inr ()), Some \<lparr>batch_seq = 5, batch_events = [BalanceChanged 7 USD 0 0]\<rparr>)]"

definition demo_final :: order_book where
  "demo_final =
    \<lparr>bids = [(12, [\<lparr>ord_id = 2, ord_type = Limit, ord_side = Bid, ord_price = 12, ord_size = 8,
     ord_remaining = 3, ord_account = 8\<rparr>])], asks = [(15, [\<lparr>ord_id = 1, ord_type = Limit, ord_side
     = Ask, ord_price = 15, ord_size = 3, ord_remaining = 3, ord_account = 7\<rparr>])], order_index = [1
     \<mapsto> \<lparr>loc_owner = 7, loc_side = Ask, loc_price = 15\<rparr>, 2 \<mapsto> \<lparr>loc_owner = 8,
     loc_side = Bid, loc_price = 12\<rparr>], dirty_levels = {}, last_trade_price = Some 10\<rparr>"

text \<open>The states the session goes through.\<close>

definition demo_e1 :: engine where
  "demo_e1 =
    \<lparr>books = Map.empty, order_pair = Map.empty, next_order_id = 0, next_seq = 0, eng_ledger =
     \<lparr>balances = Map.empty, ledger_dirty = {}\<rparr>, eng_dedup = \<lparr>dd_seen = {(1, 0)}, dd_order =
     [1 \<mapsto> [0]]\<rparr>, listed_pairs = {sol_usd}, eng_limits = limits_default\<rparr>"

definition demo_e2 :: engine where
  "demo_e2 =
    \<lparr>books = Map.empty, order_pair = Map.empty, next_order_id = 0, next_seq = 1, eng_ledger =
     \<lparr>balances = [7 \<mapsto> [SOL \<mapsto> \<lparr>available = 20, reserved = 0\<rparr>]], ledger_dirty
     = {}\<rparr>, eng_dedup = \<lparr>dd_seen = {(7, 0), (1, 0)}, dd_order = [1 \<mapsto> [0], 7 \<mapsto>
     [0]]\<rparr>, listed_pairs = {sol_usd}, eng_limits = limits_default\<rparr>"

definition demo_e3 :: engine where
  "demo_e3 =
    \<lparr>books = Map.empty, order_pair = Map.empty, next_order_id = 0, next_seq = 2, eng_ledger =
     \<lparr>balances = [7 \<mapsto> [SOL \<mapsto> \<lparr>available = 20, reserved = 0\<rparr>], 8 \<mapsto>
     [USD \<mapsto> \<lparr>available = 500, reserved = 0\<rparr>]], ledger_dirty = {}\<rparr>, eng_dedup =
     \<lparr>dd_seen = {(8, 0), (7, 0), (1, 0)}, dd_order = [1 \<mapsto> [0], 7 \<mapsto> [0], 8 \<mapsto>
     [0]]\<rparr>, listed_pairs = {sol_usd}, eng_limits = limits_default\<rparr>"

definition demo_e4 :: engine where
  "demo_e4 =
    \<lparr>books = [sol_usd \<mapsto> \<lparr>bids = [], asks = [(10, [\<lparr>ord_id = 0, ord_type = Limit,
     ord_side = Ask, ord_price = 10, ord_size = 5, ord_remaining = 5, ord_account = 7\<rparr>])], order_index =
     [0 \<mapsto> \<lparr>loc_owner = 7, loc_side = Ask, loc_price = 10\<rparr>], dirty_levels = {},
     last_trade_price = None\<rparr>], order_pair = [0 \<mapsto> sol_usd], next_order_id = 1, next_seq = 3,
     eng_ledger = \<lparr>balances = [8 \<mapsto> [USD \<mapsto> \<lparr>available = 500, reserved = 0\<rparr>],
     7 \<mapsto> [SOL \<mapsto> \<lparr>available = 15, reserved = 5\<rparr>]], ledger_dirty = {}\<rparr>,
     eng_dedup = \<lparr>dd_seen = {(7, 1), (8, 0), (7, 0), (1, 0)}, dd_order = [1 \<mapsto> [0], 8 \<mapsto>
     [0], 7 \<mapsto> [0, 1]]\<rparr>, listed_pairs = {sol_usd}, eng_limits = limits_default\<rparr>"

definition demo_e5 :: engine where
  "demo_e5 =
    \<lparr>books = [sol_usd \<mapsto> \<lparr>bids = [], asks = [(10, [\<lparr>ord_id = 0, ord_type = Limit,
     ord_side = Ask, ord_price = 10, ord_size = 5, ord_remaining = 5, ord_account = 7\<rparr>]), (15,
     [\<lparr>ord_id = 1, ord_type = Limit, ord_side = Ask, ord_price = 15, ord_size = 3, ord_remaining = 3,
     ord_account = 7\<rparr>])], order_index = [0 \<mapsto> \<lparr>loc_owner = 7, loc_side = Ask, loc_price =
     10\<rparr>, 1 \<mapsto> \<lparr>loc_owner = 7, loc_side = Ask, loc_price = 15\<rparr>], dirty_levels = {},
     last_trade_price = None\<rparr>], order_pair = [0 \<mapsto> sol_usd, 1 \<mapsto> sol_usd], next_order_id =
     2, next_seq = 4, eng_ledger = \<lparr>balances = [8 \<mapsto> [USD \<mapsto> \<lparr>available = 500,
     reserved = 0\<rparr>], 7 \<mapsto> [SOL \<mapsto> \<lparr>available = 12, reserved = 8\<rparr>]],
     ledger_dirty = {}\<rparr>, eng_dedup = \<lparr>dd_seen = {(7, 2), (7, 1), (8, 0), (7, 0), (1, 0)}, dd_order
     = [1 \<mapsto> [0], 8 \<mapsto> [0], 7 \<mapsto> [0, 1, 2]]\<rparr>, listed_pairs = {sol_usd}, eng_limits =
     limits_default\<rparr>"

definition demo_e6 :: engine where
  "demo_e6 =
    \<lparr>books = [sol_usd \<mapsto> demo_final], order_pair = [1 \<mapsto> sol_usd, 2 \<mapsto> sol_usd],
     next_order_id = 3, next_seq = 5, eng_ledger = \<lparr>balances = [7 \<mapsto> [USD \<mapsto>
     \<lparr>available = 50, reserved = 0\<rparr>, SOL \<mapsto> \<lparr>available = 12, reserved = 3\<rparr>],
     8 \<mapsto> [SOL \<mapsto> \<lparr>available = 5, reserved = 0\<rparr>, USD \<mapsto> \<lparr>available =
     414, reserved = 36\<rparr>]], ledger_dirty = {}\<rparr>, eng_dedup = \<lparr>dd_seen = {(8, 1), (7, 2), (7,
     1), (8, 0), (7, 0), (1, 0)}, dd_order = [1 \<mapsto> [0], 7 \<mapsto> [0, 1, 2], 8 \<mapsto> [0,
     1]]\<rparr>, listed_pairs = {sol_usd}, eng_limits = limits_default\<rparr>"

definition demo_e7 :: engine where
  "demo_e7 =
    \<lparr>books = [sol_usd \<mapsto> demo_final], order_pair = [1 \<mapsto> sol_usd, 2 \<mapsto> sol_usd],
     next_order_id = 3, next_seq = 6, eng_ledger = \<lparr>balances = [8 \<mapsto> [SOL \<mapsto>
     \<lparr>available = 5, reserved = 0\<rparr>, USD \<mapsto> \<lparr>available = 414, reserved = 36\<rparr>],
     7 \<mapsto> [SOL \<mapsto> \<lparr>available = 12, reserved = 3\<rparr>, USD \<mapsto> \<lparr>available =
     0, reserved = 0\<rparr>]], ledger_dirty = {}\<rparr>, eng_dedup = \<lparr>dd_seen = {(7, 3), (8, 1), (7,
     2), (7, 1), (8, 0), (7, 0), (1, 0)}, dd_order = [1 \<mapsto> [0], 8 \<mapsto> [0, 1], 7 \<mapsto> [0, 1, 2,
     3]]\<rparr>, listed_pairs = {sol_usd}, eng_limits = limits_default\<rparr>"

lemmas book_eval = limit_order_def market_order_def sol_usd_def add_order_def match_loop.simps taker_order_def
  order_book_new_def best_opposite_def first_key_value_def last_key_value_def Let_def index_rested_def rest_order_def
  push_back_def bt_get_def take_dirty_levels_def fill_front_def put_back_def pop_first_def pop_last_def drop_index_def
  bt_put_last_def taker_updates_def taker_status_def level_qty_def level_at_def book_cancel_order_def set_level_def
  bt_remove_def would_self_trade_def market_buy_cost_def checked_mul_def checked_add_def saturating_sub_def
  List.extract_Cons_code

lemmas ledger_eval = ledger_new_def upd_balance_def mark_dirty_def entry_balance_def zero_balance_def add_available_def
  sub_available_def add_reserved_def sub_reserved_def ledger_deposit_def held_def ledger_withdraw_def reserve_def
  release_def settle_def take_dirty_def

lemmas engine_eval = engine_new_def limits_default_def dedup_new_def dedup_window_def recent_of_def dedup_insert_def
  engine_apply_def place_order_def place_guard_def out_of_band_def quote_amount_def reserve_for_def route_orders_def
  release_unsold_def surplus_def release_surplus_def book_for_def execute_def engine_deposit_def cancel_refund_def
  engine_cancel_order_def delta_events_def update_event_def place_events_def place_response_def cancel_events_def
  balance_event_def finish_batch_def is_valid_def

lemmas run_eval = book_eval ledger_eval engine_eval sorted_hashing_def less_currency_def less_side_def insert_Diff_if

lemma demo_step1:
  "engine_apply sorted_hashing 1 0 (ListPair sol_usd) engine_new =
     Some (demo_e1, demo_outs ! 0)"
  by (simp add: run_eval demo_outs_def demo_e1_def cong: let_weak_cong)

lemma demo_step2:
  "engine_apply sorted_hashing 7 0 (Deposit \<lparr>dep_amount = 20, dep_currency = SOL\<rparr>) demo_e1 =
     Some (demo_e2, demo_outs ! 1)"
  by (simp add: run_eval demo_outs_def demo_e2_def demo_e1_def cong: let_weak_cong)

lemma demo_step3:
  "engine_apply sorted_hashing 8 0 (Deposit \<lparr>dep_amount = 500, dep_currency = USD\<rparr>) demo_e2 =
     Some (demo_e3, demo_outs ! 2)"
  by (simp add: run_eval demo_outs_def demo_e3_def demo_e2_def cong: let_weak_cong)

lemma demo_step4:
  "engine_apply sorted_hashing 7 1 (Place (limit_order Ask 10 5)) demo_e3 =
     Some (demo_e4, demo_outs ! 3)"
  by (simp add: run_eval demo_outs_def demo_e4_def demo_e3_def cong: let_weak_cong)

lemma demo_step5:
  "engine_apply sorted_hashing 7 2 (Place (limit_order Ask 15 3)) demo_e4 =
     Some (demo_e5, demo_outs ! 4)"
  by (simp add: run_eval demo_outs_def demo_e5_def demo_e4_def cong: let_weak_cong)

lemma demo_step6:
  "engine_apply sorted_hashing 8 1 (Place (limit_order Bid 12 8)) demo_e5 =
     Some (demo_e6, demo_outs ! 5)"
  by (simp add: run_eval demo_outs_def demo_e6_def demo_e5_def demo_final_def cong: let_weak_cong)

lemma demo_step7:
  "engine_apply sorted_hashing 7 3 (Withdraw \<lparr>wd_amount = 50, wd_currency = USD\<rparr>) demo_e6 =
     Some (demo_e7, demo_outs ! 6)"
  by (simp add: run_eval demo_outs_def demo_e7_def demo_e6_def demo_final_def cong: let_weak_cong)

lemma demo_run: "engine_run demo_log engine_new = Some (demo_e7, demo_outs)"
  by (simp add: demo_log_def demo_step1 demo_step2 demo_step3 demo_step4 demo_step5 demo_step6 demo_step7)
    (simp add: demo_outs_def)

lemma demo_hashing: "hashing_ok demo_log" "length demo_log \<le> 10 ^ 14"
  by (simp_all add: hashing_ok_def demo_log_def sorted_hashing_def)

lemma demo_state:
  "books demo_e7 sol_usd = Some demo_final" "listed_pairs demo_e7 = {sol_usd}" "eng_limits demo_e7 = limits_default"
  "next_order_id demo_e7 = 3" "next_seq demo_e7 = 6" "avail (eng_ledger demo_e7) 8 USD = 414" "resv (eng_ledger demo_e7) 8 USD = 36"
  "avail (eng_ledger demo_e7) 7 SOL = 12" "resv (eng_ledger demo_e7) 7 SOL = 3"
  by (simp_all add: demo_e7_def avail_def resv_def entry_balance_def)

lemma demo_settled: "settled demo_e7"
  by (rule run_from_new_facts(1) [OF demo_hashing demo_run])

lemma demo_inv: "engine_inv demo_e7"
  using demo_settled by (simp add: settled_def)

lemma demo_roomy: "roomy demo_e7"
  unfolding roomy_def
proof
  fix c
  have "supply_of demo_e7 c \<le> 700000"
    using run_from_new_facts(3) [OF demo_hashing demo_run, of c] by (cases c) (simp_all add: demo_log_def)
  moreover have "unat (deposit_ceiling (eng_limits demo_e7) c) \<le> 100000"
    by (cases c) (simp_all add: demo_state limits_default_def)
  ultimately show "supply_of demo_e7 c + unat (deposit_ceiling (eng_limits demo_e7) c) < 2 ^ 64" by simp
qed

lemma demo_funded: "funded demo_e7"
  by (rule roomy_funded [OF demo_roomy])

end
