(* ===== verification/Engine_Properties.thy ===== *)
theory Engine_Properties
  imports Engine_Examples
begin

text \<open>
  What the engine promises per command: when an order is accepted and why it is refused, how
  money moves when it is, what a cancel pays back, what the abuse guards enforce, and that a
  refused command leaves no trace.
\<close>

section \<open>Placing an order\<close>

text \<open>The decision on an order, on the natural numbers: the first of the checks that fails.\<close>

definition total_cost :: "account_id \<Rightarrow> order_request \<Rightarrow> engine \<Rightarrow> nat" where
  "total_cost a req e =
     (\<Sum>t \<leftarrow> mr_trades (snd (matched sorted_list_of_set a req e)). trade_cost t)"

definition to_reserve :: "account_id \<Rightarrow> order_request \<Rightarrow> engine \<Rightarrow> nat" where
  "to_reserve a req e =
     (case (req_side req, req_type req) of
        (Ask, _) \<Rightarrow> unat (req_size req)
      | (Bid, Limit) \<Rightarrow> unat (req_price req) * unat (req_size req)
      | (Bid, Market) \<Rightarrow> total_cost a req e)"

definition notional :: "account_id \<Rightarrow> order_request \<Rightarrow> engine \<Rightarrow> nat" where
  "notional a req e =
     (if req_side req = Bid \<and> req_type req = Market then total_cost a req e
      else unat (req_price req) * unat (req_size req))"

definition verdict :: "account_id \<Rightarrow> order_request \<Rightarrow> engine \<Rightarrow> reject_reason option" where
  "verdict a req e =
     (case place_guard a req e of
        Some r \<Rightarrow> Some r
      | None \<Rightarrow>
          if 2 ^ 64 \<le> notional a req e then Some InvalidAmount
          else if avail (eng_ledger e) a (pay_currency (req_pair req) (req_side req)) < to_reserve a req e
          then Some InsufficientFunds
          else None)"

lemma matched_trades_drain: "mr_trades (snd (matched d a req e)) = mr_trades (snd (matched d' a req e))"
  by (simp add: matched_def add_order_eq)

lemma total_cost_eq: "total_cost a req e = fill_qty (\<lambda>p a. unat p) (order_fills req (book_for e (req_pair req)))"
  by (simp add: total_cost_def matched_eq(2) fill_qty_def trade_cost_def fill_trade_def case_prod_unfold o_def mult.commute)

lemma to_reserve_eq: "to_reserve a req e = mb.needed req (book_for e (req_pair req))"
  by (cases "req_side req"; cases "req_type req")
    (simp_all add: to_reserve_def mb.needed_def mb.taker_pays_def total_cost_eq)

lemma quote_amount_eq:
  assumes "books_ok e" "backed e" "funded e"
  shows "quote_amount req e = Inl r \<longleftrightarrow> r = InvalidAmount \<and> 2 ^ 64 \<le> notional a req e"
proof (cases "req_side req = Bid \<and> req_type req = Market")
  case True
  let ?b = "book_for e (req_pair req)"
  have "market_buy_cost ?b (req_size req) =
      (if total_cost a req e < 2 ^ 64 then Inr (of_nat (total_cost a req e)) else Inl InvalidAmount)"
    using market_buy_cost_eq [OF book_for_ok(1) [OF assms(1)] _ _ asks_total_fits [OF assms]] True
    by (simp add: buy_total_def total_cost_eq)
  moreover have "quote_amount req e = market_buy_cost ?b (req_size req)"
    using True by (auto simp: quote_amount_def book_for_def market_buy_cost_def order_book_new_def split: option.splits)
  ultimately show ?thesis using True by (auto simp: notional_def)
next
  case False
  then show ?thesis by (auto simp: quote_amount_def notional_def checked_mul_def)
qed

lemma place_order_verdict:
  assumes "books_ok e" "backed e" "funded e"
  shows "\<exists>e'. place_order d a req e =
    Some (e', case verdict a req e of Some r \<Rightarrow> Inl r | None \<Rightarrow> Inr (snd (matched d a req e)))"
proof -
  note q = quote_amount_eq [OF assms, of req _ a]
  have short: "avail (eng_ledger e) a (pay_currency (req_pair req) (req_side req)) < to_reserve a req e \<longleftrightarrow>
      verdict a req e = Some InsufficientFunds" if "place_guard a req e = None" "\<not> 2 ^ 64 \<le> notional a req e"
    using that by (auto simp: verdict_def)
  show ?thesis
  proof (cases "place_guard a req e")
    case (Some r)
    then show ?thesis by (simp add: place_order_def verdict_def)
  next
    case guard: None
    show ?thesis
    proof (cases "quote_amount req e")
      case (Inl r)
      then have "r = InvalidAmount" "2 ^ 64 \<le> notional a req e" using q [of r] by simp_all
      then show ?thesis using guard Inl by (simp add: place_order_def verdict_def)
    next
      case (Inr x)
      then have n: "\<not> 2 ^ 64 \<le> notional a req e" using q [of InvalidAmount] by auto
      obtain l r where lr: "reserve_for a req x (eng_ledger e) = (l, r)" by fastforce
      note out = reserve_for_eq(1) [OF assms Inr refl refl lr, folded to_reserve_eq [of a]]
      have v: "is_valid (req_pair req)" using guard by (auto simp: place_guard_def split: if_splits)
      show ?thesis
      proof (cases "verdict a req e")
        case None
        then have ok: "to_reserve a req e \<le> avail (eng_ledger e) a (pay_currency (req_pair req) (req_side req))"
          using short [OF guard n] by auto
        then obtain u where r: "r = Inr u" using out by auto
        have "place_order d a req e = execute d a req (e\<lparr>eng_ledger := l\<rparr>)" using guard Inr lr r by (simp add: place_order_def)
        moreover obtain e' where "execute d a req (e\<lparr>eng_ledger := l\<rparr>) = Some (e', Inr (snd (matched d a req e)))"
          using execute_clears [OF assms(1,2) quote_amount_needed(2) [OF assms Inr] v refl to_reserve_eq ok, of l d]
            out ok reserve_for_eq(2) [OF assms Inr refl refl lr] assms(3) by auto
        ultimately show ?thesis using None by simp
      next
        case (Some s)
        then have "s = InsufficientFunds" "avail (eng_ledger e) a (pay_currency (req_pair req) (req_side req)) < to_reserve a req e"
          using guard n by (auto simp: verdict_def split: if_splits)
        then have "r = Inl s" using out by auto
        then show ?thesis using Some guard Inr lr by (simp add: place_order_def)
      qed
    qed
  qed
qed

lemma place_accepted_holdings:
  assumes "books_ok e" "backed e" "place_accepted d acct req e e'"
    and fits: "req_type req = Limit \<Longrightarrow> unat (req_price req) * unat (req_size req) < 2 ^ 64"
  shows "avail (eng_ledger e') a c + resv (eng_ledger e') a c + demands (req_pair req) (mr_trades (snd (matched d acct req e))) a c =
    avail (eng_ledger e) a c + resv (eng_ledger e) a c + credits (req_pair req) (mr_trades (snd (matched d acct req e))) a c"
proof -
  let ?p = "req_pair req" and ?b = "book_for e (req_pair req)" and ?b' = "fst (matched d acct req e)"
  let ?key = "a = acct \<and> c = pay_currency (req_pair req) (req_side req)"
  let ?F = "fill_qty (weight ?p (other_side (req_side req)) a c) (order_fills req ?b)"
  obtain l where l: "e' = after_match d acct req e l" "resv l a c = engine_commit e' a c"
    "avail l a c + (if ?key then mb.needed req ?b else 0) = avail (eng_ledger e) a c +
       credits ?p (mr_trades (snd (matched d acct req e))) a c + (if ?key then mb.excess req ?b else 0)"
    using assms(3) unfolding place_accepted_def Let_def by blast
  note b = book_for_ok(1) [OF assms(1), of ?p]
  have "demands ?p (mr_trades (snd (matched d acct req e))) a c = ?F + (if ?key then mb.taker_pays req ?b else 0)"
    unfolding matched_def by (rule mb.demands_trades)
  moreover have "mb.committed ?p ?b' a c + ?F = mb.committed ?p ?b a c + (if ?key then mb.kept req ?b else 0)"
    unfolding matched_def by (rule mb.committed_after [OF b])
  moreover have "engine_commit e' a c + mb.committed ?p ?b a c = engine_commit e a c + mb.committed ?p ?b' a c"
    using engine_commit_after_match [OF place_fresh(2) [OF assms(1) fits], of d acct l a c]
    by (simp add: l(1) engine_commit_split [of e a c ?p] book_commit_eq [OF b])
  moreover have "resv (eng_ledger e) a c = engine_commit e a c" using assms(2) by (simp add: backed_def)
  moreover have "eng_ledger e' = l" by (simp add: l(1) after_match_def)
  ultimately show ?thesis using l(2,3) mb.needed_split [OF b, of req] by (auto split: if_splits)
qed

text \<open>The state of an accepted order's engine, and the verdict behind it.\<close>

lemma accepted_facts:
  assumes "engine_inv e" "funded e" "place_order d a req e = Some (e', Inr mr)"
  shows "place_accepted d a req e e'" "mr = snd (matched d a req e)" "place_guard a req e = None"
    "req_type req = Limit \<Longrightarrow> unat (req_price req) * unat (req_size req) < 2 ^ 64"
proof -
  have inv: "books_ok e" "backed e" using assms(1) by (simp_all add: engine_inv_def)
  have "place_accepted d a req e e' \<and> mr = snd (matched d a req e) \<and> place_guard a req e = None \<and>
      (req_type req = Limit \<longrightarrow> unat (req_price req) * unat (req_size req) < 2 ^ 64)"
    by (rule place_order_outcome [OF inv assms(2), of d a req]) (use assms(3) in auto)
  then show "place_accepted d a req e e'" "mr = snd (matched d a req e)" "place_guard a req e = None"
    "req_type req = Limit \<Longrightarrow> unat (req_price req) * unat (req_size req) < 2 ^ 64" by blast+
qed

lemma rejected_facts:
  assumes "engine_inv e" "funded e" "place_order d a req e = Some (e', Inl r)"
  shows "place_rejected e e'"
proof -
  have inv: "books_ok e" "backed e" using assms(1) by (simp_all add: engine_inv_def)
  show ?thesis by (rule place_order_outcome [OF inv assms(2), of d a req]) (use assms(3) in auto)
qed

section \<open>Evaluation on the final book of the session\<close>

lemma demo_fills_final:
  "order_fills (market_order Bid 2) demo_final =
     [(\<lparr>ord_id = 1, ord_type = Limit, ord_side = Ask, ord_price = 15, ord_size = 3, ord_remaining = 3, ord_account = 7\<rparr>, 2)]"
  by (simp add: order_fills_def demo_final_def market_order_def best_first_def crosses_def)

lemmas verdict_eval = verdict_def place_guard_def notional_def to_reserve_def pay_currency_def limit_order_def market_order_def
  sol_usd_def is_valid_def out_of_band_def price_band_def saturating_mul_def saturating_sub_def saturating_add_def
  would_self_trade_def demo_final_def limits_default_def Let_def

text \<open>Account 8 buys two at the market.\<close>

lemma demo_market_buy:
  "\<exists>e' mr. place_order d 8 (market_order Bid 2) demo_e7 = Some (e', Inr mr)"
proof -
  have "total_cost 8 (market_order Bid 2) demo_e7 = 30"
    using demo_fills_final by (simp add: total_cost_eq book_for_def market_order_def demo_state)
  then have "verdict 8 (market_order Bid 2) demo_e7 = None" using demo_state by (simp add: verdict_eval)
  then show ?thesis
    using place_order_verdict [of demo_e7 d 8 "market_order Bid 2"] demo_inv demo_funded by (auto simp: engine_inv_def)
qed

section \<open>The promises\<close>



text \<open>C10: settlement is exact. When an order is accepted, everything each account holds of each
  currency changes by its own trades and by nothing else: the buyer pays price times quantity and
  receives the quantity, the seller the other way round.\<close>

theorem accepted_order_moves_funds:
  assumes "engine_inv e" "funded e" "place_order d acct req e = Some (e', Inr mr)"
  shows "avail (eng_ledger e') a c + resv (eng_ledger e') a c + (\<Sum>t \<leftarrow> mr_trades mr. demand (req_pair req) t a c) =
    avail (eng_ledger e) a c + resv (eng_ledger e) a c + (\<Sum>t \<leftarrow> mr_trades mr. credit (req_pair req) t a c)"
  using place_accepted_holdings [of e d acct req e' a c] accepted_facts [OF assms] assms(1)
  by (simp add: engine_inv_def demands_def credits_def)

theorem accepted_order_moves_funds_witness:
  "\<exists>e' mr. place_order sorted_list_of_set 8 (market_order Bid 2) demo_e7 = Some (e', Inr mr) \<and>
     avail (eng_ledger e') 8 USD + resv (eng_ledger e') 8 USD + 30 = 450"
proof -
  obtain e' mr where p: "place_order sorted_list_of_set 8 (market_order Bid 2) demo_e7 = Some (e', Inr mr)"
    using demo_market_buy by blast
  have "mr_trades mr = map (fill_trade (market_order Bid 2) (taker_order 3 8 (market_order Bid 2)))
      (order_fills (market_order Bid 2) demo_final)"
    using accepted_facts(2) [OF demo_inv demo_funded p] matched_eq(2) [OF refl, where d = sorted_list_of_set and acct = 8 and e = demo_e7 and req = "market_order Bid 2"]
    by (simp add: book_for_def market_order_def demo_state)
  then have "(\<Sum>t \<leftarrow> mr_trades mr. demand sol_usd t 8 USD) = 30" "(\<Sum>t \<leftarrow> mr_trades mr. credit sol_usd t 8 USD) = 0"
    unfolding demo_fills_final
    by (simp_all add: demand_def credit_def buyer_def seller_def trade_cost_def fill_trade_def taker_order_def
        market_order_def sol_usd_def)
  then show ?thesis using p accepted_order_moves_funds [OF demo_inv demo_funded p, of 8 USD]
    by (auto simp: market_order_def demo_state)
qed

text \<open>C11: a refused order leaves no trace: no book, route or id changes, and no balance.\<close>

theorem refused_order_changes_nothing:
  assumes "engine_inv e" "funded e" "place_order d acct req e = Some (e', Inl r)"
  shows "books e' = books e \<and> order_pair e' = order_pair e \<and> next_order_id e' = next_order_id e \<and>
    listed_pairs e' = listed_pairs e \<and> (\<forall>a c. entry_balance (eng_ledger e') a c = entry_balance (eng_ledger e) a c)"
  using rejected_facts [OF assms] by (auto simp: place_rejected_def)

theorem refused_order_changes_nothing_witness:
  "\<exists>e'. place_order sorted_list_of_set 8 (limit_order Bid 10 42) demo_e7 = Some (e', Inl InsufficientFunds) \<and> books e' = books demo_e7 \<and>
     entry_balance (eng_ledger e') 8 USD = \<lparr>available = 414, reserved = 36\<rparr>"
proof -
  have "verdict 8 (limit_order Bid 10 42) demo_e7 = Some InsufficientFunds" using demo_state by (simp add: verdict_eval)
  then obtain e' where p: "place_order sorted_list_of_set 8 (limit_order Bid 10 42) demo_e7 = Some (e', Inl InsufficientFunds)"
    using place_order_verdict [of demo_e7 sorted_list_of_set 8 "limit_order Bid 10 42"] demo_inv demo_funded by (auto simp: engine_inv_def)
  moreover have "entry_balance (eng_ledger demo_e7) 8 USD = \<lparr>available = 414, reserved = 36\<rparr>"
    by (simp add: demo_e7_def entry_balance_def)
  ultimately show ?thesis using refused_order_changes_nothing [OF demo_inv demo_funded p] by auto
qed

text \<open>C12: with self-trade prevention on, no accepted order trades with its own account.\<close>

theorem no_self_trades:
  assumes "engine_inv e" "funded e" "place_order d a req e = Some (e', Inr mr)" "prevent_self_trade (eng_limits e)"
  shows "\<forall>t \<in> set (mr_trades mr). trd_taker_account t = a \<and> trd_maker_account t \<noteq> a"
proof -
  let ?b = "book_for e (req_pair req)"
  have tr: "mr_trades mr = map (fill_trade req (taker_order (next_order_id e) a req)) (order_fills req ?b)"
    using accepted_facts(2) [OF assms(1-3)] matched_eq(2) [OF refl] by simp
  have "\<not> meets a (order_fills req ?b)"
  proof (cases "req_size req = 0 \<or> books e (req_pair req) = None")
    case True
    then have "order_fills req ?b = []"
      by (cases "req_side req") (auto simp: order_fills_def book_for_def order_book_new_def best_first_def)
    then show ?thesis by simp
  next
    case False
    then obtain b where b: "books e (req_pair req) = Some b" and n: "req_size req \<noteq> 0" by blast
    then have "\<not> would_self_trade a req b"
      using accepted_facts(3) [OF assms(1-3)] assms(4) by (auto simp: place_guard_def split: if_splits)
    then show ?thesis using would_self_trade_eq [OF n, of a b] b by (simp add: book_for_def)
  qed
  then show ?thesis by (auto simp: tr meets_def fill_trade_def taker_order_def)
qed

theorem no_self_trades_witness:
  "\<exists>e' mr. place_order sorted_list_of_set 8 (market_order Bid 2) demo_e7 = Some (e', Inr mr) \<and>
     list_all (\<lambda>t. trd_taker_account t = 8 \<and> trd_maker_account t \<noteq> 8) (mr_trades mr)"
proof -
  obtain e' mr where p: "place_order sorted_list_of_set 8 (market_order Bid 2) demo_e7 = Some (e', Inr mr)"
    using demo_market_buy by blast
  moreover have "prevent_self_trade (eng_limits demo_e7)" by (simp add: demo_state limits_default_def)
  ultimately show ?thesis using no_self_trades [OF demo_inv demo_funded p] by (auto simp: list_all_iff)
qed



text \<open>C14: the deposit ceiling caps what an account holds, not what it asks for: a deposit is accepted
  exactly when the account's available and reserved funds together stay within the ceiling, it
  is credited in full, and a refused deposit changes nothing.\<close>

theorem deposit_ceiling_enforced:
  assumes "funded e" "engine_deposit a req e = (e', r)"
  shows "let c = dep_currency req; x = unat (dep_amount req);
      held_before = avail (eng_ledger e) a c + resv (eng_ledger e) a c
    in case r of
         Inr v \<Rightarrow> held_before + x \<le> unat (deposit_ceiling (eng_limits e) c) \<and> unat v = avail (eng_ledger e) a c + x \<and>
           avail (eng_ledger e') = upd2 (avail (eng_ledger e)) a c (avail (eng_ledger e) a c + x) \<and>
           resv (eng_ledger e') = resv (eng_ledger e)
       | Inl _ \<Rightarrow> unat (deposit_ceiling (eng_limits e) c) < held_before + x \<and> e' = e"
proof -
  let ?c = "dep_currency req" and ?l = "eng_ledger e"
  have dep: "avail ?l a ?c + unat (dep_amount req) < 2 ^ 64 \<Longrightarrow>
      avail (fst (ledger_deposit ?c a (dep_amount req) ?l)) = upd2 (avail ?l) a ?c (avail ?l a ?c + unat (dep_amount req)) \<and>
      resv (fst (ledger_deposit ?c a (dep_amount req) ?l)) = resv ?l \<and>
      unat (snd (ledger_deposit ?c a (dep_amount req) ?l)) = avail ?l a ?c + unat (dep_amount req)"
    using deposit_eq [of ?l a ?c "dep_amount req"] by blast
  show ?thesis
    using assms(2) dep unfolding engine_deposit_eq [OF assms(1) refl]
    by (auto simp: Let_def intro: less_le_trans [OF unat_lt_2_64] split: if_splits)
qed

theorem deposit_ceiling_enforced_witness:
  "snd (engine_deposit 8 \<lparr>dep_amount = 99551, dep_currency = USD\<rparr> demo_e7) = Inl DepositLimitExceeded \<and>
   (\<exists>v. snd (engine_deposit 8 \<lparr>dep_amount = 99550, dep_currency = USD\<rparr> demo_e7) = Inr v \<and> unat v = 99964)"
proof -
  let ?r1 = "\<lparr>dep_amount = 99551, dep_currency = USD\<rparr> :: deposit_request"
    and ?r2 = "\<lparr>dep_amount = 99550, dep_currency = USD\<rparr> :: deposit_request"
  have "snd (engine_deposit 8 ?r1 demo_e7) = Inl DepositLimitExceeded" "isl (snd (engine_deposit 8 ?r2 demo_e7)) = False"
    by (simp_all add: engine_deposit_eq [OF demo_funded refl] demo_state limits_default_def)
  then show ?thesis using deposit_ceiling_enforced [OF demo_funded, of 8 ?r2] demo_state(6)
    by (cases "engine_deposit 8 ?r2 demo_e7"; cases "snd (engine_deposit 8 ?r2 demo_e7)") (auto simp: Let_def)
qed

text \<open>C15: a cancel succeeds exactly for the owner of an order that is open in some market. It
  removes that order, pays back exactly what the order had committed, and touches no other
  market and no other account; a failed cancel changes nothing.\<close>

theorem cancel_refunds:
  assumes "engine_inv e" "funded e"
  shows "case engine_cancel_order d a req e of
      (e', None) \<Rightarrow> e' = e \<and>
        \<not> (\<exists>p b m. books e p = Some b \<and> m \<in> set (resting b) \<and> ord_id m = can_order_id req \<and> ord_account m = a)
    | (e', Some (p, m, ds)) \<Rightarrow> ord_id m = can_order_id req \<and> ord_account m = a \<and>
        add_mset m (mset (resting (book_for e' p))) = mset (resting (book_for e p)) \<and> (\<forall>q. q \<noteq> p \<longrightarrow> books e' q = books e q) \<and>
        (\<forall>a' c. avail (eng_ledger e') a' c = avail (eng_ledger e) a' c + commitment p m a' c \<and>
           resv (eng_ledger e') a' c + commitment p m a' c = resv (eng_ledger e) a' c)"
proof (cases "\<exists>p b m. books e p = Some b \<and> m \<in> set (resting b) \<and> ord_id m = can_order_id req \<and> ord_account m = a")
  case False
  then show ?thesis using engine_cancel_none [OF assms(1) False] by simp
next
  case True
  then obtain p b m where b: "books e p = Some b" "m \<in> set (resting b)" "ord_account m = a"
    and i: "ord_id m = can_order_id req" by blast
  have req: "req = \<lparr>can_order_id = ord_id m\<rparr>" by (simp add: i)
  obtain before after ds where lv: "level_at (ord_side m) (ord_price m) b = Some (before @ m # after)"
    and c: "engine_cancel_order d a req e = (after_cancel p m (book_removed m (before @ after) b) e, Some (p, m, ds))"
    using engine_cancel_some [OF assms(1) b, of d] unfolding req by metis
  note refund = cancel_pays_back [OF assms b(1,2) lv refl]
  have "book_inv b" using assms(1) b(1) by (auto simp: engine_inv_def books_ok_def)
  from mset_resting_removed [OF this lv] show ?thesis using b(1,3) i refund(2,3)
    by (simp add: c) (simp add: after_cancel_def book_for_def)
qed

theorem cancel_refunds_witness:
  "case engine_cancel_order sorted_list_of_set 8 \<lparr>can_order_id = 2\<rparr> demo_e7 of
     (e', None) \<Rightarrow> False
   | (e', Some (p, m, ds)) \<Rightarrow> avail (eng_ledger e') 8 USD = 414 + commitment p m 8 USD"
proof -
  let ?m = "\<lparr>ord_id = 2, ord_type = Limit, ord_side = Bid, ord_price = 12, ord_size = 8, ord_remaining = 3, ord_account = 8\<rparr> :: order"
  have "?m \<in> set (resting demo_final)" by (simp add: demo_final_def resting_def)
  moreover have "ord_id ?m = 2" "ord_account ?m = 8" by simp_all
  ultimately have "\<exists>p b m. books demo_e7 p = Some b \<and> m \<in> set (resting b) \<and> ord_id m = 2 \<and> ord_account m = 8"
    using demo_state(1) by blast
  then show ?thesis
    using cancel_refunds [OF demo_inv demo_funded, where d = sorted_list_of_set and a = 8 and req = "\<lparr>can_order_id = 2\<rparr>"] demo_state(6)
    by (auto split: prod.splits option.splits)
qed

text \<open>A withdrawal pays out available funds only: it succeeds exactly when the account has the
  amount available, takes exactly that, and never touches what is reserved for open orders.\<close>

lemma withdraw_exact:
  "let l' = fst (ledger_withdraw a c x l); r = snd (ledger_withdraw a c x l)
   in r = (if unat x \<le> avail l a c then Inr () else Inl InsufficientFunds) \<and>
      avail l' = (if unat x \<le> avail l a c then upd2 (avail l) a c (avail l a c - unat x) else avail l) \<and>
      resv l' = resv l"
  by (simp add: withdraw_eq Let_def not_le)

end
