(* ===== verification/Engine_Replay.thy ===== *)
theory Engine_Replay
  imports Engine_Properties
begin

text \<open>
  What makes the command log replayable: retried commands are recognised, the outcome of a
  command does not depend on the iteration order of the hash sets, and the emitted batches are
  numbered without gaps. The bounded idempotency window is related to the unbounded history of
  accepted keys it stands for.
\<close>

section \<open>The idempotency window\<close>

definition dedup_inv :: "dedup \<Rightarrow> bool" where
  "dedup_inv dd \<longleftrightarrow> (\<forall>a i. (a, i) \<in> dd_seen dd \<longleftrightarrow> i \<in> set (recent_of dd a)) \<and>
     (\<forall>a. distinct (recent_of dd a) \<and> length (recent_of dd a) \<le> dedup_window)"

definition last_n :: "nat \<Rightarrow> 'a list \<Rightarrow> 'a list" where
  "last_n n xs = drop (length xs - n) xs"

lemma last_n_snoc: "0 < n \<Longrightarrow> last_n n (last_n n xs @ [x]) = last_n n (xs @ [x])"
  by (cases "n \<le> length xs") (auto simp: last_n_def Suc_diff_le)

lemma last_n_full: "length xs = n \<Longrightarrow> 0 < n \<Longrightarrow> last_n n (xs @ [x]) = tl (xs @ [x])"
  by (cases xs) (simp_all add: last_n_def)

lemma last_n_short: "length xs \<le> n \<Longrightarrow> last_n n xs = xs"
  by (simp add: last_n_def)

text \<open>The unbounded specification: all keys ever accepted per account, a key being refused when it
  is among the last thousand of them.\<close>

definition history_insert :: "account_id \<Rightarrow> u64 \<Rightarrow> (account_id \<Rightarrow> u64 list) \<Rightarrow> (account_id \<Rightarrow> u64 list) \<times> bool" where
  "history_insert a i hist =
     (if i \<in> set (last_n dedup_window (hist a)) then (hist, False) else (hist(a := hist a @ [i]), True))"

definition window_of :: "dedup \<Rightarrow> (account_id \<Rightarrow> u64 list) \<Rightarrow> bool" where
  "window_of dd hist \<longleftrightarrow> dedup_inv dd \<and> (\<forall>a. recent_of dd a = last_n dedup_window (hist a))"

lemma recent_of_insert:
  assumes "snd (dedup_insert a i dd)" "length (recent_of dd a) \<le> dedup_window"
  shows "recent_of (fst (dedup_insert a i dd)) b = (if b = a then last_n dedup_window (recent_of dd a @ [i]) else recent_of dd b)"
proof -
  let ?q = "recent_of dd a @ [i]"
  have q: "last_n dedup_window ?q = (if dedup_window < length ?q then tl ?q else ?q)"
    using assms(2) last_n_full [of "recent_of dd a" dedup_window i] last_n_short [of ?q dedup_window]
    by (auto simp: dedup_window_def)
  have "fst (dedup_insert a i dd) = \<lparr>dd_seen = dd_seen (fst (dedup_insert a i dd)),
      dd_order = (dd_order dd)(a \<mapsto> (if dedup_window < length ?q then tl ?q else ?q))\<rparr>"
    using assms(1) by (auto simp: dedup_insert_def Let_def)
  then have "dd_order (fst (dedup_insert a i dd)) = (dd_order dd)(a \<mapsto> last_n dedup_window ?q)"
    unfolding q by (metis dedup.select_convs(2))
  then show ?thesis by (simp add: recent_of_def [of "fst (dedup_insert a i dd)"] recent_of_def [of dd b])
qed

lemma dedup_insert_seen:
  assumes "dedup_inv dd" "snd (dedup_insert a i dd)"
  shows "(b, j) \<in> dd_seen (fst (dedup_insert a i dd)) \<longleftrightarrow> j \<in> set (recent_of (fst (dedup_insert a i dd)) b)"
proof -
  have new: "i \<notin> set (recent_of dd a)" and seen: "\<And>b j. (b, j) \<in> dd_seen dd \<longleftrightarrow> j \<in> set (recent_of dd b)"
    and d: "distinct (recent_of dd a)" and le: "length (recent_of dd a) \<le> dedup_window"
    using assms by (auto simp: dedup_inv_def dedup_insert_def split: if_splits)
  note rec = recent_of_insert [OF assms(2) le]
  show ?thesis
  proof (cases "dedup_window < length (recent_of dd a @ [i])")
    case True
    then obtain x xs where r: "recent_of dd a = x # xs" using le by (cases "recent_of dd a") (auto simp: dedup_window_def)
    have "last_n dedup_window (recent_of dd a @ [i]) = xs @ [i]"
      using True le last_n_full [of "recent_of dd a" dedup_window i] by (simp add: r dedup_window_def)
    moreover have "dd_seen (fst (dedup_insert a i dd)) = insert (a, i) (dd_seen dd) - {(a, x)}"
      using True new seen [of a i] by (simp add: dedup_insert_def Let_def r)
    ultimately show ?thesis using new d seen [of b j] r by (auto simp: rec)
  next
    case False
    then have "last_n dedup_window (recent_of dd a @ [i]) = recent_of dd a @ [i]" by (simp add: last_n_def)
    moreover have "dd_seen (fst (dedup_insert a i dd)) = insert (a, i) (dd_seen dd)"
      using False new seen [of a i] by (simp add: dedup_insert_def Let_def)
    ultimately show ?thesis using seen [of b j] by (auto simp: rec)
  qed
qed

lemma dedup_insert_inv:
  assumes "dedup_inv dd"
  shows "dedup_inv (fst (dedup_insert a i dd))"
proof (cases "snd (dedup_insert a i dd)")
  case True
  have new: "i \<notin> set (recent_of dd a)" and d: "\<And>b. distinct (recent_of dd b)" and le: "\<And>b. length (recent_of dd b) \<le> dedup_window"
    using assms True by (auto simp: dedup_inv_def dedup_insert_def split: if_splits)
  have "distinct (recent_of (fst (dedup_insert a i dd)) b) \<and> length (recent_of (fst (dedup_insert a i dd)) b) \<le> dedup_window" for b
    using distinct_drop [of "recent_of dd a @ [i]"] new d [of b] d [of a] le [of b]
    unfolding recent_of_insert [OF True le] last_n_def by (simp del: drop_append, linarith)
  then show ?thesis using dedup_insert_seen [OF assms True] by (simp add: dedup_inv_def)
next
  case False
  then have "fst (dedup_insert a i dd) = dd" by (auto simp: dedup_insert_def Let_def split: if_splits)
  then show ?thesis using assms by simp
qed

lemma window_of_insert:
  assumes "window_of dd hist"
  shows "snd (dedup_insert a i dd) = snd (history_insert a i hist)"
    and "window_of (fst (dedup_insert a i dd)) (fst (history_insert a i hist))"
proof -
  have inv: "dedup_inv dd" and r: "\<And>a. recent_of dd a = last_n dedup_window (hist a)" using assms by (simp_all add: window_of_def)
  show s: "snd (dedup_insert a i dd) = snd (history_insert a i hist)"
    using inv r by (auto simp: dedup_inv_def dedup_insert_def history_insert_def Let_def)
  show "window_of (fst (dedup_insert a i dd)) (fst (history_insert a i hist))"
  proof (cases "snd (dedup_insert a i dd)")
    case True
    have "fst (history_insert a i hist) = hist(a := hist a @ [i])"
      using True s by (auto simp: history_insert_def split: if_splits)
    moreover have "length (recent_of dd a) \<le> dedup_window" using inv by (simp add: dedup_inv_def)
    ultimately show ?thesis using dedup_insert_inv [OF inv, of a i] recent_of_insert [OF True]
      by (simp add: window_of_def r last_n_snoc dedup_window_def)
  next
    case False
    then have "fst (dedup_insert a i dd) = dd" "fst (history_insert a i hist) = hist"
      using s by (auto simp: dedup_insert_def history_insert_def Let_def split: if_splits)
    then show ?thesis using assms by simp
  qed
qed

fun insert_all :: "('s \<Rightarrow> account_id \<Rightarrow> u64 \<Rightarrow> 's \<times> bool) \<Rightarrow> (account_id \<times> u64) list \<Rightarrow> 's \<Rightarrow> bool list" where
  "insert_all f [] s = []"
| "insert_all f ((a, i) # ks) s = snd (f s a i) # insert_all f ks (fst (f s a i))"

lemma insert_all_window:
  "window_of dd hist \<Longrightarrow>
   insert_all (\<lambda>s a i. dedup_insert a i s) ks dd = insert_all (\<lambda>s a i. history_insert a i s) ks hist"
proof (induction ks arbitrary: dd hist)
  case (Cons k ks)
  then show ?case using window_of_insert [OF Cons.prems] by (cases k) auto
qed simp

lemma window_of_new: "window_of dedup_new (\<lambda>_. [])"
  by (simp add: window_of_def dedup_inv_def dedup_new_def recent_of_def last_n_def)

section \<open>Independence of the hash order\<close>

text \<open>Two results of a command that differ at most in the order of the events of the batch.\<close>

definition same_batch :: "event_batch option \<Rightarrow> event_batch option \<Rightarrow> bool" where
  "same_batch b b' \<longleftrightarrow> map_option (\<lambda>b. (batch_seq b, mset (batch_events b))) b =
     map_option (\<lambda>b. (batch_seq b, mset (batch_events b))) b'"

definition same_deltas :: "match_response \<Rightarrow> match_response \<Rightarrow> bool" where
  "same_deltas mr mr' \<longleftrightarrow> mr_order_id mr' = mr_order_id mr \<and> mr_trades mr' = mr_trades mr \<and>
     mr_updates mr' = mr_updates mr \<and> mr_taker_remaining mr' = mr_taker_remaining mr \<and>
     mset (mr_book_deltas mr') = mset (mr_book_deltas mr)"

lemma mset_drain: "is_drain d \<Longrightarrow> is_drain d' \<Longrightarrow> finite S \<Longrightarrow> mset (d S) = mset (d' S)"
  by (simp add: set_eq_iff_mset_eq_distinct [symmetric])

lemma take_dirty_same:
  "is_drain d \<Longrightarrow> is_drain d' \<Longrightarrow> finite (dirty_levels b) \<Longrightarrow>
   mset (snd (take_dirty_levels d b)) = mset (snd (take_dirty_levels d' b))"
  using mset_drain [of d d' "dirty_levels b"] by (simp add: take_dirty_levels_def)

lemma add_order_same:
  assumes "book_inv b" "is_drain d" "is_drain d'"
  shows "fst (add_order d' i a req b) = fst (add_order d i a req b)"
    and "same_deltas (snd (add_order d i a req b)) (snd (add_order d' i a req b))"
  using take_dirty_same [OF assms(3,2) finite_dirty_after [OF assms(1)]] by (simp_all add: add_order_eq same_deltas_def)

definition same_result ::
    "(engine \<times> (reject_reason + match_response)) option \<Rightarrow> (engine \<times> (reject_reason + match_response)) option \<Rightarrow> bool" where
  "same_result x y \<longleftrightarrow>
     (case (x, y) of
        (None, None) \<Rightarrow> True
      | (Some (e, Inl r), Some (e', Inl r')) \<Rightarrow> e' = e \<and> r' = r
      | (Some (e, Inr mr), Some (e', Inr mr')) \<Rightarrow> e' = e \<and> same_deltas mr mr'
      | _ \<Rightarrow> False)"

lemma same_result_Inl [simp]: "same_result (Some (e, Inl r)) (Some (e, Inl r))"
  by (simp add: same_result_def)

lemma place_order_same:
  assumes "books_ok e" "is_drain d" "is_drain d'"
  shows "same_result (place_order d a req e) (place_order d' a req e)"
proof -
  have "same_result (execute d a req (e\<lparr>eng_ledger := l\<rparr>)) (execute d' a req (e\<lparr>eng_ledger := l\<rparr>))" for l
  proof -
    let ?b = "book_for (e\<lparr>eng_ledger := l\<rparr>) (req_pair req)"
    have "?b = book_for e (req_pair req)" by (simp add: book_for_def)
    then have "book_inv ?b" using book_for_ok(1) [OF assms(1)] by simp
    note same = add_order_same [OF this assms(2,3), of "next_order_id e" a req]
    obtain b mr where x: "add_order d (next_order_id e) a req ?b = (b, mr)" by fastforce
    obtain mr' where y: "add_order d' (next_order_id e) a req ?b = (b, mr')"
      using same(1) x by (metis fst_conv prod.collapse)
    have same: "same_deltas mr mr'" using same(2) x y by simp
    then have t: "mr_trades mr' = mr_trades mr"
      and "release_surplus a req mr' k = release_surplus a req mr k" "release_unsold a req mr' k = release_unsold a req mr k" for k
      by (simp_all only: same_deltas_def release_surplus_def release_unsold_def)
    then show ?thesis using same
      by (cases "for_each (settle (req_pair req)) (mr_trades mr) l")
        (simp_all add: same_result_def execute_def Let_def x y split: sum.split prod.split)
  qed
  then show ?thesis
    by (simp add: place_order_def split: option.split sum.split prod.split)
qed

lemma cancel_same:
  assumes "books_ok e" "is_drain d" "is_drain d'"
  shows "case (engine_cancel_order d a req e, engine_cancel_order d' a req e) of
      ((e1, None), (e2, None)) \<Rightarrow> e2 = e1
    | ((e1, Some (p, m, ds)), (e2, Some (p', m', ds'))) \<Rightarrow> e2 = e1 \<and> p' = p \<and> m' = m \<and> mset ds' = mset ds
    | _ \<Rightarrow> False"
proof -
  have "mset (d S) = mset (d' S)" if "finite S" for S using mset_drain [OF assms(2,3) that] .
  then have "mset (snd (take_dirty_levels d' b)) = mset (snd (take_dirty_levels d b))" if "finite (dirty_levels b)" for b
    using that by (simp add: take_dirty_levels_def)
  moreover have "finite (dirty_levels b)" if "books e p = Some b" for p b
    using assms(1) that by (auto simp: books_ok_def book_inv_def)
  moreover have "fst (take_dirty_levels d' b) = fst (take_dirty_levels d b)" for b by (simp add: take_dirty_levels_def)
  ultimately show ?thesis
    by (auto simp: engine_cancel_order_def book_cancel_order_def Let_def case_prod_unfold set_level_sides(3)
        split: option.splits prod.splits)
qed

lemma mset_balance_events:
  "is_drain d \<Longrightarrow> is_drain d' \<Longrightarrow> finite S \<Longrightarrow> mset (balance_events (d S) l) = mset (balance_events (d' S) l)"
  using mset_drain [of d d' S] by (simp add: balance_events_def)

lemma apply_command_same:
  assumes "books_ok e" "is_drain d" "is_drain d'"
    and "apply_command d a cmd e = Some (e1, r1, evs1)" "apply_command d' a cmd e = Some (e2, r2, evs2)"
  shows "e2 = e1 \<and> r2 = r1 \<and> mset evs2 = mset evs1"
proof (cases cmd)
  case (Place req)
  have "same_result (place_order d a req e) (place_order d' a req e)" by (rule place_order_same [OF assms(1-3)])
  then show ?thesis using assms(4,5) Place
    by (auto simp: same_result_def same_deltas_def place_response_def place_events_def delta_events_def
        split: option.splits sum.splits prod.splits)
next
  case (Cancel req)
  show ?thesis using assms(4,5) cancel_same [OF assms(1-3), of a req] Cancel
    by (auto simp: cancel_events_def delta_events_def split: option.splits prod.splits)
next
  case (Deposit req)
  then show ?thesis using assms(4,5) by (auto split: prod.splits)
next
  case (Withdraw req)
  then show ?thesis using assms(4,5) by (auto split: prod.splits)
qed (use assms(4,5) in \<open>auto split: if_splits\<close>)

lemma finish_batch_same:
  assumes "dirty_ok (eng_ledger e)" "is_drain d" "is_drain d'" "mset evs' = mset evs"
  shows "\<exists>e1 b b'. finish_batch d e evs = Some (e1, b) \<and> finish_batch d' e evs' = Some (e1, b') \<and> same_batch b b'"
proof -
  let ?S = "ledger_dirty (eng_ledger e)"
  have ev: "mset (evs' @ balance_events (d' ?S) (eng_ledger e)) = mset (evs @ balance_events (d ?S) (eng_ledger e))"
    using assms mset_balance_events [OF assms(3,2), of ?S "eng_ledger e"] by (simp add: dirty_ok_def)
  then have "evs' @ balance_events (d' ?S) (eng_ledger e) = [] \<longleftrightarrow> evs @ balance_events (d ?S) (eng_ledger e) = []"
    by (metis mset_zero_iff)
  then show ?thesis using ev
    by (simp add: finish_batch_eq [OF assms(1,2)] finish_batch_eq [OF assms(1,3)] Let_def same_batch_def)
qed

lemma engine_apply_same:
  assumes "settled e" "roomy e" "unat (next_order_id e) + 1 < 2 ^ 64"
    and h: "is_drain (fst h)" "is_drain (snd h)" "is_drain (fst h')" "is_drain (snd h')"
  shows "\<exists>e1 r b b'. engine_apply h a i cmd e = Some (e1, r, b) \<and> engine_apply h' a i cmd e = Some (e1, r, b') \<and> same_batch b b'"
proof (cases "snd (dedup_insert a i (eng_dedup e))")
  case False
  then have "engine_apply h a i cmd e = Some (e, Duplicate, None)" "engine_apply h' a i cmd e = Some (e, Duplicate, None)"
    by (cases "dedup_insert a i (eng_dedup e)"; simp add: engine_apply_def)+
  then show ?thesis by (simp add: same_batch_def)
next
  case True
  define e0 where "e0 = e\<lparr>eng_dedup := fst (dedup_insert a i (eng_dedup e))\<rparr>"
  have inv: "engine_inv e0" using assms(1) engine_inv_cong [of e0 e] by (simp add: settled_def e0_def)
  moreover have "roomy e0" using assms(2) supply_of_cong [of e0 e] by (simp add: roomy_def e0_def)
  moreover have "unat (next_order_id e0) + 1 < 2 ^ 64" using assms(3) by (simp add: e0_def)
  ultimately obtain e1 r evs e1' r' evs' where c: "apply_command (fst h) a cmd e0 = Some (e1, r, evs)" "kept_by e0 e1"
    "apply_command (fst h') a cmd e0 = Some (e1', r', evs')"
    using apply_command_kept by metis
  then have same: "e1' = e1" "r' = r" "mset evs' = mset evs"
    using apply_command_same [OF _ h(1,3) c(1,3)] inv by (simp_all add: engine_inv_def)
  have "dirty_ok (eng_ledger e1)"
    using c(2) assms(1) dirty_ok_empty [of "eng_ledger e0"] by (simp add: kept_by_def settled_def tracked_def e0_def)
  from finish_batch_same [OF this h(2,4) same(3)] show ?thesis
    using True c(1,3) same(1,2) by (cases "dedup_insert a i (eng_dedup e)") (auto simp: engine_apply_def e0_def)
qed

section \<open>Runs\<close>

text \<open>An engine that can take \<open>n\<close> more commands without reaching the limits of \<open>u64\<close>.\<close>

definition safe_for :: "nat \<Rightarrow> engine \<Rightarrow> bool" where
  "safe_for n e \<longleftrightarrow> settled e \<and> unat (next_order_id e) + n < 2 ^ 64 \<and>
     (\<forall>c. supply_of e c + n * unat (deposit_ceiling (eng_limits e) c) < 2 ^ 64)"

lemma safe_for_roomy: "safe_for (Suc n) e \<Longrightarrow> settled e \<and> roomy e \<and> unat (next_order_id e) + 1 < 2 ^ 64"
proof -
  assume safe: "safe_for (Suc n) e"
  have "supply_of e c + unat (deposit_ceiling (eng_limits e) c) < 2 ^ 64" for c
  proof -
    have "supply_of e c + Suc n * unat (deposit_ceiling (eng_limits e) c) < 2 ^ 64" using safe by (simp add: safe_for_def)
    then show ?thesis by simp
  qed
  then show ?thesis using safe by (simp add: safe_for_def roomy_def)
qed

lemma safe_for_step:
  assumes "safe_for (Suc n) e" "is_drain (snd h)"
  obtains e' r b where "engine_apply h a i cmd e = Some (e', r, b)" "safe_for n e'"
proof -
  let ?ceil = "\<lambda>c. unat (deposit_ceiling (eng_limits e) c)"
  obtain e' r b where s: "engine_apply h a i cmd e = Some (e', r, b)" "settled e'"
    "\<And>c. supply_of e' c + outflow cmd r c = supply_of e c + inflow cmd r c" "\<And>c. inflow cmd r c \<le> ?ceil c"
    "eng_limits e' = eng_limits e" "unat (next_order_id e') \<le> unat (next_order_id e) + 1"
    using engine_apply_step [of e h] safe_for_roomy [OF assms(1)] assms(2) by metis
  have "supply_of e' c + n * ?ceil c < 2 ^ 64" for c
  proof -
    have "supply_of e c + Suc n * ?ceil c < 2 ^ 64" using assms(1) by (simp add: safe_for_def)
    then show ?thesis using s(3) [of c] s(4) [of c] by simp
  qed
  then have "safe_for n e'" using s(2,5,6) assms(1) by (simp add: safe_for_def)
  with s(1) show thesis by (rule that)
qed

lemma safe_for_new: "n \<le> 10 ^ 14 \<Longrightarrow> safe_for n engine_new"
proof -
  assume n: "n \<le> 10 ^ 14"
  have "unat (demo_deposit_ceiling c) \<le> 100000" for c by (cases c) simp_all
  then have "n * unat (demo_deposit_ceiling c) \<le> 10 ^ 14 * 100000" for c using n by (intro mult_le_mono)
  then have "n * unat (demo_deposit_ceiling c) < 2 ^ 64" for c by (rule le_less_trans) simp
  moreover have "eng_limits engine_new = limits_default" "next_order_id engine_new = 0" by (simp_all add: engine_new_def)
  ultimately show ?thesis using n by (simp add: safe_for_def limits_default_def)
qed

definition same_out :: "engine_out \<Rightarrow> engine_out \<Rightarrow> bool" where
  "same_out x y \<longleftrightarrow> fst x = fst y \<and> same_batch (snd x) (snd y)"

lemma engine_run_same:
  assumes "safe_for (length es) e" "hashing_ok es" "hashing_ok es'" "map snd es = map snd es'"
  shows "\<exists>e1 outs outs'. engine_run es e = Some (e1, outs) \<and> engine_run es' e = Some (e1, outs') \<and> list_all2 same_out outs outs'"
  using assms
proof (induction es arbitrary: es' e)
  case (Cons x es)
  obtain h a i cmd where x: "x = (h, a, i, cmd)" by (cases x) auto
  then obtain h' fs where y: "es' = (h', a, i, cmd) # fs" "map snd es = map snd fs" using Cons.prems(4) by (cases es') auto
  have safe: "safe_for (Suc (length es)) e" using Cons.prems(1) by simp
  obtain e1 r b b' where s: "engine_apply h a i cmd e = Some (e1, r, b)" "engine_apply h' a i cmd e = Some (e1, r, b')" "same_batch b b'"
    using engine_apply_same [of e h h' a i cmd] safe_for_roomy [OF safe] Cons.prems(2,3) by (auto simp: x y(1))
  moreover obtain e2 r2 b2 where "engine_apply h a i cmd e = Some (e2, r2, b2)" "safe_for (length es) e2"
    using safe_for_step [OF safe, of h a i cmd] Cons.prems(2) by (auto simp: x)
  ultimately have "safe_for (length es) e1" by simp
  then show ?case using Cons.IH [of e1 fs] Cons.prems(2,3) s y(2) by (auto simp: x y(1) same_out_def)
qed simp

section \<open>Numbering of the batches\<close>

definition emitted :: "engine_out list \<Rightarrow> event_batch list" where
  "emitted outs = List.map_filter snd outs"

lemma emitted_simps [simp]:
  "emitted [] = []" "emitted ((r, b) # outs) = (case b of None \<Rightarrow> emitted outs | Some x \<Rightarrow> x # emitted outs)"
  by (simp_all add: emitted_def map_filter_simps split: option.split)

lemma finish_batch_seq:
  "finish_batch d e evs = Some (e', b) \<Longrightarrow>
   (case b of None \<Rightarrow> next_seq e' = next_seq e
    | Some x \<Rightarrow> batch_seq x = next_seq e \<and> next_seq e' = next_seq e + 1 \<and> batch_events x \<noteq> [])"
  by (auto simp: finish_batch_def Let_def split: option.splits prod.splits if_splits)

lemma execute_next_seq: "execute d a req e = Some (e', r) \<Longrightarrow> next_seq e' = next_seq e"
  by (auto simp: execute_def Let_def case_prod_unfold split: option.splits sum.splits)

lemma place_order_next_seq: "place_order d a req e = Some (e', r) \<Longrightarrow> next_seq e' = next_seq e"
  by (auto simp: place_order_def split: option.splits sum.splits prod.splits dest: execute_next_seq)

lemma cancel_next_seq: "next_seq (fst (engine_cancel_order d a req e)) = next_seq e"
  by (auto simp: engine_cancel_order_def split: option.splits prod.splits)

lemma deposit_next_seq: "next_seq (fst (engine_deposit a req e)) = next_seq e"
  by (auto simp: engine_deposit_def split: option.splits prod.splits)

lemma apply_command_next_seq:
  assumes "apply_command d a cmd e = Some (e', r, evs)"
  shows "next_seq e' = next_seq e"
proof (cases cmd)
  case (Place req)
  then show ?thesis using assms by (auto split: option.splits sum.splits prod.splits dest: place_order_next_seq)
next
  case (Cancel req)
  then show ?thesis using assms cancel_next_seq [of d a req e] by (auto split: option.splits prod.splits)
next
  case (Deposit req)
  then show ?thesis using assms deposit_next_seq [of a req e] by (auto split: prod.splits)
qed (use assms in \<open>auto split: prod.splits if_splits\<close>)

lemma engine_apply_seq:
  assumes "engine_apply h a i cmd e = Some (e', r, b)"
  shows "case b of None \<Rightarrow> next_seq e' = next_seq e
    | Some x \<Rightarrow> batch_seq x = next_seq e \<and> next_seq e' = next_seq e + 1 \<and> batch_events x \<noteq> []"
proof (cases "dedup_insert a i (eng_dedup e)")
  case (Pair dd new)
  show ?thesis
  proof (cases new)
    case True
    then obtain e1 evs where c: "apply_command (fst h) a cmd (e\<lparr>eng_dedup := dd\<rparr>) = Some (e1, r, evs)"
      "finish_batch (snd h) e1 evs = Some (e', b)"
      using assms Pair by (auto simp: engine_apply_def split: option.splits prod.splits)
    show ?thesis using apply_command_next_seq [OF c(1)] finish_batch_seq [OF c(2)] by (simp split: option.splits)
  qed (use assms Pair in \<open>auto simp: engine_apply_def\<close>)
qed

lemma engine_run_seq:
  "engine_run es e = Some (e', outs) \<Longrightarrow>
   map batch_seq (emitted outs) = map (\<lambda>k. next_seq e + of_nat k) [0..<length (emitted outs)] \<and>
   next_seq e' = next_seq e + of_nat (length (emitted outs))"
proof (induction es e arbitrary: e' outs rule: engine_run.induct)
  case (2 h a i cmd es e)
  obtain e1 r b outs1 where s: "engine_apply h a i cmd e = Some (e1, r, b)" "engine_run es e1 = Some (e', outs1)"
    and outs: "outs = (r, b) # outs1" using 2(2) by (auto split: option.splits)
  have ih: "map batch_seq (emitted outs1) = map (\<lambda>k. next_seq e1 + of_nat k) [0..<length (emitted outs1)] \<and>
      next_seq e' = next_seq e1 + of_nat (length (emitted outs1))"
    using 2(1) [OF s(1) refl refl s(2)] .
  show ?case
  proof (cases b)
    case None
    then show ?thesis using ih engine_apply_seq [OF s(1)] by (simp add: outs)
  next
    case (Some x)
    have "map (\<lambda>k. next_seq e + of_nat k) [0..<Suc n] = next_seq e # map (\<lambda>k. next_seq e + 1 + of_nat k) [0..<n]" for n
      by (simp add: upt_conv_Cons map_Suc_upt [symmetric] o_def ac_simps del: upt_Suc map_Suc_upt)
    then show ?thesis using ih engine_apply_seq [OF s(1)] Some by (simp add: outs ac_simps del: upt_Suc)
  qed
qed simp

lemma hashing_ok_with:
  assumes "is_drain (fst h)" "is_drain (snd h)"
  shows "hashing_ok (map (\<lambda>(_, x). (h, x)) es)"
  using assms by (cases h) (auto simp: hashing_ok_def)

section \<open>The promises\<close>

text \<open>C16: the idempotency window does what an unbounded history would: whatever keys arrive, in
  whatever order, a key is refused exactly when it is among the last thousand keys accepted for
  its account.\<close>

theorem dedup_window_exact:
  "insert_all (\<lambda>s a i. dedup_insert a i s) ks dedup_new = insert_all (\<lambda>s a i. history_insert a i s) ks (\<lambda>_. [])"
  by (rule insert_all_window [OF window_of_new])

text \<open>A retried command is answered with \<open>Duplicate\<close> before it touches any state or emits any
  event.\<close>

lemma retry_changes_nothing:
  assumes "(a, i) \<in> dd_seen (eng_dedup e)"
  shows "engine_apply h a i cmd e = Some (e, Duplicate, None)"
  using assms by (simp add: engine_apply_def dedup_insert_def)

text \<open>C17: replay is deterministic. Two runs of the same commands, on processes whose hash sets
  iterate in different orders, end in the same state with the same responses, and their batches
  carry the same numbers and the same events up to their order within a batch.\<close>

theorem replay_is_deterministic:
  assumes "hashing_ok es" "hashing_ok es'" "map snd es = map snd es'" "length es \<le> 10 ^ 14"
    and "engine_run es engine_new = Some (e, outs)" "engine_run es' engine_new = Some (e', outs')"
  shows "e' = e \<and> map fst outs' = map fst outs \<and> list_all2 same_batch (map snd outs) (map snd outs')"
proof -
  obtain e1 o1 o2 where "engine_run es engine_new = Some (e1, o1)" "engine_run es' engine_new = Some (e1, o2)" "list_all2 same_out o1 o2"
    using engine_run_same [OF safe_for_new [OF assms(4)] assms(1-3)] by blast
  then have "e' = e" "list_all2 same_out outs outs'" using assms(5,6) by simp_all
  moreover have "list_all2 same_out xs ys \<Longrightarrow> map fst ys = map fst xs \<and> list_all2 same_batch (map snd xs) (map snd ys)" for xs ys
    by (induction rule: list_all2_induct) (auto simp: same_out_def)
  ultimately show ?thesis by blast
qed

theorem replay_is_deterministic_witness:
  "\<exists>e' outs'. engine_run (map (\<lambda>(h, x). ((rev \<circ> sorted_list_of_set, rev \<circ> sorted_list_of_set), x)) demo_log) engine_new = Some (e', outs') \<and>
     e' = demo_e7 \<and> map fst outs' = map fst demo_outs"
proof -
  let ?es = "map (\<lambda>(h, x). ((rev \<circ> sorted_list_of_set, rev \<circ> sorted_list_of_set), x)) demo_log"
  have ok: "hashing_ok ?es" by (rule hashing_ok_with) (simp_all add: is_drain_def)
  have same: "map snd demo_log = map snd ?es" by (simp add: case_prod_unfold)
  have len: "length ?es \<le> 10 ^ 14" using demo_hashing(2) by (simp only: length_map)
  obtain e' outs' where r: "engine_run ?es engine_new = Some (e', outs')"
    by (rule run_from_new [OF ok len])
  show ?thesis
    by (rule exI [of _ e'], rule exI [of _ outs'], rule conjI [OF r])
      (use replay_is_deterministic [OF demo_hashing(1) ok same demo_hashing(2) demo_run r] in \<open>simp only: simp_thms\<close>)
qed

lemma engine_run_batches: "engine_run es e = Some (e', outs) \<Longrightarrow> [] \<notin> set (map batch_events (emitted outs))"
proof (induction es e arbitrary: e' outs rule: engine_run.induct)
  case (2 h a i cmd es e)
  obtain e1 r b outs1 where s: "engine_apply h a i cmd e = Some (e1, r, b)" "engine_run es e1 = Some (e', outs1)"
    and outs: "outs = (r, b) # outs1" using 2(2) by (auto split: option.splits)
  have "[] \<notin> set (map batch_events (emitted outs1))" by (rule 2(1) [OF s(1) refl refl s(2)])
  then show ?case using engine_apply_seq [OF s(1)] by (auto simp: outs split: option.splits)
qed simp

text \<open>C18: batches are numbered consecutively: the sequence numbers of all batches emitted in a run
  are the engine's next number and its successors, without gap or repetition, and an empty batch
  is never emitted.\<close>

theorem batches_are_consecutive:
  assumes "engine_run es e = Some (e', outs)"
  shows "map batch_seq (emitted outs) = map (\<lambda>k. next_seq e + of_nat k) [0..<length (emitted outs)] \<and>
    next_seq e' = next_seq e + of_nat (length (emitted outs)) \<and> [] \<notin> set (map batch_events (emitted outs))"
  using engine_run_seq [OF assms] engine_run_batches [OF assms] by blast

theorem batches_are_consecutive_witness: "map batch_seq (emitted demo_outs) = [0, 1, 2, 3, 4, 5]"
proof -
  have "length (emitted demo_outs) = 6" by (simp add: demo_outs_def)
  then show ?thesis using batches_are_consecutive [OF demo_run] by (simp add: engine_new_def upt_rec)
qed

end
