(* ===== verification/Decimal.thy ===== *)
theory Decimal
  imports Market
begin

text \<open>
  The standard library's integer parsing and printing the code relies on: \<open>str::parse\<close> for \<open>u64\<close>,
  \<open>i64\<close> and \<open>i32\<close>, and \<open>Display\<close> of an unsigned integer. Parsing accepts an optional sign, at least one
  digit and nothing else, and fails on overflow; printing is inverted by parsing.
\<close>

definition digit :: "nat \<Rightarrow> char" where
  "digit k = char_of (48 + k)"

definition digit_val :: "char \<Rightarrow> nat option" where
  "digit_val c = (let k = of_char c :: nat in if 48 \<le> k \<and> k \<le> 57 then Some (k - 48) else None)"

fun dec_of_nat :: "nat \<Rightarrow> string" where
  "dec_of_nat n = (if n < 10 then [digit n] else dec_of_nat (n div 10) @ [digit (n mod 10)])"

declare dec_of_nat.simps [simp del]

text \<open>The value of a non-empty sequence of digits.\<close>

fun digits_val :: "nat \<Rightarrow> string \<Rightarrow> nat option" where
  "digits_val acc [] = Some acc"
| "digits_val acc (c # cs) = (case digit_val c of None \<Rightarrow> None | Some d \<Rightarrow> digits_val (10 * acc + d) cs)"

definition parse_digits :: "string \<Rightarrow> nat option" where
  "parse_digits s = (if s = [] then None else digits_val 0 s)"

definition parse_u64 :: "string \<Rightarrow> u64 option" where
  "parse_u64 s =
     (case parse_digits (case s of c # cs \<Rightarrow> (if c = CHR ''+'' then cs else s) | [] \<Rightarrow> []) of
        None \<Rightarrow> None
      | Some n \<Rightarrow> if n < 2 ^ 64 then Some (of_nat n) else None)"

text \<open>Signed parsing at a width: the value must lie in the type's range.\<close>

definition parse_signed :: "nat \<Rightarrow> string \<Rightarrow> int option" where
  "parse_signed width s =
     (case s of
        [] \<Rightarrow> None
      | c # cs \<Rightarrow>
          (let v = (if c = CHR ''-'' then map_option (\<lambda>n. - int n) (parse_digits cs)
                    else map_option int (parse_digits (if c = CHR ''+'' then cs else s)))
           in case v of
                None \<Rightarrow> None
              | Some i \<Rightarrow> if - (2 ^ (width - 1)) \<le> i \<and> i < 2 ^ (width - 1) then Some i else None))"

abbreviation parse_i64 :: "string \<Rightarrow> int option" where
  "parse_i64 \<equiv> parse_signed 64"

abbreviation parse_i32 :: "string \<Rightarrow> int option" where
  "parse_i32 \<equiv> parse_signed 32"

section \<open>Parsing inverts printing\<close>

lemma of_char_digit: "k < 10 \<Longrightarrow> of_char (digit k) = (48 + k :: nat)"
  by (simp add: digit_def)

lemma digit_val_digit [simp]: "k < 10 \<Longrightarrow> digit_val (digit k) = Some k"
  by (simp add: digit_val_def of_char_digit)

lemma digit_neq [simp]: "k < 10 \<Longrightarrow> digit k \<noteq> CHR ''-''" "k < 10 \<Longrightarrow> digit k \<noteq> CHR ''+''"
  using of_char_digit [of k] by auto

lemma dec_of_nat_digits: "set (dec_of_nat n) \<subseteq> digit ` {..<10}"
  by (induction n rule: dec_of_nat.induct) (subst dec_of_nat.simps, auto)

lemma dec_of_nat_not_Nil [simp]: "dec_of_nat n \<noteq> []"
  by (subst dec_of_nat.simps) simp

lemma dec_no_dash [simp]: "CHR ''-'' \<notin> set (dec_of_nat n)"
proof
  assume "CHR ''-'' \<in> set (dec_of_nat n)"
  then obtain k where "k < 10" "CHR ''-'' = digit k" using dec_of_nat_digits [of n] by blast
  then show False using digit_neq(1) [of k] by simp
qed

lemma dec_no_plus: "c # cs = dec_of_nat n \<Longrightarrow> c \<noteq> CHR ''+'' \<and> c \<noteq> CHR ''-''"
proof -
  assume "c # cs = dec_of_nat n"
  then have "c \<in> set (dec_of_nat n)" by (metis list.set_intros(1))
  then obtain k where "k < 10" "c = digit k" using dec_of_nat_digits [of n] by blast
  then show ?thesis using digit_neq [of k] by simp
qed

lemma digits_val_append:
  "digits_val acc (s @ t) = (case digits_val acc s of None \<Rightarrow> None | Some v \<Rightarrow> digits_val v t)"
  by (induction acc s rule: digits_val.induct) (auto split: option.splits)

lemma digits_val_dec: "digits_val 0 (dec_of_nat n) = Some n"
proof (induction n rule: dec_of_nat.induct)
  case (1 n)
  then show ?case by (subst dec_of_nat.simps) (simp add: digits_val_append)
qed

lemma parse_digits_dec [simp]: "parse_digits (dec_of_nat n) = Some n"
  by (simp add: parse_digits_def digits_val_dec)

lemma unsigned_part_dec:
  "(case dec_of_nat n of c # cs \<Rightarrow> (if c = CHR ''+'' then cs else dec_of_nat n) | [] \<Rightarrow> []) = dec_of_nat n"
  using dec_no_plus [of _ _ n] by (auto split: list.split)

lemma parse_u64_dec [simp]: "parse_u64 (dec_of_nat (unat x)) = Some x"
  by (simp add: parse_u64_def unsigned_part_dec)

lemma parse_signed_dec:
  assumes "n < 2 ^ (width - 1)"
  shows "parse_signed width (dec_of_nat n) = Some (int n)"
proof -
  obtain c cs where s: "dec_of_nat n = c # cs" by (cases "dec_of_nat n") auto
  have "c \<noteq> CHR ''+''" "c \<noteq> CHR ''-''" using dec_no_plus [of c cs n] s by auto
  moreover have "parse_digits (c # cs) = Some n" by (simp flip: s)
  moreover have "int n < 2 ^ (width - 1)" using of_nat_less_iff [of n "2 ^ (width - 1)", where 'a = int] assms by simp
  moreover have "- (2 ^ (width - 1)) \<le> int n" by (rule order_trans [of _ 0]) simp_all
  ultimately show ?thesis by (simp add: parse_signed_def s)
qed

lemma parse_digits_plain: "parse_digits s = Some n \<Longrightarrow> CHR ''-'' \<notin> set s"
proof -
  have "digits_val acc s = Some n \<Longrightarrow> CHR ''-'' \<notin> set s" for acc
    by (induction acc s rule: digits_val.induct) (auto simp: digit_val_def split: option.splits)
  then show "parse_digits s = Some n \<Longrightarrow> CHR ''-'' \<notin> set s" by (auto simp: parse_digits_def split: if_splits)
qed

end
