(* ===== verification/Json.thy ===== *)
theory Json
  imports BTree_Map Decimal "HOL-Library.Monad_Syntax"
begin

text \<open>
  The data model of \<open>serde_json\<close> as the \<open>derive\<close>s of the code use it: values, and how the standard types the
  messages and the engine are built from are written and read. A struct is an object with one entry per
  field; entries of other names are ignored, a missing or repeated one is an error. A type that can be written and read
  back is an interpretation of the locale \<open>serde\<close>. Of the documents \<open>serde\<close> accepts beyond those it writes (structs
  as arrays, unit variants as objects, fractional numbers) the readers here accept none.
\<close>

datatype json =
    JNull
  | JBool bool
  | JNum int
  | JStr string
  | JArr "json list"
  | JObj "(string \<times> json) list"

section \<open>Standard types\<close>

definition ser_u64 :: "u64 \<Rightarrow> json" where
  "ser_u64 x = JNum (uint x)"

definition de_u64 :: "json \<Rightarrow> u64 option" where
  "de_u64 j = (case j of JNum i \<Rightarrow> if 0 \<le> i \<and> i < 2 ^ 64 then Some (word_of_int i) else None | _ \<Rightarrow> None)"

definition de_bool :: "json \<Rightarrow> bool option" where
  "de_bool j = (case j of JBool b \<Rightarrow> Some b | _ \<Rightarrow> None)"

definition de_string :: "json \<Rightarrow> string option" where
  "de_string j = (case j of JStr s \<Rightarrow> Some s | _ \<Rightarrow> None)"

definition ser_unit :: "unit \<Rightarrow> json" where
  "ser_unit _ = JNull"

definition de_unit :: "json \<Rightarrow> unit option" where
  "de_unit j = (if j = JNull then Some () else None)"

definition ser_option :: "('a \<Rightarrow> json) \<Rightarrow> 'a option \<Rightarrow> json" where
  "ser_option ser x = (case x of None \<Rightarrow> JNull | Some y \<Rightarrow> ser y)"

definition de_option :: "(json \<Rightarrow> 'a option) \<Rightarrow> json \<Rightarrow> 'a option option" where
  "de_option de j = (if j = JNull then Some None else map_option Some (de j))"

definition ser_list :: "('a \<Rightarrow> json) \<Rightarrow> 'a list \<Rightarrow> json" where
  "ser_list ser xs = JArr (map ser xs)"

definition de_list :: "(json \<Rightarrow> 'a option) \<Rightarrow> json \<Rightarrow> 'a list option" where
  "de_list de j = (case j of JArr js \<Rightarrow> those (map de js) | _ \<Rightarrow> None)"

definition ser_pair_of :: "('a \<Rightarrow> json) \<Rightarrow> ('b \<Rightarrow> json) \<Rightarrow> 'a \<times> 'b \<Rightarrow> json" where
  "ser_pair_of ser_a ser_b x = JArr [ser_a (fst x), ser_b (snd x)]"

definition de_pair_of :: "(json \<Rightarrow> 'a option) \<Rightarrow> (json \<Rightarrow> 'b option) \<Rightarrow> json \<Rightarrow> ('a \<times> 'b) option" where
  "de_pair_of de_a de_b j =
     (case j of JArr [x, y] \<Rightarrow> do { a \<leftarrow> de_a x; b \<leftarrow> de_b y; Some (a, b) } | _ \<Rightarrow> None)"

text \<open>A hash set in its iteration order; reading inserts the elements.\<close>

definition ser_set :: "'a drain \<Rightarrow> ('a \<Rightarrow> json) \<Rightarrow> 'a set \<Rightarrow> json" where
  "ser_set d ser S = ser_list ser (d S)"

definition de_set :: "(json \<Rightarrow> 'a option) \<Rightarrow> json \<Rightarrow> 'a set option" where
  "de_set de j = map_option set (de_list de j)"

text \<open>Maps are objects whose names are the keys' texts: in hash order for a hash map, ascending for a BTree map.\<close>

definition de_entries :: "(string \<Rightarrow> 'k option) \<Rightarrow> (json \<Rightarrow> 'v option) \<Rightarrow> json \<Rightarrow> ('k \<times> 'v) list option" where
  "de_entries key_of de j =
     (case j of
        JObj fs \<Rightarrow> those (map (\<lambda>(s, x). do { k \<leftarrow> key_of s; v \<leftarrow> de x; Some (k, v) }) fs)
      | _ \<Rightarrow> None)"

definition ser_map :: "'k drain \<Rightarrow> ('k \<Rightarrow> string) \<Rightarrow> ('v \<Rightarrow> json) \<Rightarrow> ('k \<rightharpoonup> 'v) \<Rightarrow> json" where
  "ser_map d key ser m = JObj (map (\<lambda>k. (key k, ser (the (m k)))) (d (dom m)))"

definition de_map :: "(string \<Rightarrow> 'k option) \<Rightarrow> (json \<Rightarrow> 'v option) \<Rightarrow> json \<Rightarrow> ('k \<rightharpoonup> 'v) option" where
  "de_map key_of de j = map_option (\<lambda>kvs. fold (\<lambda>(k, v) m. m(k \<mapsto> v)) kvs Map.empty) (de_entries key_of de j)"

definition ser_btree :: "('k \<Rightarrow> string) \<Rightarrow> ('v \<Rightarrow> json) \<Rightarrow> ('k, 'v) btree_map \<Rightarrow> json" where
  "ser_btree key ser m = JObj (map (\<lambda>(k, v). (key k, ser v)) m)"

definition de_btree :: "(string \<Rightarrow> 'k::linorder option) \<Rightarrow> (json \<Rightarrow> 'v option) \<Rightarrow> json \<Rightarrow> ('k, 'v) btree_map option" where
  "de_btree key_of de j = map_option (\<lambda>kvs. fold (\<lambda>(k, v) m. bt_insert k v m) kvs []) (de_entries key_of de j)"

text \<open>Integer keys: the decimal form, without leading zeros.\<close>

definition key_u64 :: "u64 \<Rightarrow> string" where
  "key_u64 x = dec_of_nat (unat x)"

definition de_key_u64 :: "string \<Rightarrow> u64 option" where
  "de_key_u64 s =
     (case parse_digits s of
        None \<Rightarrow> None
      | Some n \<Rightarrow> if n < 2 ^ 64 \<and> dec_of_nat n = s then Some (of_nat n) else None)"

text \<open>Fields of a struct.\<close>

definition get_field :: "string \<Rightarrow> (json \<Rightarrow> 'a option) \<Rightarrow> (string \<times> json) list \<Rightarrow> 'a option" where
  "get_field name de fs = (case filter (\<lambda>(n, _). n = name) fs of [(_, x)] \<Rightarrow> de x | _ \<Rightarrow> None)"

text \<open>A field of type \<open>Option\<close> may be missing.\<close>

definition opt_field :: "string \<Rightarrow> (json \<Rightarrow> 'a option) \<Rightarrow> (string \<times> json) list \<Rightarrow> 'a option option" where
  "opt_field name de fs =
     (case filter (\<lambda>(n, _). n = name) fs of [] \<Rightarrow> Some None | [(_, x)] \<Rightarrow> de_option de x | _ \<Rightarrow> None)"

text \<open>A struct, and an enum variant with content.\<close>

definition de_struct :: "((string \<times> json) list \<Rightarrow> 'a option) \<Rightarrow> json \<Rightarrow> 'a option" where
  "de_struct f j = (case j of JObj fs \<Rightarrow> f fs | _ \<Rightarrow> None)"

definition variant :: "string \<Rightarrow> json \<Rightarrow> json" where
  "variant name x = JObj [(name, x)]"

definition de_result :: "(json \<Rightarrow> 'e option) \<Rightarrow> (json \<Rightarrow> 'a option) \<Rightarrow> json \<Rightarrow> ('e + 'a) option" where
  "de_result de_e de_a j =
     (case j of
        JObj [(n, x)] \<Rightarrow>
          if n = ''Ok'' then map_option Inr (de_a x)
          else if n = ''Err'' then map_option Inl (de_e x)
          else None
      | _ \<Rightarrow> None)"

definition ser_result :: "('e \<Rightarrow> json) \<Rightarrow> ('a \<Rightarrow> json) \<Rightarrow> 'e + 'a \<Rightarrow> json" where
  "ser_result ser_e ser_a r = (case r of Inr a \<Rightarrow> variant ''Ok'' (ser_a a) | Inl e \<Rightarrow> variant ''Err'' (ser_e e))"

section \<open>What can be read back\<close>

lemma those_map_Some: "(\<And>x. x \<in> set xs \<Longrightarrow> f x = Some (g x)) \<Longrightarrow> those (map f xs) = Some (map g xs)"
  by (induction xs) simp_all

lemma fold_upd_map_of: "distinct (map fst kvs) \<Longrightarrow> fold (\<lambda>(k, v) m. m(k \<mapsto> v)) kvs m0 = m0 ++ map_of kvs"
proof (induction kvs arbitrary: m0)
  case (Cons kv kvs)
  obtain k v where kv: "kv = (k, v)" by fastforce
  have "k \<notin> dom (map_of kvs)" using Cons.prems by (simp add: kv dom_map_of_conv_image_fst)
  then have "m0(k \<mapsto> v) ++ map_of kvs = m0 ++ (map_of kvs)(k \<mapsto> v)" by (simp add: map_add_upd_left)
  moreover have "fold (\<lambda>(k, v) m. m(k \<mapsto> v)) kvs (m0(k \<mapsto> v)) = m0(k \<mapsto> v) ++ map_of kvs"
    using Cons.prems by (intro Cons.IH) simp
  ultimately show ?case by (simp add: kv del: fun_upd_apply)
qed simp

lemma bt_insert_last: "\<forall>x \<in> set m. fst x < k \<Longrightarrow> bt_insert k v m = m @ [(k, v)]"
  by (induction m) auto

lemma fold_bt_insert: "bt_inv (m @ kvs) \<Longrightarrow> fold (\<lambda>(k, v) m. bt_insert k v m) kvs m = m @ kvs"
proof (induction kvs arbitrary: m)
  case (Cons kv kvs)
  obtain k v where kv: "kv = (k, v)" by fastforce
  have "\<forall>x \<in> set m. fst x < k" using Cons.prems by (auto simp: kv bt_inv_def sorted_wrt_append)
  then show ?case using Cons.IH [of "m @ [(k, v)]"] Cons.prems by (simp add: kv bt_insert_last)
qed simp

lemma de_key_u64_key [simp]: "de_key_u64 (key_u64 x) = Some x"
  by (simp add: de_key_u64_def key_u64_def)

text \<open>The interface: a writer, a reader, and the values that survive.\<close>

locale serde =
  fixes ser :: "'a \<Rightarrow> json"
    and de :: "json \<Rightarrow> 'a option"
    and good :: "'a \<Rightarrow> bool"
  assumes de_ser: "good x \<Longrightarrow> de (ser x) = Some x"
begin

lemma ser_inj: "good x \<Longrightarrow> good y \<Longrightarrow> ser x = ser y \<Longrightarrow> x = y"
  by (metis de_ser option.inject)

lemma list_back: "\<forall>x \<in> set xs. good x \<Longrightarrow> de_list de (ser_list ser xs) = Some xs"
  using those_map_Some [of xs "de \<circ> ser" id] by (simp add: de_list_def ser_list_def de_ser comp_def)

lemma option_back: "(\<And>x. ser x \<noteq> JNull) \<Longrightarrow> (\<forall>x \<in> set_option y. good x) \<Longrightarrow> de_option de (ser_option ser y) = Some y"
  by (cases y) (simp_all add: de_option_def ser_option_def de_ser)

lemma set_back: "is_drain d \<Longrightarrow> finite S \<Longrightarrow> \<forall>x \<in> S. good x \<Longrightarrow> de_set de (ser_set d ser S) = Some S"
  by (simp add: de_set_def ser_set_def list_back)

lemma entries_back:
  assumes "\<And>k v. (k, v) \<in> set kvs \<Longrightarrow> key_of (key k) = Some k \<and> good v"
  shows "de_entries key_of de (JObj (map (\<lambda>(k, v). (key k, ser v)) kvs)) = Some kvs"
proof -
  have "those (map ((\<lambda>(s, x). do { k \<leftarrow> key_of s; v \<leftarrow> de x; Some (k, v) }) \<circ> (\<lambda>(k, v). (key k, ser v))) kvs) = Some (map id kvs)"
    by (rule those_map_Some) (use assms in \<open>auto simp: de_ser\<close>)
  then show ?thesis by (simp add: de_entries_def)
qed

lemma btree_back:
  assumes "\<And>k. key_of (key k) = Some k" "bt_inv m" "\<forall>(k, v) \<in> set m. good v"
  shows "de_btree key_of de (ser_btree key ser m) = Some m"
proof -
  have "de_entries key_of de (ser_btree key ser m) = Some m"
    unfolding ser_btree_def by (rule entries_back) (use assms in auto)
  then show ?thesis using fold_bt_insert [of "[]" m] assms(2) by (simp add: de_btree_def)
qed

lemma map_back:
  assumes "\<And>k. key_of (key k) = Some k" "is_drain d" "finite (dom m)" "\<forall>v \<in> ran m. good v"
  shows "de_map key_of de (ser_map d key ser m) = Some m"
proof -
  let ?kvs = "map (\<lambda>k. (k, the (m k))) (d (dom m))"
  have js: "ser_map d key ser m = JObj (map (\<lambda>(k, v). (key k, ser v)) ?kvs)" by (simp add: ser_map_def comp_def)
  have kv: "key_of (key k) = Some k \<and> good v" if "(k, v) \<in> set ?kvs" for k v
    using that assms by (auto simp: ran_def)
  have "map_of ?kvs = m"
    using assms(2,3) by (intro ext) (auto simp: map_of_map_restrict restrict_map_def domIff)
  moreover have "distinct (map fst ?kvs)" using assms(2,3) by (simp add: comp_def)
  ultimately show ?thesis
    using entries_back [of ?kvs key_of key, OF kv] fold_upd_map_of [of ?kvs Map.empty] unfolding js de_map_def by simp
qed

end

interpretation u64_json: serde ser_u64 de_u64 "\<lambda>_. True"
  using uint_lt2p [where ?'a = 64] by unfold_locales (simp add: ser_u64_def de_u64_def)

interpretation bool_json: serde JBool de_bool "\<lambda>_. True"
  by unfold_locales (simp add: de_bool_def)

interpretation string_json: serde JStr de_string "\<lambda>_. True"
  by unfold_locales (simp add: de_string_def)

interpretation unit_json: serde ser_unit de_unit "\<lambda>_. True"
  by unfold_locales (simp add: ser_unit_def de_unit_def)

end
