(* ===== verification/Wire.thy ===== *)
theory Wire
  imports Json Messages
begin

text \<open>
  What the derived \<open>Serialize\<close> and \<open>Deserialize\<close> of the messages do (\<open>src/market.rs\<close>, \<open>src/error.rs\<close>, \<open>src/book.rs\<close>,
  \<open>src/command.rs\<close>, \<open>src/event.rs\<close>): the JSON values of the two streams and of the result channel. A unit variant is its
  name, any other variant an object with its name as the only entry. Every message is an interpretation of
  \<open>serde\<close>.
\<close>

section \<open>Enumerations and pairs\<close>

definition ser_currency :: "currency \<Rightarrow> json" where
  "ser_currency x = JStr (case x of USD \<Rightarrow> ''USD'' | SOL \<Rightarrow> ''SOL'')"

definition de_currency :: "json \<Rightarrow> currency option" where
  "de_currency j = Option.bind (de_string j) (\<lambda>s.
      if s = ''USD'' then Some USD
      else if s = ''SOL'' then Some SOL
      else None)"

interpretation currency_json: serde ser_currency de_currency "\<lambda>_. True"
  by unfold_locales (simp add: ser_currency_def de_currency_def de_string_def split: currency.split)

definition ser_side :: "side \<Rightarrow> json" where
  "ser_side x = JStr (case x of Bid \<Rightarrow> ''Bid'' | Ask \<Rightarrow> ''Ask'')"

definition de_side :: "json \<Rightarrow> side option" where
  "de_side j = Option.bind (de_string j) (\<lambda>s.
      if s = ''Bid'' then Some Bid
      else if s = ''Ask'' then Some Ask
      else None)"

interpretation side_json: serde ser_side de_side "\<lambda>_. True"
  by unfold_locales (simp add: ser_side_def de_side_def de_string_def split: side.split)

definition ser_order_type :: "order_type \<Rightarrow> json" where
  "ser_order_type x = JStr (case x of Market \<Rightarrow> ''Market'' | Limit \<Rightarrow> ''Limit'')"

definition de_order_type :: "json \<Rightarrow> order_type option" where
  "de_order_type j = Option.bind (de_string j) (\<lambda>s.
      if s = ''Market'' then Some Market
      else if s = ''Limit'' then Some Limit
      else None)"

interpretation order_type_json: serde ser_order_type de_order_type "\<lambda>_. True"
  by unfold_locales (simp add: ser_order_type_def de_order_type_def de_string_def split: order_type.split)

definition ser_order_status :: "order_status \<Rightarrow> json" where
  "ser_order_status x = JStr (case x of Open \<Rightarrow> ''Open'' | PartiallyFilled \<Rightarrow> ''PartiallyFilled'' | Filled \<Rightarrow> ''Filled'' | Cancelled \<Rightarrow> ''Cancelled'')"

definition de_order_status :: "json \<Rightarrow> order_status option" where
  "de_order_status j = Option.bind (de_string j) (\<lambda>s.
      if s = ''Open'' then Some Open
      else if s = ''PartiallyFilled'' then Some PartiallyFilled
      else if s = ''Filled'' then Some Filled
      else if s = ''Cancelled'' then Some Cancelled
      else None)"

interpretation order_status_json: serde ser_order_status de_order_status "\<lambda>_. True"
  by unfold_locales (simp add: ser_order_status_def de_order_status_def de_string_def split: order_status.split)

definition ser_reject_reason :: "reject_reason \<Rightarrow> json" where
  "ser_reject_reason x = JStr (case x of InsufficientFunds \<Rightarrow> ''InsufficientFunds'' | UnsupportedOrderType \<Rightarrow> ''UnsupportedOrderType'' | InvalidAmount \<Rightarrow> ''InvalidAmount'' | InvalidPair \<Rightarrow> ''InvalidPair'' | DepositLimitExceeded \<Rightarrow> ''DepositLimitExceeded'' | PriceOutOfBand \<Rightarrow> ''PriceOutOfBand'' | SelfTrade \<Rightarrow> ''SelfTrade'')"

definition de_reject_reason :: "json \<Rightarrow> reject_reason option" where
  "de_reject_reason j = Option.bind (de_string j) (\<lambda>s.
      if s = ''InsufficientFunds'' then Some InsufficientFunds
      else if s = ''UnsupportedOrderType'' then Some UnsupportedOrderType
      else if s = ''InvalidAmount'' then Some InvalidAmount
      else if s = ''InvalidPair'' then Some InvalidPair
      else if s = ''DepositLimitExceeded'' then Some DepositLimitExceeded
      else if s = ''PriceOutOfBand'' then Some PriceOutOfBand
      else if s = ''SelfTrade'' then Some SelfTrade
      else None)"

interpretation reject_reason_json: serde ser_reject_reason de_reject_reason "\<lambda>_. True"
  by unfold_locales (simp add: ser_reject_reason_def de_reject_reason_def de_string_def split: reject_reason.split)

text \<open>A pair goes through its text.\<close>

definition ser_pair :: "pair \<Rightarrow> json" where
  "ser_pair p = JStr (pair_display p)"

definition de_pair :: "json \<Rightarrow> pair option" where
  "de_pair j = Option.bind (de_string j) (\<lambda>s. case pair_try_from s of Inl _ \<Rightarrow> None | Inr p \<Rightarrow> Some p)"

interpretation pair_json: serde ser_pair de_pair "\<lambda>_. True"
  by unfold_locales (simp add: ser_pair_def de_pair_def de_string_def pair_try_from_iff [THEN iffD2])

lemmas struct_eval = de_struct_def get_field_def u64_json.de_ser bool_json.de_ser string_json.de_ser unit_json.de_ser currency_json.de_ser
  side_json.de_ser order_type_json.de_ser order_status_json.de_ser reject_reason_json.de_ser pair_json.de_ser

section \<open>Requests\<close>

definition ser_order_request :: "order_request \<Rightarrow> json" where
  "ser_order_request x = JObj
     [(''pair'', ser_pair (req_pair x)),
      (''order_type'', ser_order_type (req_type x)),
      (''side'', ser_side (req_side x)),
      (''price'', ser_u64 (req_price x)),
      (''size'', ser_u64 (req_size x))]"

definition de_order_request :: "json \<Rightarrow> order_request option" where
  "de_order_request = de_struct (\<lambda>fs. do {
     x0 \<leftarrow> get_field ''pair'' de_pair fs;
     x1 \<leftarrow> get_field ''order_type'' de_order_type fs;
     x2 \<leftarrow> get_field ''side'' de_side fs;
     x3 \<leftarrow> get_field ''price'' de_u64 fs;
     x4 \<leftarrow> get_field ''size'' de_u64 fs;
     Some \<lparr>req_pair = x0, req_type = x1, req_side = x2, req_price = x3, req_size = x4\<rparr>
   })"

interpretation order_request_json: serde ser_order_request de_order_request "\<lambda>_. True"
  by unfold_locales (simp add: ser_order_request_def de_order_request_def struct_eval)

definition ser_cancel_request :: "cancel_request \<Rightarrow> json" where
  "ser_cancel_request x = JObj
     [(''order_id'', ser_u64 (can_order_id x))]"

definition de_cancel_request :: "json \<Rightarrow> cancel_request option" where
  "de_cancel_request = de_struct (\<lambda>fs. do {
     x0 \<leftarrow> get_field ''order_id'' de_u64 fs;
     Some \<lparr>can_order_id = x0\<rparr>
   })"

interpretation cancel_request_json: serde ser_cancel_request de_cancel_request "\<lambda>_. True"
  by unfold_locales (simp add: ser_cancel_request_def de_cancel_request_def struct_eval)

definition ser_deposit_request :: "deposit_request \<Rightarrow> json" where
  "ser_deposit_request x = JObj
     [(''amount'', ser_u64 (dep_amount x)),
      (''currency'', ser_currency (dep_currency x))]"

definition de_deposit_request :: "json \<Rightarrow> deposit_request option" where
  "de_deposit_request = de_struct (\<lambda>fs. do {
     x0 \<leftarrow> get_field ''amount'' de_u64 fs;
     x1 \<leftarrow> get_field ''currency'' de_currency fs;
     Some \<lparr>dep_amount = x0, dep_currency = x1\<rparr>
   })"

interpretation deposit_request_json: serde ser_deposit_request de_deposit_request "\<lambda>_. True"
  by unfold_locales (simp add: ser_deposit_request_def de_deposit_request_def struct_eval)

definition ser_withdraw_request :: "withdraw_request \<Rightarrow> json" where
  "ser_withdraw_request x = JObj
     [(''amount'', ser_u64 (wd_amount x)),
      (''currency'', ser_currency (wd_currency x))]"

definition de_withdraw_request :: "json \<Rightarrow> withdraw_request option" where
  "de_withdraw_request = de_struct (\<lambda>fs. do {
     x0 \<leftarrow> get_field ''amount'' de_u64 fs;
     x1 \<leftarrow> get_field ''currency'' de_currency fs;
     Some \<lparr>wd_amount = x0, wd_currency = x1\<rparr>
   })"

interpretation withdraw_request_json: serde ser_withdraw_request de_withdraw_request "\<lambda>_. True"
  by unfold_locales (simp add: ser_withdraw_request_def de_withdraw_request_def struct_eval)

fun ser_command :: "command \<Rightarrow> json" where
  "ser_command (Place x) = variant ''Place'' (ser_order_request x)"
| "ser_command (Cancel x) = variant ''Cancel'' (ser_cancel_request x)"
| "ser_command (Deposit x) = variant ''Deposit'' (ser_deposit_request x)"
| "ser_command (Withdraw x) = variant ''Withdraw'' (ser_withdraw_request x)"
| "ser_command (ListPair x) = variant ''ListPair'' (ser_pair x)"
| "ser_command (DelistPair x) = variant ''DelistPair'' (ser_pair x)"

definition de_command :: "json \<Rightarrow> command option" where
  "de_command j =
     (case j of
        JObj [(n, x)] \<Rightarrow>
          if n = ''Place'' then map_option Place (de_order_request x)
          else if n = ''Cancel'' then map_option Cancel (de_cancel_request x)
          else if n = ''Deposit'' then map_option Deposit (de_deposit_request x)
          else if n = ''Withdraw'' then map_option Withdraw (de_withdraw_request x)
          else if n = ''ListPair'' then map_option ListPair (de_pair x)
          else if n = ''DelistPair'' then map_option DelistPair (de_pair x)
          else None
      | _ \<Rightarrow> None)"

interpretation command_json: serde ser_command de_command "\<lambda>_. True"
proof
  show "de_command (ser_command x) = Some x" for x
    by (cases x rule: ser_command.cases) (simp_all add: de_command_def variant_def order_request_json.de_ser cancel_request_json.de_ser deposit_request_json.de_ser withdraw_request_json.de_ser pair_json.de_ser)
qed

text \<open>Ids go through their text, by the \<open>uuid\<close> library.\<close>

definition ser_uuid :: "(uuid \<Rightarrow> string) \<Rightarrow> uuid \<Rightarrow> json" where
  "ser_uuid text i = JStr (text i)"

definition de_uuid :: "(string \<Rightarrow> uuid option) \<Rightarrow> json \<Rightarrow> uuid option" where
  "de_uuid of_text j = Option.bind (de_string j) of_text"

definition ser_command_envelope :: "(uuid \<Rightarrow> string) \<Rightarrow> command_envelope \<Rightarrow> json" where
  "ser_command_envelope text x = JObj
     [(''correlation_id'', ser_uuid text (env_correlation_id x)),
      (''account_id'', ser_u64 (env_account_id x)),
      (''client_order_id'', ser_u64 (env_client_order_id x)),
      (''command'', ser_command (env_command x))]"

definition de_command_envelope :: "(string \<Rightarrow> uuid option) \<Rightarrow> json \<Rightarrow> command_envelope option" where
  "de_command_envelope of_text = de_struct (\<lambda>fs. do {
     x0 \<leftarrow> get_field ''correlation_id'' (de_uuid of_text) fs;
     x1 \<leftarrow> get_field ''account_id'' de_u64 fs;
     x2 \<leftarrow> get_field ''client_order_id'' de_u64 fs;
     x3 \<leftarrow> get_field ''command'' de_command fs;
     Some \<lparr>env_correlation_id = x0, env_account_id = x1, env_client_order_id = x2, env_command = x3\<rparr>
   })"

section \<open>Responses\<close>

definition ser_place_order_response :: "place_order_response \<Rightarrow> json" where
  "ser_place_order_response x = JObj
     [(''order_id'', ser_u64 (por_order_id x)),
      (''filled_qty'', ser_u64 (por_filled_qty x)),
      (''total_cost'', ser_u64 (por_total_cost x))]"

definition de_place_order_response :: "json \<Rightarrow> place_order_response option" where
  "de_place_order_response = de_struct (\<lambda>fs. do {
     x0 \<leftarrow> get_field ''order_id'' de_u64 fs;
     x1 \<leftarrow> get_field ''filled_qty'' de_u64 fs;
     x2 \<leftarrow> get_field ''total_cost'' de_u64 fs;
     Some \<lparr>por_order_id = x0, por_filled_qty = x1, por_total_cost = x2\<rparr>
   })"

interpretation place_order_response_json: serde ser_place_order_response de_place_order_response "\<lambda>_. True"
  by unfold_locales (simp add: ser_place_order_response_def de_place_order_response_def struct_eval)

lemma result_back:
  assumes "\<And>x. de_e (ser_e x) = Some x" "\<And>x. de_a (ser_a x) = Some x"
  shows "de_result de_e de_a (ser_result ser_e ser_a r) = Some r"
  by (cases r) (simp_all add: de_result_def ser_result_def variant_def assms)

fun ser_command_response :: "command_response \<Rightarrow> json" where
  "ser_command_response (PlaceR r) = variant ''Place'' (ser_result ser_reject_reason ser_place_order_response r)"
| "ser_command_response (CancelR b) = variant ''Cancel'' (JBool b)"
| "ser_command_response (DepositR r) = variant ''Deposit'' (ser_result ser_reject_reason ser_u64 r)"
| "ser_command_response (WithdrawR r) = variant ''Withdraw'' (ser_result ser_reject_reason ser_unit r)"
| "ser_command_response (ListPairR r) = variant ''ListPair'' (ser_result ser_reject_reason JBool r)"
| "ser_command_response (DelistPairR b) = variant ''DelistPair'' (JBool b)"
| "ser_command_response Duplicate = JStr ''Duplicate''"

definition de_command_response :: "json \<Rightarrow> command_response option" where
  "de_command_response j =
     (case j of
        JObj [(n, x)] \<Rightarrow>
          if n = ''Place'' then map_option PlaceR (de_result de_reject_reason de_place_order_response x)
          else if n = ''Cancel'' then map_option CancelR (de_bool x)
          else if n = ''Deposit'' then map_option DepositR (de_result de_reject_reason de_u64 x)
          else if n = ''Withdraw'' then map_option WithdrawR (de_result de_reject_reason de_unit x)
          else if n = ''ListPair'' then map_option ListPairR (de_result de_reject_reason de_bool x)
          else if n = ''DelistPair'' then map_option DelistPairR (de_bool x)
          else None
      | JStr s \<Rightarrow> if s = ''Duplicate'' then Some Duplicate else None
      | _ \<Rightarrow> None)"

interpretation command_response_json: serde ser_command_response de_command_response "\<lambda>_. True"
proof
  show "de_command_response (ser_command_response x) = Some x" for x
    by (cases x rule: ser_command_response.cases) (simp_all add: de_command_response_def variant_def result_back reject_reason_json.de_ser place_order_response_json.de_ser bool_json.de_ser u64_json.de_ser unit_json.de_ser)
qed

definition ser_response_envelope :: "(uuid \<Rightarrow> string) \<Rightarrow> response_envelope \<Rightarrow> json" where
  "ser_response_envelope text x = JObj
     [(''correlation_id'', ser_uuid text (rsp_correlation_id x)),
      (''response'', ser_command_response (rsp_response x))]"

definition de_response_envelope :: "(string \<Rightarrow> uuid option) \<Rightarrow> json \<Rightarrow> response_envelope option" where
  "de_response_envelope of_text = de_struct (\<lambda>fs. do {
     x0 \<leftarrow> get_field ''correlation_id'' (de_uuid of_text) fs;
     x1 \<leftarrow> get_field ''response'' de_command_response fs;
     Some \<lparr>rsp_correlation_id = x0, rsp_response = x1\<rparr>
   })"

section \<open>Events\<close>

definition ser_trade :: "trade \<Rightarrow> json" where
  "ser_trade x = JObj
     [(''pair'', ser_pair (trd_pair x)),
      (''price'', ser_u64 (trd_price x)),
      (''qty'', ser_u64 (trd_qty x)),
      (''maker_id'', ser_u64 (trd_maker_id x)),
      (''taker_id'', ser_u64 (trd_taker_id x)),
      (''taker_side'', ser_side (trd_taker_side x)),
      (''maker_account'', ser_u64 (trd_maker_account x)),
      (''taker_account'', ser_u64 (trd_taker_account x))]"

definition de_trade :: "json \<Rightarrow> trade option" where
  "de_trade = de_struct (\<lambda>fs. do {
     x0 \<leftarrow> get_field ''pair'' de_pair fs;
     x1 \<leftarrow> get_field ''price'' de_u64 fs;
     x2 \<leftarrow> get_field ''qty'' de_u64 fs;
     x3 \<leftarrow> get_field ''maker_id'' de_u64 fs;
     x4 \<leftarrow> get_field ''taker_id'' de_u64 fs;
     x5 \<leftarrow> get_field ''taker_side'' de_side fs;
     x6 \<leftarrow> get_field ''maker_account'' de_u64 fs;
     x7 \<leftarrow> get_field ''taker_account'' de_u64 fs;
     Some \<lparr>trd_pair = x0, trd_price = x1, trd_qty = x2, trd_maker_id = x3, trd_taker_id = x4, trd_taker_side = x5, trd_maker_account = x6, trd_taker_account = x7\<rparr>
   })"

interpretation trade_json: serde ser_trade de_trade "\<lambda>_. True"
  by unfold_locales (simp add: ser_trade_def de_trade_def struct_eval)

fun ser_event :: "event \<Rightarrow> json" where
  "ser_event (Trade x) = variant ''Trade'' (ser_trade x)"
| "ser_event (BalanceChanged v0 v1 v2 v3) = variant ''BalanceChanged'' (JObj [(''account_id'', ser_u64 v0), (''currency'', ser_currency v1), (''available'', ser_u64 v2), (''reserved'', ser_u64 v3)])"
| "ser_event (OrderAccepted v0 v1 v2 v3 v4 v5 v6) = variant ''OrderAccepted'' (JObj [(''order_id'', ser_u64 v0), (''account_id'', ser_u64 v1), (''pair'', ser_pair v2), (''side'', ser_side v3), (''order_type'', ser_order_type v4), (''price'', ser_u64 v5), (''size'', ser_u64 v6)])"
| "ser_event (OrderCancelled v0) = variant ''OrderCancelled'' (JObj [(''order_id'', ser_u64 v0)])"
| "ser_event (OrderUpdated v0 v1 v2 v3 v4 v5) = variant ''OrderUpdated'' (JObj [(''order_id'', ser_u64 v0), (''account_id'', ser_u64 v1), (''pair'', ser_pair v2), (''filled_qty'', ser_u64 v3), (''remaining_qty'', ser_u64 v4), (''status'', ser_order_status v5)])"
| "ser_event (BookDelta v0 v1 v2 v3) = variant ''BookDelta'' (JObj [(''pair'', ser_pair v0), (''side'', ser_side v1), (''price'', ser_u64 v2), (''qty'', ser_u64 v3)])"

definition de_event :: "json \<Rightarrow> event option" where
  "de_event j =
     (case j of
        JObj [(n, x)] \<Rightarrow>
          if n = ''Trade'' then map_option Trade (de_trade x)
          else if n = ''BalanceChanged'' then de_struct (\<lambda>fs. do {
            v0 \<leftarrow> get_field ''account_id'' de_u64 fs;
            v1 \<leftarrow> get_field ''currency'' de_currency fs;
            v2 \<leftarrow> get_field ''available'' de_u64 fs;
            v3 \<leftarrow> get_field ''reserved'' de_u64 fs;
            Some (BalanceChanged v0 v1 v2 v3) }) x
          else if n = ''OrderAccepted'' then de_struct (\<lambda>fs. do {
            v0 \<leftarrow> get_field ''order_id'' de_u64 fs;
            v1 \<leftarrow> get_field ''account_id'' de_u64 fs;
            v2 \<leftarrow> get_field ''pair'' de_pair fs;
            v3 \<leftarrow> get_field ''side'' de_side fs;
            v4 \<leftarrow> get_field ''order_type'' de_order_type fs;
            v5 \<leftarrow> get_field ''price'' de_u64 fs;
            v6 \<leftarrow> get_field ''size'' de_u64 fs;
            Some (OrderAccepted v0 v1 v2 v3 v4 v5 v6) }) x
          else if n = ''OrderCancelled'' then de_struct (\<lambda>fs. do {
            v0 \<leftarrow> get_field ''order_id'' de_u64 fs;
            Some (OrderCancelled v0) }) x
          else if n = ''OrderUpdated'' then de_struct (\<lambda>fs. do {
            v0 \<leftarrow> get_field ''order_id'' de_u64 fs;
            v1 \<leftarrow> get_field ''account_id'' de_u64 fs;
            v2 \<leftarrow> get_field ''pair'' de_pair fs;
            v3 \<leftarrow> get_field ''filled_qty'' de_u64 fs;
            v4 \<leftarrow> get_field ''remaining_qty'' de_u64 fs;
            v5 \<leftarrow> get_field ''status'' de_order_status fs;
            Some (OrderUpdated v0 v1 v2 v3 v4 v5) }) x
          else if n = ''BookDelta'' then de_struct (\<lambda>fs. do {
            v0 \<leftarrow> get_field ''pair'' de_pair fs;
            v1 \<leftarrow> get_field ''side'' de_side fs;
            v2 \<leftarrow> get_field ''price'' de_u64 fs;
            v3 \<leftarrow> get_field ''qty'' de_u64 fs;
            Some (BookDelta v0 v1 v2 v3) }) x
          else None
      | _ \<Rightarrow> None)"

interpretation event_json: serde ser_event de_event "\<lambda>_. True"
proof
  show "de_event (ser_event x) = Some x" for x
    by (cases x rule: ser_event.cases) (simp_all add: de_event_def variant_def trade_json.de_ser struct_eval)
qed

definition ser_event_batch :: "event_batch \<Rightarrow> json" where
  "ser_event_batch x = JObj
     [(''seq'', ser_u64 (batch_seq x)),
      (''events'', ser_list ser_event (batch_events x))]"

definition de_event_batch :: "json \<Rightarrow> event_batch option" where
  "de_event_batch = de_struct (\<lambda>fs. do {
     x0 \<leftarrow> get_field ''seq'' de_u64 fs;
     x1 \<leftarrow> get_field ''events'' (de_list de_event) fs;
     Some \<lparr>batch_seq = x0, batch_events = x1\<rparr>
   })"

interpretation event_batch_json: serde ser_event_batch de_event_batch "\<lambda>_. True"
  by unfold_locales (simp add: ser_event_batch_def de_event_batch_def struct_eval event_json.list_back)

section \<open>The three channels\<close>

lemma envelopes_back:
  assumes "\<And>i. of_text (text i) = Some i"
  shows "de_command_envelope of_text (ser_command_envelope text env) = Some env"
    and "de_response_envelope of_text (ser_response_envelope text rsp) = Some rsp"
  by (simp_all add: de_command_envelope_def ser_command_envelope_def de_response_envelope_def ser_response_envelope_def ser_uuid_def de_uuid_def
      de_string_def assms command_json.de_ser command_response_json.de_ser struct_eval)

end
