(* ===== verification/Snapshot.thy ===== *)
theory Snapshot
  imports Decimal
begin

text \<open>
  \<open>src/snapshot.rs\<close>: the snapshot file and the stream ids it is anchored to. A save is the list of file
  system operations the code performs, one per byte written, so that a crash or an error between
  any two of them is a prefix of the list; \<open>serde_json\<close> is a pair of parameters, \<open>to_vec\<close> and
  \<open>from_slice\<close>.
\<close>

section \<open>Stream ids\<close>

definition parse_id :: "string \<Rightarrow> (u64 \<times> u64) option" where
  "parse_id i =
     (case split_once (CHR ''-'') i of
        None \<Rightarrow> None
      | Some (ms, sq) \<Rightarrow>
          (case parse_u64 ms of
             None \<Rightarrow> None
           | Some m \<Rightarrow> (case parse_u64 sq of None \<Rightarrow> None | Some s \<Rightarrow> Some (m, s))))"

definition earlier :: "string \<Rightarrow> string \<Rightarrow> string" where
  "earlier a b =
     (case (parse_id a, parse_id b) of
        (Some x, Some y) \<Rightarrow> if y < x then b else a
      | _ \<Rightarrow> a)"

text \<open>The form in which Redis writes the id of an entry.\<close>

definition stream_id :: "u64 \<times> u64 \<Rightarrow> string" where
  "stream_id = (\<lambda>(ms, sq). dec_of_nat (unat ms) @ ''-'' @ dec_of_nat (unat sq))"

lemma parse_stream_id [simp]: "parse_id (stream_id x) = Some x"
  by (cases x) (simp add: stream_id_def parse_id_def split_once_first)

section \<open>Paths and files\<close>

definition split_last :: "char \<Rightarrow> string \<Rightarrow> (string \<times> string) option" where
  "split_last c s = map_option (\<lambda>(a, b). (rev b, rev a)) (split_once c (rev s))"

definition parent_dir :: "string \<Rightarrow> string" where
  "parent_dir p = (case split_last (CHR ''/'') p of None \<Rightarrow> [] | Some (d, f) \<Rightarrow> d)"

definition file_name :: "string \<Rightarrow> string" where
  "file_name p = (case split_last (CHR ''/'') p of None \<Rightarrow> p | Some (d, f) \<Rightarrow> f)"

definition file_stem :: "string \<Rightarrow> string" where
  "file_stem f = (case split_last (CHR ''.'') f of None \<Rightarrow> f | Some (b, e) \<Rightarrow> if b = [] then f else b)"

definition with_extension :: "string \<Rightarrow> string \<Rightarrow> string" where
  "with_extension e p =
     take (length p - length (file_name p)) p @ file_stem (file_name p) @ ''.'' @ e"

type_synonym files = "string \<rightharpoonup> string"

datatype fs_op =
    CreateDirAll string
  | CreateFile string
  | AppendByte string char
  | SyncAll string
  | Rename string string

fun fs_step :: "fs_op \<Rightarrow> files \<Rightarrow> files" where
  "fs_step (CreateDirAll d) fs = fs"
| "fs_step (CreateFile p) fs = fs(p \<mapsto> [])"
| "fs_step (AppendByte p c) fs = fs(p \<mapsto> (case fs p of None \<Rightarrow> [c] | Some bs \<Rightarrow> bs @ [c]))"
| "fs_step (SyncAll p) fs = fs"
| "fs_step (Rename p q) fs = fs(q := fs p, p := None)"

section \<open>Snapshots\<close>

definition snapshot_version :: "32 word" where
  "snapshot_version = 1"

record 'a snapshot =
  sn_version :: "32 word"
  sn_last_id :: string
  sn_state :: 'a

record snapshot_config =
  cfg_path :: string
  cfg_every :: u64

definition config_from_env :: "(string \<rightharpoonup> string) \<Rightarrow> string \<Rightarrow> string \<Rightarrow> u64 \<Rightarrow> snapshot_config option" where
  "config_from_env env path_var every_var default_every =
     (case env path_var of
        None \<Rightarrow> None
      | Some p \<Rightarrow>
          if p = [] then None
          else
            (let every = (case env every_var of
                            None \<Rightarrow> default_every
                          | Some v \<Rightarrow>
                              (case parse_u64 v of
                                 None \<Rightarrow> default_every
                               | Some n \<Rightarrow> if n > 0 then n else default_every))
             in Some \<lparr>cfg_path = p, cfg_every = every\<rparr>))"

text \<open>The operations of \<open>save\<close>, and whether it can return \<open>Ok\<close>: it cannot when the state does not
  serialize.\<close>

definition save_ops ::
    "('a snapshot \<Rightarrow> string option) \<Rightarrow> string \<Rightarrow> string \<Rightarrow> 'a \<Rightarrow> fs_op list \<times> bool" where
  "save_ops to_vec path last_id state =
     (let tmp = with_extension ''tmp'' path
      in case to_vec \<lparr>sn_version = snapshot_version, sn_last_id = last_id, sn_state = state\<rparr> of
           None \<Rightarrow> ([CreateDirAll (parent_dir path), CreateFile tmp], False)
         | Some bytes \<Rightarrow>
             ([CreateDirAll (parent_dir path), CreateFile tmp] @ map (AppendByte tmp) bytes @
                [SyncAll tmp, Rename tmp path], True))"

text \<open>What \<open>save\<close> does when the first \<open>k\<close> operations succeed and the next one, if any, fails.\<close>

definition save ::
    "('a snapshot \<Rightarrow> string option) \<Rightarrow> nat \<Rightarrow> string \<Rightarrow> string \<Rightarrow> 'a \<Rightarrow> fs_op list \<times> bool" where
  "save to_vec k path last_id state =
     (case save_ops to_vec path last_id state of (ops, ok) \<Rightarrow> (take k ops, ok \<and> length ops \<le> k))"

definition load :: "(string \<Rightarrow> 'a snapshot option) \<Rightarrow> string \<Rightarrow> files \<Rightarrow> 'a snapshot option" where
  "load from_slice path fs =
     (case fs path of
        None \<Rightarrow> None
      | Some bytes \<Rightarrow>
          (case from_slice bytes of
             None \<Rightarrow> None
           | Some sn \<Rightarrow> if sn_version sn \<noteq> snapshot_version then None else Some sn))"

section \<open>A save is atomic\<close>

text \<open>What the code relies on of \<open>serde_json\<close>: reading back a written snapshot gives it again, with the
  fields that are not serialized reset by \<open>norm\<close>.\<close>

definition serde_roundtrip :: "('a snapshot \<Rightarrow> string option) \<Rightarrow> (string \<Rightarrow> 'a snapshot option) \<Rightarrow> ('a \<Rightarrow> 'a) \<Rightarrow> bool" where
  "serde_roundtrip to_vec from_slice norm \<longleftrightarrow>
     (\<forall>sn bytes. to_vec sn = Some bytes \<longrightarrow> from_slice bytes = Some (sn\<lparr>sn_state := norm (sn_state sn)\<rparr>))"

fun op_touches :: "fs_op \<Rightarrow> string set" where
  "op_touches (CreateDirAll d) = {}"
| "op_touches (CreateFile p) = {p}"
| "op_touches (AppendByte p c) = {p}"
| "op_touches (SyncAll p) = {}"
| "op_touches (Rename p q) = {p, q}"

lemma fs_step_other: "q \<notin> op_touches op \<Longrightarrow> fs_step op fs q = fs q"
  by (cases op) simp_all

lemma fs_steps_other: "\<forall>op \<in> set ops. q \<notin> op_touches op \<Longrightarrow> fold fs_step ops fs q = fs q"
  by (induction ops arbitrary: fs) (simp_all add: fs_step_other)

lemma fs_write: "fs p = Some ds \<Longrightarrow> fold fs_step (map (AppendByte p) bs) fs p = Some (ds @ bs)"
  by (induction bs arbitrary: fs ds) simp_all

lemma save_ops_last:
  assumes "save_ops to_vec path last_id state = (ops, ok)" "with_extension ''tmp'' path \<noteq> path"
  shows "if ok then \<exists>bytes. to_vec \<lparr>sn_version = snapshot_version, sn_last_id = last_id, sn_state = state\<rparr> = Some bytes \<and>
             ops \<noteq> [] \<and> (\<forall>op \<in> set (butlast ops). path \<notin> op_touches op) \<and> fold fs_step ops fs path = Some bytes
         else \<forall>op \<in> set ops. path \<notin> op_touches op"
proof (cases "to_vec \<lparr>sn_version = snapshot_version, sn_last_id = last_id, sn_state = state\<rparr>")
  case None
  then show ?thesis using assms by (auto simp: save_ops_def Let_def)
next
  case (Some bytes)
  let ?tmp = "with_extension ''tmp'' path"
  have ops: "ops = [CreateDirAll (parent_dir path), CreateFile ?tmp] @ map (AppendByte ?tmp) bytes @ [SyncAll ?tmp, Rename ?tmp path]"
    and ok: "ok" using assms(1) Some by (auto simp: save_ops_def Let_def)
  have "fold fs_step ops fs path = fold fs_step (map (AppendByte ?tmp) bytes) (fs(?tmp \<mapsto> [])) ?tmp"
    using assms(2) by (simp add: ops)
  also have "\<dots> = Some bytes" using fs_write [of "fs(?tmp \<mapsto> [])" ?tmp "[]" bytes] by simp
  finally have "fold fs_step ops fs path = Some bytes" .
  moreover have "butlast ops = [CreateDirAll (parent_dir path), CreateFile ?tmp] @ map (AppendByte ?tmp) bytes @ [SyncAll ?tmp]"
    by (simp add: ops butlast_append)
  then have "\<forall>op \<in> set (butlast ops). path \<notin> op_touches op" using assms(2) by auto
  ultimately show ?thesis using ok Some ops by simp
qed

lemma save_cut:
  assumes "save to_vec k path last_id state = (ops, ok)" "with_extension ''tmp'' path \<noteq> path" "serde_roundtrip to_vec from_slice norm"
  shows "load from_slice path (fold fs_step (take j ops) fs) =
    (if ok \<and> length ops \<le> j
     then Some \<lparr>sn_version = snapshot_version, sn_last_id = last_id, sn_state = norm state\<rparr>
     else load from_slice path fs)"
proof -
  obtain all ok' where a: "save_ops to_vec path last_id state = (all, ok')" by fastforce
  have ops: "ops = take k all" and ok: "ok \<longleftrightarrow> ok' \<and> length all \<le> k" using assms(1) by (auto simp: save_def a)
  show ?thesis
  proof (cases "ok \<and> length ops \<le> j")
    case True
    then have full: "take j ops = all" and ok': ok' using ok by (auto simp: ops)
    obtain bytes where b: "to_vec \<lparr>sn_version = snapshot_version, sn_last_id = last_id, sn_state = state\<rparr> = Some bytes"
      "fold fs_step all fs path = Some bytes" using save_ops_last [OF a assms(2), of fs] ok' by auto
    have "from_slice bytes = Some \<lparr>sn_version = snapshot_version, sn_last_id = last_id, sn_state = norm state\<rparr>"
      using assms(3) b(1) by (auto simp: serde_roundtrip_def)
    then show ?thesis using True full b(2) by (simp add: load_def)
  next
    case False
    have "\<forall>op \<in> set (take j ops). path \<notin> op_touches op"
    proof (cases ok')
      case True
      then have all: "all \<noteq> []" "\<forall>op \<in> set (butlast all). path \<notin> op_touches op" using save_ops_last [OF a assms(2), of fs] by auto
      have "min j k < length all" using False ok True by (auto simp: ops)
      then have "take j ops = take (min j k) (butlast all)" by (simp add: ops take_butlast)
      then show ?thesis using all(2) by (metis in_set_takeD)
    next
      case no: False
      then show ?thesis using save_ops_last [OF a assms(2), of fs] by (auto simp: ops dest!: in_set_takeD)
    qed
    then have "fold fs_step (take j ops) fs path = fs path" by (rule fs_steps_other)
    then show ?thesis using False by (auto simp: load_def)
  qed
qed

section \<open>The promises\<close>

text \<open>The furthest a stream with two readers can be trimmed is the numerically smaller of their
  positions: \<open>earlier\<close> of two printed stream ids is the printed minimum, whatever the digit counts.\<close>

lemma earlier_is_min: "earlier (stream_id x) (stream_id y) = stream_id (min x y)"
  by (auto simp: earlier_def min_def)

text \<open>C23: saving a snapshot is atomic. Whatever operation a save is interrupted at, a crash in the
  middle of the write included, loading gives the previous snapshot, and once it has completed the
  new one.\<close>

theorem save_is_atomic:
  assumes "save to_vec k path last_id state = (ops, ok)" "with_extension ''tmp'' path \<noteq> path" "serde_roundtrip to_vec from_slice norm"
  shows "load from_slice path (fold fs_step (take j ops) fs) =
    (if ok \<and> length ops \<le> j
     then Some \<lparr>sn_version = snapshot_version, sn_last_id = last_id, sn_state = norm state\<rparr>
     else load from_slice path fs)"
  by (rule save_cut [OF assms])

text \<open>A serializer for the witness: the id followed by one mark per unit of the state.\<close>

definition unary_to_vec :: "nat snapshot \<Rightarrow> string option" where
  "unary_to_vec sn =
     (if sn_version sn = 1 then Some (replicate (sn_state sn) (CHR ''#'') @ ''|'' @ sn_last_id sn) else None)"

definition unary_from_slice :: "string \<Rightarrow> nat snapshot option" where
  "unary_from_slice bs =
     map_option (\<lambda>(n, i). \<lparr>sn_version = 1, sn_last_id = i, sn_state = length n\<rparr>) (split_once (CHR ''|'') bs)"

lemma unary_roundtrip: "serde_roundtrip unary_to_vec unary_from_slice id"
proof -
  have "split_once (CHR ''|'') (replicate n (CHR ''#'') @ CHR ''|'' # i) = Some (replicate n (CHR ''#''), i)" for n i
    by (rule split_once_first) simp
  then show ?thesis by (auto simp: serde_roundtrip_def unary_to_vec_def unary_from_slice_def split: if_splits)
qed

theorem save_is_atomic_witness:
  "load unary_from_slice ''d/s.json'' (fold fs_step (take 9 (fst (save unary_to_vec 100 ''d/s.json'' ''7-0'' 2))) [''d/s.json'' \<mapsto> ''#|5-0''])
     = Some \<lparr>sn_version = 1, sn_last_id = ''5-0'', sn_state = 1\<rparr> \<and>
   load unary_from_slice ''d/s.json'' (fold fs_step (take 10 (fst (save unary_to_vec 100 ''d/s.json'' ''7-0'' 2))) [''d/s.json'' \<mapsto> ''#|5-0''])
     = Some \<lparr>sn_version = 1, sn_last_id = ''7-0'', sn_state = 2\<rparr>"
proof -
  have tmp: "with_extension ''tmp'' ''d/s.json'' \<noteq> ''d/s.json''"
    by (simp add: with_extension_def file_name_def file_stem_def split_last_def)
  obtain ops where s: "save unary_to_vec 100 ''d/s.json'' ''7-0'' 2 = (ops, True)" "length ops = 10"
    by (simp add: save_def save_ops_def Let_def unary_to_vec_def snapshot_version_def)
  show ?thesis
    using save_is_atomic [OF s(1) tmp unary_roundtrip, of 9] save_is_atomic [OF s(1) tmp unary_roundtrip, of 10] s
    by (simp add: snapshot_version_def) (simp add: load_def unary_from_slice_def snapshot_version_def)
qed

end
