(* ===== verification/Log_Replay.thy ===== *)
theory Log_Replay
  imports Snapshot
begin

text \<open>
  The pattern both long-running readers share: a state folded over the entries of a Redis stream, a
  snapshot of it on disk anchored at the id of the last entry folded in, and a stream whose front is
  trimmed on the strength of the snapshot. The locale \<open>log_machine\<close> states what a reader has to
  promise, and shows that resuming from the snapshot and the retained entries gives the state of
  the whole log. The engine runtime (\<open>src/runtime.rs\<close>) and the book projection
  (\<open>src/bin/api/book.rs\<close>) are its two instances.
\<close>

section \<open>Streams\<close>

text \<open>An entry: its id, and the value of its \<open>data\<close> field if it has one.\<close>

type_synonym stream_entry = "string \<times> string option"

text \<open>What \<open>XRANGE\<close> answers for a log of which the first \<open>t\<close> entries were trimmed: everything retained
  from \<open>-\<close>, and everything retained after an id for an exclusive start.\<close>

definition serves :: "(string \<Rightarrow> stream_entry list) \<Rightarrow> stream_entry list \<Rightarrow> nat \<Rightarrow> bool" where
  "serves xrange log t \<longleftrightarrow> xrange ''-'' = drop t log \<and>
     (\<forall>k < length log. xrange (''('' @ fst (log ! k)) = drop (max t (Suc k)) log)"

definition resume_from :: "'s snapshot option \<Rightarrow> string" where
  "resume_from sn = (case sn of None \<Rightarrow> ''-'' | Some s \<Rightarrow> ''('' @ sn_last_id s)"

section \<open>Machines driven by a log\<close>

locale log_machine =
  fixes init :: 's
    and advance :: "stream_entry \<Rightarrow> 's \<Rightarrow> 's \<Rightarrow> bool"
    and safe :: "nat \<Rightarrow> 's \<Rightarrow> bool"
    and norm :: "'s \<Rightarrow> 's"
  assumes safe_init: "n \<le> 10 ^ 14 \<Longrightarrow> safe n init"
    and advance_ex: "safe (Suc n) s \<Longrightarrow> \<exists>s'. advance x s s'"
    and advance_safe: "safe (Suc n) s \<Longrightarrow> advance x s s' \<Longrightarrow> safe n s'"
    and advance_det: "safe (Suc n) s \<Longrightarrow> advance x s s1 \<Longrightarrow> advance x s s2 \<Longrightarrow> s1 = s2"
    and norm_safe: "safe n s \<Longrightarrow> norm s = s"
begin

inductive run :: "stream_entry list \<Rightarrow> 's \<Rightarrow> 's \<Rightarrow> bool" where
  run_Nil: "run [] s s"
| run_Cons: "advance x s s1 \<Longrightarrow> run xs s1 s2 \<Longrightarrow> run (x # xs) s s2"

inductive_simps run_Nil_iff [simp]: "run [] s s'"
inductive_simps run_Cons_iff [simp]: "run (x # xs) s s'"

lemma run_append: "run (xs @ ys) s s' \<longleftrightarrow> (\<exists>s1. run xs s s1 \<and> run ys s1 s')"
  by (induction xs arbitrary: s) auto

lemma run_safe: "run xs s s' \<Longrightarrow> safe (length xs + n) s \<Longrightarrow> safe n s'"
proof (induction rule: run.induct)
  case (run_Cons x s s1 xs s2)
  then show ?case using advance_safe [of "length xs + n" s x s1] by simp
qed simp

lemma run_det: "run xs s s1 \<Longrightarrow> run xs s s2 \<Longrightarrow> safe (length xs) s \<Longrightarrow> s1 = s2"
proof (induction arbitrary: s2 rule: run.induct)
  case (run_Cons x s sa xs sb)
  obtain s' where s': "advance x s s'" "run xs s' s2" using run_Cons.prems(1) by auto
  have safe: "safe (Suc (length xs)) s" using run_Cons.prems(2) by simp
  then have "s' = sa" using advance_det run_Cons.hyps(1) s'(1) by blast
  then show ?case using run_Cons.IH s'(2) advance_safe [OF safe run_Cons.hyps(1)] by blast
qed simp

lemma run_ex: "safe (length xs) s \<Longrightarrow> \<exists>s'. run xs s s'"
proof (induction xs arbitrary: s)
  case (Cons x xs)
  then obtain s1 where s1: "advance x s s1" using advance_ex [of "length xs" s x] by auto
  then have "safe (length xs) s1" using Cons.prems advance_safe [of "length xs" s x s1] by simp
  then show ?case using Cons.IH [of s1] s1 by auto
qed (blast intro: run_Nil)

text \<open>The snapshot is the state after a prefix of the log, and only entries of that prefix, its
  last one excepted, may be gone from the stream.\<close>

definition durable :: "stream_entry list \<Rightarrow> nat \<Rightarrow> 's snapshot option \<Rightarrow> bool" where
  "durable log t sn \<longleftrightarrow> t \<le> length log \<and>
     (case sn of
        None \<Rightarrow> t = 0
      | Some s \<Rightarrow> \<exists>k < length log. t \<le> k \<and> sn_last_id s = fst (log ! k) \<and> run (take (Suc k) log) init (sn_state s))"

lemma durable_append: "durable log t sn \<Longrightarrow> durable (log @ xs) t sn"
proof (cases sn)
  case (Some s)
  assume "durable log t sn"
  then obtain k where "k < length log" "t \<le> k" "sn_last_id s = fst (log ! k)" "run (take (Suc k) log) init (sn_state s)"
    by (auto simp: durable_def Some)
  then show ?thesis by (auto simp: durable_def Some nth_append intro!: exI [of _ k])
qed (simp add: durable_def)

lemma durable_start [simp]: "durable [] 0 None"
  by (simp add: durable_def)

lemma durable_save:
  assumes "durable log t sn" "k < length log" "run (take (Suc k) log) init s" "length log \<le> 10 ^ 14" "t \<le> k"
  shows "durable log t (Some \<lparr>sn_version = v, sn_last_id = fst (log ! k), sn_state = norm s\<rparr>)"
proof -
  have "safe (length (take (Suc k) log) + 0) init" using assms(2,4) by (intro safe_init) simp
  then have "norm s = s" using run_safe [OF assms(3)] norm_safe by blast
  then show ?thesis using assms by (auto simp: durable_def)
qed

lemma durable_trim:
  assumes "durable log t (Some sn)" "distinct (map fst log)" "sn_last_id sn = fst (log ! k)" "k < length log" "t' \<le> k"
  shows "durable log t' (Some sn)"
proof -
  obtain j where j: "j < length log" "sn_last_id sn = fst (log ! j)" "run (take (Suc j) log) init (sn_state sn)"
    using assms(1) by (auto simp: durable_def)
  then have "map fst log ! j = map fst log ! k" using assms(3,4) by simp
  then have "j = k" using assms(2,4) j(1) nth_eq_iff_index_eq [of "map fst log" j k] by simp
  then show ?thesis using j assms(4,5) by (auto simp: durable_def)
qed

text \<open>The point of the log a snapshot stands for, and what is left to replay from there.\<close>

definition start_state :: "'s snapshot option \<Rightarrow> 's" where
  "start_state sn = (case sn of None \<Rightarrow> init | Some s \<Rightarrow> sn_state s)"

lemma durable_point:
  assumes "durable log t sn"
  obtains m where "m \<le> length log" "durable (take m log) t sn" "run (take m log) init (start_state sn)"
    "\<forall>xrange rest. serves xrange (log @ rest) t \<longrightarrow> xrange (resume_from sn) = drop m (log @ rest)"
proof (cases sn)
  case None
  show thesis by (rule that [of 0]) (use assms None in \<open>simp_all add: durable_def start_state_def serves_def resume_from_def\<close>)
next
  case (Some s)
  then obtain k where k: "k < length log" "t \<le> k" "sn_last_id s = fst (log ! k)" "run (take (Suc k) log) init (sn_state s)"
    using assms by (auto simp: durable_def)
  have "xrange (resume_from sn) = drop (Suc k) (log @ rest)" if sv: "serves xrange (log @ rest) t" for xrange rest
  proof -
    have "xrange (''('' @ fst ((log @ rest) ! k)) = drop (max t (Suc k)) (log @ rest)"
      using sv k(1) unfolding serves_def by simp
    then show ?thesis using k Some by (simp add: resume_from_def nth_append max_def)
  qed
  moreover have "durable (take (Suc k) log) t sn" using k Some by (auto simp: durable_def intro!: exI [of _ k])
  ultimately show thesis by (intro that [of "Suc k"]) (use k Some in \<open>simp_all add: start_state_def\<close>)
qed

lemma durable_resume:
  assumes "durable log t sn" "serves xrange log t" "run (xrange (resume_from sn)) (start_state sn) s'"
  shows "run log init s'"
proof -
  obtain m where m: "m \<le> length log" "durable (take m log) t sn" "run (take m log) init (start_state sn)"
    "\<forall>xrange rest. serves xrange (log @ rest) t \<longrightarrow> xrange (resume_from sn) = drop m (log @ rest)"
    by (rule durable_point [OF assms(1)])
  have "xrange (resume_from sn) = drop m log" using m(4) [rule_format, of xrange "[]"] assms(2) by simp
  then have "run (take m log @ drop m log) init s'" unfolding run_append using m(3) assms(3) by auto
  then show ?thesis by simp
qed

lemma durable_safe:
  assumes "durable log t sn" "serves xrange log t" "length log \<le> 10 ^ 14"
  shows "safe (length (xrange (resume_from sn))) (start_state sn)"
proof -
  obtain m where m: "m \<le> length log" "durable (take m log) t sn" "run (take m log) init (start_state sn)"
    "\<forall>xrange rest. serves xrange (log @ rest) t \<longrightarrow> xrange (resume_from sn) = drop m (log @ rest)"
    by (rule durable_point [OF assms(1)])
  have "xrange (resume_from sn) = drop m log" using m(4) [rule_format, of xrange "[]"] assms(2) by simp
  then show ?thesis using run_safe [OF m(3), of "length log - m"] safe_init [OF assms(3)] m(1) by simp
qed

end

end
