(* ===== verification/Runtime.thy ===== *)
theory Runtime
  imports Log_Replay Engine_Replay
begin

text \<open>
  \<open>src/runtime.rs\<close>: the engine process around the engine. \<open>recover\<close> restores a snapshot and replays
  the retained commands silently; \<open>run_engine\<close> then reads the \<open>commands\<close> stream in batches, applies each
  command, publishes its events and its response, acknowledges it, and every so often snapshots the
  engine and trims the stream. The model keeps each external call as an effect, in the order of the
  code, so that the process can stop between any two of them; Redis and \<open>serde_json\<close> are parameters.
\<close>

section \<open>The process\<close>

record codec =
  dec_command :: "string \<Rightarrow> command_envelope option"
  enc_batch :: "event_batch \<Rightarrow> string option"
  enc_response :: "response_envelope \<Rightarrow> string option"
  enc_state :: "engine snapshot \<Rightarrow> string option"
  dec_state :: "string \<Rightarrow> engine snapshot option"

datatype effect =
    XaddEvents string
  | PublishResult string
  | XackCommand string
  | DiskOp fs_op
  | TrimCommands string

text \<open>The command of an entry, if it has data that deserializes.\<close>

definition entry_command :: "codec \<Rightarrow> string option \<Rightarrow> command_envelope option" where
  "entry_command c data = (case data of None \<Rightarrow> None | Some d \<Rightarrow> dec_command c d)"

text \<open>The loop of \<open>recover\<close>: entries without a command are skipped, the others applied with their
  outcome discarded; the id of the last one applied is remembered. Hash iteration orders are the
  process's own.\<close>

fun replay_entries ::
    "codec \<Rightarrow> (string \<Rightarrow> hashing) \<Rightarrow> stream_entry list \<Rightarrow> engine \<Rightarrow> string option \<Rightarrow> (engine \<times> string option) option" where
  "replay_entries c hs [] e last_id = Some (e, last_id)"
| "replay_entries c hs ((i, data) # es) e last_id =
     (case entry_command c data of
        None \<Rightarrow> replay_entries c hs es e last_id
      | Some env \<Rightarrow>
          (case engine_apply (hs i) (env_account_id env) (env_client_order_id env) (env_command env) e of
             None \<Rightarrow> None
           | Some (e', resp, batch) \<Rightarrow> replay_entries c hs es e' (Some i)))"

definition restore :: "engine snapshot option \<Rightarrow> engine \<Rightarrow> engine" where
  "restore sn e = (case sn of None \<Rightarrow> e | Some s \<Rightarrow> (sn_state s)\<lparr>eng_limits := eng_limits e\<rparr>)"

definition recover ::
    "codec \<Rightarrow> snapshot_config option \<Rightarrow> (string \<Rightarrow> hashing) \<Rightarrow> (string \<Rightarrow> stream_entry list) \<Rightarrow> files \<Rightarrow> engine \<Rightarrow>
     (engine \<times> string option) option" where
  "recover c cfg hs xrange fs e =
     (let sn = (case cfg of None \<Rightarrow> None | Some s \<Rightarrow> load (dec_state c) (cfg_path s) fs)
      in replay_entries c hs (xrange (resume_from sn)) (restore sn e) None)"

record engine_proc =
  ep_engine :: engine
  ep_since_snapshot :: u64

text \<open>The end of the loop body: count the entry, and snapshot and trim when it is time. The first
  \<open>k\<close> operations of a save succeed.\<close>

definition maybe_snapshot ::
    "codec \<Rightarrow> snapshot_config option \<Rightarrow> nat \<Rightarrow> string \<Rightarrow> engine_proc \<Rightarrow> engine_proc \<times> effect list" where
  "maybe_snapshot c cfg k entry_id p =
     (let p1 = p\<lparr>ep_since_snapshot := ep_since_snapshot p + 1\<rparr>
      in case cfg of
           None \<Rightarrow> (p1, [])
         | Some s \<Rightarrow>
             if ep_since_snapshot p1 \<ge> cfg_every s
             then (case save (enc_state c) k (cfg_path s) entry_id (ep_engine p1) of
                     (ops, ok) \<Rightarrow>
                       (p1\<lparr>ep_since_snapshot := 0\<rparr>,
                        map DiskOp ops @ (if ok then [TrimCommands entry_id] else [])))
             else (p1, []))"

definition handle_entry ::
    "codec \<Rightarrow> snapshot_config option \<Rightarrow> hashing \<Rightarrow> nat \<Rightarrow> stream_entry \<Rightarrow> engine_proc \<Rightarrow>
     (engine_proc \<times> effect list) option" where
  "handle_entry c cfg h k = (\<lambda>(entry_id, data) p.
     (case entry_command c data of
        None \<Rightarrow> Some (p, [XackCommand entry_id])
      | Some env \<Rightarrow>
          (case engine_apply h (env_account_id env) (env_client_order_id env) (env_command env) (ep_engine p) of
             None \<Rightarrow> None
           | Some (e', response, batch) \<Rightarrow>
               (let p1 = p\<lparr>ep_engine := e'\<rparr>
                in case (case batch of None \<Rightarrow> Some [] | Some b \<Rightarrow> map_option (\<lambda>j. [XaddEvents j]) (enc_batch c b)) of
                     None \<Rightarrow> Some (p1, [XackCommand entry_id])
                   | Some emits \<Rightarrow>
                       (case enc_response c \<lparr>rsp_correlation_id = env_correlation_id env, rsp_response = response\<rparr> of
                          None \<Rightarrow> Some (p1, emits @ [XackCommand entry_id])
                        | Some resp_json \<Rightarrow>
                            (case maybe_snapshot c cfg k entry_id p1 of
                               (p2, saves) \<Rightarrow>
                                 Some (p2, emits @ [PublishResult resp_json, XackCommand entry_id] @ saves)))))))"

section \<open>The engine as a machine driven by its log\<close>

text \<open>The fields of the engine that are not serialized come back as their defaults.\<close>

definition serde_skip :: "engine \<Rightarrow> engine" where
  "serde_skip e =
     e\<lparr>books := (\<lambda>p. map_option (\<lambda>b. b\<lparr>dirty_levels := {}\<rparr>) (books e p)),
       eng_ledger := (eng_ledger e)\<lparr>ledger_dirty := {}\<rparr>,
       eng_limits := limits_default\<rparr>"

definition engine_safe :: "nat \<Rightarrow> engine \<Rightarrow> bool" where
  "engine_safe n e \<longleftrightarrow> safe_for n e \<and> eng_limits e = limits_default"

lemma serde_skip_settled:
  assumes "settled e" "eng_limits e = limits_default"
  shows "serde_skip e = e"
proof -
  have "map_option (\<lambda>b. b\<lparr>dirty_levels := {}\<rparr>) (books e p) = books e p" for p
  proof (cases "books e p")
    case (Some b)
    then have "dirty_levels b = {}" using assms(1)
      by (auto simp: settled_def engine_inv_def books_ok_def book_inv_def)
    then show ?thesis using Some by simp
  qed simp
  moreover have "ledger_dirty (eng_ledger e) = {}" using assms(1) by (simp add: settled_def)
  ultimately show ?thesis using assms(2) by (simp add: serde_skip_def)
qed

lemma serde_skip_safe: "engine_safe n e \<Longrightarrow> serde_skip e = e"
  by (simp add: engine_safe_def safe_for_def serde_skip_settled)

definition drains :: "hashing \<Rightarrow> bool" where
  "drains h \<longleftrightarrow> is_drain (fst h) \<and> is_drain (snd h)"

definition engine_advance :: "codec \<Rightarrow> stream_entry \<Rightarrow> engine \<Rightarrow> engine \<Rightarrow> bool" where
  "engine_advance c x e e' \<longleftrightarrow>
     (case entry_command c (snd x) of
        None \<Rightarrow> e' = e
      | Some env \<Rightarrow> \<exists>h r b. drains h \<and>
          engine_apply h (env_account_id env) (env_client_order_id env) (env_command env) e = Some (e', r, b))"

lemma advance_command:
  "entry_command c (snd x) = Some env \<Longrightarrow> drains h \<Longrightarrow>
   engine_apply h (env_account_id env) (env_client_order_id env) (env_command env) e = Some (e', r, b) \<Longrightarrow> engine_advance c x e e'"
  unfolding engine_advance_def option.case by (simp only: option.case) blast

lemma engine_safe_step:
  assumes "engine_safe (Suc n) e" "drains h"
  obtains e' r b where "engine_apply h a i cmd e = Some (e', r, b)" "engine_safe n e'"
proof -
  have safe: "safe_for (Suc n) e" using assms(1) by (simp add: engine_safe_def)
  have h: "is_drain (snd h)" using assms(2) by (simp add: drains_def)
  obtain e' r b where s: "engine_apply h a i cmd e = Some (e', r, b)" "safe_for n e'" by (rule safe_for_step [OF safe h])
  have "settled e" "roomy e" "unat (next_order_id e) + 1 < 2 ^ 64" using safe_for_roomy [OF safe] by simp_all
  then have "eng_limits e' = eng_limits e" by (rule engine_apply_step [OF _ _ _ h, where a = a and i = i and cmd = cmd]) (use s(1) in auto)
  then show thesis using that s assms(1) by (simp add: engine_safe_def)
qed

lemma engine_safe_Suc: "engine_safe (Suc n) e \<Longrightarrow> engine_safe n e"
proof -
  assume safe: "engine_safe (Suc n) e"
  have "supply_of e c + n * unat (deposit_ceiling (eng_limits e) c) < 2 ^ 64" for c
  proof -
    have "supply_of e c + Suc n * unat (deposit_ceiling (eng_limits e) c) < 2 ^ 64"
      using safe unfolding engine_safe_def safe_for_def by blast
    then show ?thesis by simp
  qed
  then show ?thesis using safe by (simp add: engine_safe_def safe_for_def)
qed

lemma drains_sorted: "drains sorted_hashing"
  by (simp add: drains_def sorted_hashing_def)

interpretation eng: log_machine engine_new "engine_advance c" engine_safe serde_skip for c
proof unfold_locales
  fix n e x e1 e2
  show "n \<le> 10 ^ 14 \<Longrightarrow> engine_safe n engine_new"
    using safe_for_new by (simp add: engine_safe_def) (simp add: engine_new_def)
  show "engine_safe n e \<Longrightarrow> serde_skip e = e" by (rule serde_skip_safe)
  assume safe: "engine_safe (Suc n) e"
  show "\<exists>e'. engine_advance c x e e'"
  proof (cases "entry_command c (snd x)")
    case (Some env)
    obtain e' r b where "engine_apply sorted_hashing (env_account_id env) (env_client_order_id env) (env_command env) e = Some (e', r, b)"
      by (rule engine_safe_step [OF safe drains_sorted])
    then show ?thesis using advance_command [OF Some drains_sorted] by blast
  qed (simp add: engine_advance_def)
  assume a1: "engine_advance c x e e1"
  show "engine_safe n e1"
  proof (cases "entry_command c (snd x)")
    case None
    then show ?thesis using a1 engine_safe_Suc [OF safe] by (simp add: engine_advance_def)
  next
    case (Some env)
    then obtain h r b where h: "drains h" "engine_apply h (env_account_id env) (env_client_order_id env) (env_command env) e = Some (e1, r, b)"
      using a1 by (auto simp: engine_advance_def)
    show ?thesis
      by (rule engine_safe_step [OF safe h(1), of "env_account_id env" "env_client_order_id env" "env_command env"]) (use h(2) in auto)
  qed
  assume a2: "engine_advance c x e e2"
  show "e1 = e2"
  proof (cases "entry_command c (snd x)")
    case None
    then show ?thesis using a1 a2 by (simp add: engine_advance_def)
  next
    case (Some env)
    then obtain h r b h' r' b' where "drains h" "engine_apply h (env_account_id env) (env_client_order_id env) (env_command env) e = Some (e1, r, b)"
      "drains h'" "engine_apply h' (env_account_id env) (env_client_order_id env) (env_command env) e = Some (e2, r', b')"
      using a1 a2 by (auto simp: engine_advance_def)
    moreover have "settled e" "roomy e" "unat (next_order_id e) + 1 < 2 ^ 64"
      using safe_for_roomy [of n e] safe by (simp_all add: engine_safe_def)
    ultimately show ?thesis
      using engine_apply_same [of e h h' "env_account_id env" "env_client_order_id env" "env_command env"] by (auto simp: drains_def)
  qed
qed

text \<open>Running the machine over a log is running the engine over the log's commands.\<close>

definition log_commands :: "codec \<Rightarrow> stream_entry list \<Rightarrow> log_entry list" where
  "log_commands c = List.map_filter (\<lambda>x. map_option
     (\<lambda>env. (sorted_hashing, env_account_id env, env_client_order_id env, env_command env)) (entry_command c (snd x)))"

lemma log_commands_simps [simp]:
  "log_commands c [] = []"
  "log_commands c (x # xs) = (case entry_command c (snd x) of None \<Rightarrow> log_commands c xs
     | Some env \<Rightarrow> (sorted_hashing, env_account_id env, env_client_order_id env, env_command env) # log_commands c xs)"
  by (simp_all add: log_commands_def map_filter_simps split: option.split)

lemma run_engine_log:
  assumes "eng.run c log e e'" "engine_safe (length log) e"
  shows "\<exists>outs. engine_run (log_commands c log) e = Some (e', outs)"
  using assms
proof (induction log arbitrary: e)
  case (Cons x log)
  then obtain e1 where e1: "engine_advance c x e e1" "eng.run c log e1 e'" by auto
  have safe: "engine_safe (Suc (length log)) e" using Cons.prems(2) by simp
  then have "engine_safe (length log) e1" using eng.advance_safe e1(1) by blast
  then obtain outs where ih: "engine_run (log_commands c log) e1 = Some (e', outs)" using Cons.IH e1(2) by blast
  show ?case
  proof (cases "entry_command c (snd x)")
    case None
    then show ?thesis using ih e1(1) by (auto simp: engine_advance_def)
  next
    case (Some env)
    obtain e2 r b where s: "engine_apply sorted_hashing (env_account_id env) (env_client_order_id env) (env_command env) e = Some (e2, r, b)"
      by (rule engine_safe_step [OF safe drains_sorted])
    then have "engine_advance c x e e2" by (rule advance_command [OF Some drains_sorted])
    then have "e2 = e1" using eng.advance_det [OF safe] e1(1) by blast
    then show ?thesis using s ih Some by simp
  qed
qed simp

end
