(* ===== verification/Engine_Service.thy ===== *)
theory Engine_Service
  imports Runtime
begin

text \<open>
  The engine process in its environment, as a step relation: clients append commands, the process
  boots by recovering, reads batches of entries, handles them, and performs the effects of handling
  one at a time; it can crash between any two steps, losing everything but the stream, the consumer
  group's cursor and the disk. The invariant is that at every moment the snapshot on disk and the
  retained entries determine the state of the whole log, so that recovery restores it exactly.
\<close>

section \<open>The service\<close>

record service =
  sv_log :: "stream_entry list"
  sv_trimmed :: nat
  sv_cursor :: nat
  sv_files :: files
  sv_events :: "string list"
  sv_results :: "string list"
  sv_acked :: "string list"
  sv_proc :: "(engine_proc \<times> stream_entry list \<times> effect list) option"

definition service_new :: service where
  "service_new = \<lparr>sv_log = [], sv_trimmed = 0, sv_cursor = 0, sv_files = Map.empty, sv_events = [], sv_results = [],
     sv_acked = [], sv_proc = None\<rparr>"

text \<open>Effects on the outside. A publication may get lost (its error is only printed); a trim removes
  entries before the given id, and may remove fewer.\<close>

inductive perform :: "effect \<Rightarrow> service \<Rightarrow> service \<Rightarrow> bool" where
  "perform (XaddEvents j) s (s\<lparr>sv_events := sv_events s @ [j]\<rparr>)"
| "perform (PublishResult j) s (s\<lparr>sv_results := sv_results s @ [j]\<rparr>)"
| "perform (PublishResult j) s s"
| "perform (XackCommand i) s (s\<lparr>sv_acked := sv_acked s @ [i]\<rparr>)"
| "perform (DiskOp op) s (s\<lparr>sv_files := fs_step op (sv_files s)\<rparr>)"
| "t = sv_trimmed s \<or> (\<exists>k < length (sv_log s). fst (sv_log s ! k) = i \<and> t \<le> k) \<Longrightarrow>
   perform (TrimCommands i) s (s\<lparr>sv_trimmed := t\<rparr>)"

inductive_cases performE: "perform eff s s'"

inductive service_step :: "codec \<Rightarrow> snapshot_config option \<Rightarrow> service \<Rightarrow> service \<Rightarrow> bool" for c cfg where
  append: "i \<notin> fst ` set (sv_log s) \<Longrightarrow> service_step c cfg s (s\<lparr>sv_log := sv_log s @ [(i, data)]\<rparr>)"
| boot: "sv_proc s = None \<Longrightarrow> serves xrange (sv_log s) (sv_trimmed s) \<Longrightarrow> (\<And>i. drains (hs i)) \<Longrightarrow>
    recover c cfg hs xrange (sv_files s) engine_new = Some (e, last_id) \<Longrightarrow>
    (case last_id of None \<Rightarrow> cur = sv_cursor s | Some i \<Rightarrow> \<exists>k < length (sv_log s). fst (sv_log s ! k) = i \<and> cur = Suc k) \<Longrightarrow>
    service_step c cfg s (s\<lparr>sv_cursor := cur, sv_proc := Some (\<lparr>ep_engine = e, ep_since_snapshot = 0\<rparr>, [], [])\<rparr>)"
| read: "sv_proc s = Some (p, [], []) \<Longrightarrow> entries = take 10 (drop (sv_cursor s) (sv_log s)) \<Longrightarrow>
    service_step c cfg s (s\<lparr>sv_cursor := sv_cursor s + length entries, sv_proc := Some (p, entries, [])\<rparr>)"
| handle: "sv_proc s = Some (p, x # q, []) \<Longrightarrow> drains h \<Longrightarrow> handle_entry c cfg h k x p = Some (p', effs) \<Longrightarrow>
    service_step c cfg s (s\<lparr>sv_proc := Some (p', q, effs)\<rparr>)"
| effect: "sv_proc s = Some (p, q, eff # effs) \<Longrightarrow> perform eff s s' \<Longrightarrow>
    service_step c cfg s (s'\<lparr>sv_proc := Some (p, q, effs)\<rparr>)"
| crash: "service_step c cfg s (s\<lparr>sv_proc := None\<rparr>)"

definition reachable :: "codec \<Rightarrow> snapshot_config option \<Rightarrow> service \<Rightarrow> bool" where
  "reachable c cfg s \<longleftrightarrow> (service_step c cfg)\<^sup>*\<^sup>* service_new s"

section \<open>The invariant\<close>

text \<open>What the code relies on of its environment: serialized engines read back, up to the skipped
  fields, and the snapshot's path is not its own temporary file.\<close>

definition codec_ok :: "codec \<Rightarrow> snapshot_config option \<Rightarrow> bool" where
  "codec_ok c cfg \<longleftrightarrow> serde_roundtrip (enc_state c) (dec_state c) serde_skip \<and>
     (case cfg of None \<Rightarrow> True | Some s \<Rightarrow> with_extension ''tmp'' (cfg_path s) \<noteq> cfg_path s)"

definition snap_on :: "codec \<Rightarrow> snapshot_config option \<Rightarrow> files \<Rightarrow> engine snapshot option" where
  "snap_on c cfg fs = (case cfg of None \<Rightarrow> None | Some s \<Rightarrow> load (dec_state c) (cfg_path s) fs)"

text \<open>Every prefix of the pending effects leaves a durable state.\<close>

fun effects_ok :: "codec \<Rightarrow> snapshot_config option \<Rightarrow> stream_entry list \<Rightarrow> effect list \<Rightarrow> nat \<Rightarrow> files \<Rightarrow> bool" where
  "effects_ok c cfg log [] t fs \<longleftrightarrow> eng.durable c log t (snap_on c cfg fs)"
| "effects_ok c cfg log (DiskOp op # effs) t fs \<longleftrightarrow>
     eng.durable c log t (snap_on c cfg fs) \<and> effects_ok c cfg log effs t (fs_step op fs)"
| "effects_ok c cfg log (TrimCommands i # effs) t fs \<longleftrightarrow>
     eng.durable c log t (snap_on c cfg fs) \<and> effects_ok c cfg log effs t fs \<and>
     (\<exists>k < length log. fst (log ! k) = i \<and> (\<forall>t' \<le> k. effects_ok c cfg log effs t' fs))"
| "effects_ok c cfg log (_ # effs) t fs \<longleftrightarrow> eng.durable c log t (snap_on c cfg fs) \<and> effects_ok c cfg log effs t fs"

lemma effects_ok_durable: "effects_ok c cfg log effs t fs \<Longrightarrow> eng.durable c log t (snap_on c cfg fs)"
  by (induction c cfg log effs t fs rule: effects_ok.induct) auto

lemma effects_ok_disk:
  assumes "\<forall>j. eng.durable c log t (snap_on c cfg (fold fs_step (take j ops) fs))" "effects_ok c cfg log effs t (fold fs_step ops fs)"
  shows "effects_ok c cfg log (map DiskOp ops @ effs) t fs"
  using assms
proof (induction ops arbitrary: fs)
  case (Cons op ops)
  have "eng.durable c log t (snap_on c cfg (fold fs_step (take j ops) (fs_step op fs)))" for j
    using Cons.prems(1) [rule_format, of "Suc j"] by simp
  then show ?case using Cons.IH [of "fs_step op fs"] Cons.prems(1) [rule_format, of 0] Cons.prems(2) by simp
qed simp

text \<open>The effects of one iteration, for the entry at position \<open>n\<close> of the log.\<close>

lemma saves_ok:
  assumes ok: "codec_ok c cfg" and len: "length log \<le> 10 ^ 14" "n < length log" and d: "distinct (map fst log)"
    and dur: "eng.durable c (take n log) t (snap_on c cfg fs)" and run: "eng.run c (take (Suc n) log) engine_new (ep_engine p)"
    and m: "maybe_snapshot c cfg k (fst (log ! n)) p = (p', effs)"
  shows "effects_ok c cfg (take (Suc n) log) effs t fs \<and> ep_engine p' = ep_engine p"
proof -
  let ?L = "take (Suc n) log"
  have L: "?L = take n log @ [log ! n]" "length ?L = Suc n" "?L ! n = log ! n" using len(2) by (simp_all add: take_Suc_conv_app_nth nth_append)
  have old: "eng.durable c ?L t (snap_on c cfg fs)" using eng.durable_append [OF dur] L(1) by simp
  have t: "t \<le> n" using dur by (simp add: eng.durable_def)
  show ?thesis
  proof (cases "effs = []")
    case True
    then show ?thesis using old m by (auto simp: maybe_snapshot_def Let_def split: option.splits if_splits prod.splits)
  next
    case False
    then obtain s where s: "cfg = Some s" using m by (auto simp: maybe_snapshot_def Let_def split: option.splits)
    obtain ops good where sv: "save (enc_state c) k (cfg_path s) (fst (log ! n)) (ep_engine p) = (ops, good)" by fastforce
    have effs: "effs = map DiskOp ops @ (if good then [TrimCommands (fst (log ! n))] else [])" and e: "ep_engine p' = ep_engine p"
      using m s sv False by (auto simp: maybe_snapshot_def Let_def split: if_splits)
    let ?new = "Some \<lparr>sn_version = snapshot_version, sn_last_id = fst (log ! n), sn_state = serde_skip (ep_engine p)\<rparr>"
    have cut: "snap_on c cfg (fold fs_step (take j ops) fs) = (if good \<and> length ops \<le> j then ?new else snap_on c cfg fs)" for j
      using save_cut [OF sv, of "dec_state c" serde_skip j fs] ok by (simp add: codec_ok_def snap_on_def s)
    have "eng.durable c ?L t (Some \<lparr>sn_version = snapshot_version, sn_last_id = fst (?L ! n), sn_state = serde_skip (ep_engine p)\<rparr>)"
      by (rule eng.durable_save [OF old]) (use run len t L in simp_all)
    then have new: "eng.durable c ?L t ?new" by (simp only: L(3))
    have trim: "eng.durable c ?L t' ?new" if "t' \<le> n" for t'
    proof -
      have "distinct (map fst ?L)" using d by (metis distinct_take take_map)
      then show ?thesis using eng.durable_trim [OF new, of n t'] that L by simp
    qed
    have "effects_ok c cfg ?L (if good then [TrimCommands (fst (log ! n))] else []) t (fold fs_step ops fs)"
      using cut [of "length ops"] new old trim L by (auto intro!: exI [of _ n])
    moreover have "\<forall>j. eng.durable c ?L t (snap_on c cfg (fold fs_step (take j ops) fs))" using cut new old by simp
    ultimately show ?thesis using effects_ok_disk effs e by blast
  qed
qed

lemma handle_ok:
  assumes ok: "codec_ok c cfg" and len: "length log \<le> 10 ^ 14" "n < length log" and d: "distinct (map fst log)"
    and dur: "eng.durable c (take n log) t (snap_on c cfg fs)" and run: "eng.run c (take n log) engine_new (ep_engine p)"
    and h: "drains h" "handle_entry c cfg h k (log ! n) p = Some (p', effs)"
  shows "eng.run c (take (Suc n) log) engine_new (ep_engine p') \<and> effects_ok c cfg (take (Suc n) log) effs t fs"
proof -
  have L: "take (Suc n) log = take n log @ [log ! n]" using len(2) by (simp add: take_Suc_conv_app_nth)
  have old: "eng.durable c (take (Suc n) log) t (snap_on c cfg fs)" using eng.durable_append [OF dur] L by simp
  have go: "eng.run c (take (Suc n) log) engine_new e" if "engine_advance c (log ! n) (ep_engine p) e" for e
    unfolding L eng.run_append using run that by auto
  show ?thesis
  proof (cases "entry_command c (snd (log ! n))")
    case None
    then have "engine_advance c (log ! n) (ep_engine p) (ep_engine p)" by (simp add: engine_advance_def)
    then show ?thesis using go h(2) None old by (auto simp: handle_entry_def split: prod.splits)
  next
    case (Some env)
    then obtain e' r b where a: "engine_apply h (env_account_id env) (env_client_order_id env) (env_command env) (ep_engine p) = Some (e', r, b)"
      using h(2) by (auto simp: handle_entry_def split: prod.splits option.splits)
    have run': "eng.run c (take (Suc n) log) engine_new e'" by (rule go [OF advance_command [OF Some h(1) a]])
    obtain p2 saves where m: "maybe_snapshot c cfg k (fst (log ! n)) (p\<lparr>ep_engine := e'\<rparr>) = (p2, saves)" by fastforce
    have sv: "effects_ok c cfg (take (Suc n) log) saves t fs" "ep_engine p2 = e'"
      using saves_ok [OF ok len d dur _ m] run' by simp_all
    show ?thesis using h(2) Some a m sv old run'
      by (auto simp: handle_entry_def Let_def split: prod.splits option.splits)
  qed
qed

section \<open>Recovery\<close>

lemma run_skipped: "\<forall>x \<in> set xs. entry_command c (snd x) = None \<Longrightarrow> eng.run c xs e e"
  by (induction xs) (auto simp: engine_advance_def)

lemma replay_entries_run:
  assumes "\<And>i. drains (hs i)" "replay_entries c hs es e last0 = Some (e', lid)"
  shows "eng.run c es e e' \<and> (\<exists>pre rest. es = pre @ rest \<and> (\<forall>x \<in> set rest. entry_command c (snd x) = None) \<and>
    (if pre = [] then lid = last0 else lid = Some (fst (last pre))))"
  using assms
proof (induction es arbitrary: e last0)
  case (Cons x es)
  obtain i data where x: "x = (i, data)" by (cases x)
  note IH = Cons.IH [OF assms(1)]
  show ?case
  proof (cases "entry_command c data")
    case None
    then obtain pre rest where "eng.run c es e e'" "es = pre @ rest" "\<forall>x \<in> set rest. entry_command c (snd x) = None"
      "if pre = [] then lid = last0 else lid = Some (fst (last pre))" using IH [of e last0] Cons.prems(2) by (auto simp: x)
    moreover from this have "eng.run c ((i, data) # es) e e'" using None by (simp add: x engine_advance_def)
    ultimately show ?thesis using None
      by (intro conjI exI [of _ "if pre = [] then [] else (i, data) # pre"] exI [of _ "if pre = [] then (i, data) # rest else rest"]) (auto simp: x)
  next
    case (Some env)
    obtain e1 r b where a: "engine_apply (hs i) (env_account_id env) (env_client_order_id env) (env_command env) e = Some (e1, r, b)"
      "replay_entries c hs es e1 (Some i) = Some (e', lid)" using Cons.prems(2) Some by (auto simp: x split: option.splits)
    have adv: "engine_advance c (i, data) e e1" by (rule advance_command [OF _ assms(1) a(1)]) (simp add: Some)
    obtain pre rest where "eng.run c es e1 e'" "es = pre @ rest" "\<forall>x \<in> set rest. entry_command c (snd x) = None"
      "if pre = [] then lid = Some i else lid = Some (fst (last pre))" using IH [OF a(2)] by blast
    then show ?thesis using adv by (intro conjI exI [of _ "(i, data) # pre"] exI [of _ rest]) (auto simp: x split: if_splits)
  qed
qed simp

lemma replay_entries_total:
  assumes "\<And>i. drains (hs i)" "engine_safe (length es) e"
  shows "\<exists>e' lid. replay_entries c hs es e last0 = Some (e', lid)"
  using assms(2)
proof (induction es arbitrary: e last0)
  case (Cons x es)
  obtain i data where x: "x = (i, data)" by (cases x)
  have safe: "engine_safe (Suc (length es)) e" using Cons.prems by simp
  show ?case
  proof (cases "entry_command c data")
    case None
    then show ?thesis using Cons.IH [OF engine_safe_Suc [OF safe]] by (simp add: x)
  next
    case (Some env)
    obtain e1 r b where "engine_apply (hs i) (env_account_id env) (env_client_order_id env) (env_command env) e = Some (e1, r, b)"
      "engine_safe (length es) e1" by (rule engine_safe_step [OF safe assms(1)])
    then show ?thesis using Cons.IH [of e1] Some by (simp add: x)
  qed
qed simp

lemma restore_start:
  assumes "eng.durable c log t sn" "length log \<le> 10 ^ 14"
  shows "restore sn engine_new = eng.start_state sn"
proof (cases sn)
  case None
  then show ?thesis by (simp add: restore_def eng.start_state_def)
next
  case (Some s)
  then obtain k where "k < length log" "eng.run c (take (Suc k) log) engine_new (sn_state s)" using assms(1) by (auto simp: eng.durable_def)
  moreover from this have "engine_safe (length (take (Suc k) log) + 0) engine_new" using assms(2) by (intro eng.safe_init) simp
  ultimately have "engine_safe 0 (sn_state s)" using eng.run_safe by blast
  then have "eng_limits (sn_state s) = eng_limits engine_new" by (simp add: engine_safe_def engine_new_def)
  then show ?thesis using Some by (simp add: restore_def eng.start_state_def)
qed

text \<open>Entries without a command at the end of a log do not matter.\<close>

lemma run_past_skipped:
  assumes "eng.run c (take m log) engine_new e0" "drop m log = pre @ rest" "eng.run c (pre @ rest) e0 e"
    and "\<forall>x \<in> set rest. entry_command c (snd x) = None" "length pre \<le> j" "length log \<le> 10 ^ 14"
  shows "eng.run c (take (m + j) log) engine_new e"
proof -
  obtain e1 where e1: "eng.run c pre e0 e1" "eng.run c rest e1 e" using assms(3) by (auto simp: eng.run_append)
  have log: "log = (take m log @ pre) @ rest" using assms(2) by (metis append.assoc append_take_drop_id)
  have "engine_safe (length (take m log @ pre) + length rest) engine_new"
    using eng.safe_init [OF assms(6)] by (subst (asm) log) (simp del: append_assoc)
  moreover have "eng.run c (take m log @ pre) engine_new e1" using assms(1) e1(1) by (auto simp: eng.run_append)
  ultimately have "engine_safe (length rest) e1" using eng.run_safe by blast
  then have "e1 = e" using eng.run_det [OF e1(2) run_skipped [OF assms(4)]] by simp
  moreover have "take (m + j) log = take m log @ pre @ take (j - length pre) rest" using assms(5) by (simp add: take_add assms(2))
  moreover have "eng.run c (take (j - length pre) rest) e e" using assms(4) by (intro run_skipped) (auto dest: in_set_takeD)
  ultimately show ?thesis using assms(1) e1(1) by (auto simp: eng.run_append)
qed

lemma index_of_last:
  assumes "distinct (map fst log)" "drop m log = pre @ rest" "pre \<noteq> []" "k < length log" "fst (log ! k) = fst (last pre)"
  shows "Suc k = m + length pre" "m + length pre \<le> length log"
proof -
  obtain ys y where pre: "pre = ys @ [y]" using assms(3) by (cases pre rule: rev_cases) auto
  have "length log - m = Suc (length ys) + length rest" using arg_cong [OF assms(2), of length] by (simp add: pre)
  then have pos: "m + length ys < length log" by arith
  have "log ! (m + length ys) = drop m log ! length ys" using pos by simp
  also have "\<dots> = y" by (simp add: assms(2) pre)
  finally have "map fst log ! k = map fst log ! (m + length ys)" using assms(4,5) pos by (simp add: pre)
  then have "k = m + length ys" using assms(1,4) pos nth_eq_iff_index_eq [of "map fst log" k "m + length ys"] by simp
  then show "Suc k = m + length pre" "m + length pre \<le> length log" using pos by (simp_all add: pre)
qed

text \<open>A recovery ends in the state of the whole log, with the cursor past its last command.\<close>

lemma recover_ok:
  assumes dur: "eng.durable c (take cur log) t (snap_on c cfg fs)" and len: "length log \<le> 10 ^ 14" "cur \<le> length log"
    and d: "distinct (map fst log)" and sv: "serves xrange log t" and hs: "\<And>i. drains (hs i)"
    and rec: "recover c cfg hs xrange fs engine_new = Some (e, lid)"
    and cur': "case lid of None \<Rightarrow> cur' = cur | Some i \<Rightarrow> \<exists>k < length log. fst (log ! k) = i \<and> cur' = Suc k"
  shows "cur' \<le> length log \<and> eng.run c (take cur' log) engine_new e \<and> eng.run c log engine_new e \<and>
    eng.durable c (take cur' log) t (snap_on c cfg fs)"
proof -
  let ?sn = "snap_on c cfg fs"
  have len': "length (take cur log) \<le> 10 ^ 14" using len(1) by simp
  obtain m where m: "m \<le> length (take cur log)" "eng.durable c (take m (take cur log)) t ?sn"
    "eng.run c (take m (take cur log)) engine_new (eng.start_state ?sn)"
    "\<forall>xrange rest. serves xrange (take cur log @ rest) t \<longrightarrow> xrange (resume_from ?sn) = drop m (take cur log @ rest)"
    by (rule eng.durable_point [OF dur])
  have es: "xrange (resume_from ?sn) = drop m log" using m(4) [rule_format, of xrange "drop cur log"] sv by simp
  have le: "m \<le> cur" using m(1) by simp
  then have m': "eng.durable c (take m log) t ?sn" "eng.run c (take m log) engine_new (eng.start_state ?sn)"
    using m(2,3) by (simp_all add: min_absorb1)
  have "replay_entries c hs (drop m log) (eng.start_state ?sn) None = Some (e, lid)"
    using rec restore_start [OF dur len'] by (simp add: recover_def Let_def es flip: snap_on_def)
  from replay_entries_run [OF hs this] obtain pre rest where r: "eng.run c (pre @ rest) (eng.start_state ?sn) e"
    "drop m log = pre @ rest" "\<forall>x \<in> set rest. entry_command c (snd x) = None"
    "if pre = [] then lid = None else lid = Some (fst (last pre))" by metis
  have at: "m \<le> cur'" "length pre \<le> cur' - m" "cur' \<le> length log"
    using cur' r(4) le len(2) index_of_last [OF d r(2)] by (auto split: if_splits)
  have "eng.run c (take m log @ pre @ rest) engine_new e" unfolding eng.run_append using m'(2) r(1) by (auto simp: eng.run_append)
  then have "eng.run c log engine_new e" by (simp flip: r(2))
  moreover have "eng.run c (take cur' log) engine_new e"
    using run_past_skipped [OF m'(2) r(2,1,3) at(2) len(1)] at(1) by simp
  moreover have "take cur' log = take m log @ drop m (take cur' log)"
    using append_take_drop_id [of m "take cur' log"] at(1) by (simp add: min_absorb1)
  then have "eng.durable c (take cur' log) t ?sn" using eng.durable_append [OF m'(1), of "drop m (take cur' log)"] by simp
  ultimately show ?thesis using at(3) by blast
qed

section \<open>Every step keeps the invariant\<close>

definition proc_ok :: "codec \<Rightarrow> snapshot_config option \<Rightarrow> service \<Rightarrow> nat \<Rightarrow> engine_proc \<Rightarrow> stream_entry list \<Rightarrow> effect list \<Rightarrow> bool" where
  "proc_ok c cfg s n p q effs \<longleftrightarrow> n + length q = sv_cursor s \<and> q = take (length q) (drop n (sv_log s)) \<and>
     eng.run c (take n (sv_log s)) engine_new (ep_engine p) \<and>
     effects_ok c cfg (take n (sv_log s)) effs (sv_trimmed s) (sv_files s)"

definition service_ok :: "codec \<Rightarrow> snapshot_config option \<Rightarrow> service \<Rightarrow> bool" where
  "service_ok c cfg s \<longleftrightarrow> (length (sv_log s) \<le> 10 ^ 14 \<longrightarrow>
     distinct (map fst (sv_log s)) \<and> sv_cursor s \<le> length (sv_log s) \<and>
     (case sv_proc s of
        None \<Rightarrow> eng.durable c (take (sv_cursor s) (sv_log s)) (sv_trimmed s) (snap_on c cfg (sv_files s))
      | Some (p, q, effs) \<Rightarrow> \<exists>n. proc_ok c cfg s n p q effs))"

lemma service_ok_new: "service_ok c cfg service_new"
  by (simp add: service_ok_def service_new_def snap_on_def load_def split: option.split)

lemma proc_ok_durable:
  assumes "proc_ok c cfg s n p q effs" "sv_cursor s \<le> length (sv_log s)"
  shows "eng.durable c (take (sv_cursor s) (sv_log s)) (sv_trimmed s) (snap_on c cfg (sv_files s))"
proof -
  have "take (sv_cursor s) (sv_log s) = take n (sv_log s) @ q"
    using assms by (metis proc_ok_def take_add)
  moreover have "eng.durable c (take n (sv_log s)) (sv_trimmed s) (snap_on c cfg (sv_files s))"
    using assms(1) effects_ok_durable unfolding proc_ok_def by blast
  ultimately show ?thesis using eng.durable_append by simp
qed

lemma step_append:
  assumes "service_ok c cfg s" "i \<notin> fst ` set (sv_log s)"
  shows "service_ok c cfg (s\<lparr>sv_log := sv_log s @ [(i, data)]\<rparr>)"
proof -
  have keep: "\<exists>n. proc_ok c cfg (s\<lparr>sv_log := sv_log s @ [(i, data)]\<rparr>) n p q effs"
    if "sv_cursor s \<le> length (sv_log s)" "\<exists>n. proc_ok c cfg s n p q effs" for p q effs
    using that by (auto simp: proc_ok_def)
  show ?thesis
  proof (cases "sv_proc s")
    case None
    then show ?thesis using assms by (auto simp: service_ok_def)
  next
    case (Some x)
    then show ?thesis using assms keep [of "fst x" "fst (snd x)" "snd (snd x)"] by (auto simp: service_ok_def split: prod.splits)
  qed
qed

lemma step_handle:
  assumes "codec_ok c cfg" "service_ok c cfg s" "sv_proc s = Some (p, x # q, [])" "drains h" "handle_entry c cfg h k x p = Some (p', effs)"
  shows "service_ok c cfg (s\<lparr>sv_proc := Some (p', q, effs)\<rparr>)"
proof -
  let ?log = "sv_log s"
  have "proc_ok c cfg (s\<lparr>sv_proc := Some (p', q, effs)\<rparr>) (Suc n) p' q effs"
    if len: "length ?log \<le> 10 ^ 14" "sv_cursor s \<le> length ?log" "distinct (map fst ?log)" and ok: "proc_ok c cfg s n p (x # q) []" for n
  proof -
    have n: "n < length ?log" using ok len(2) by (auto simp: proc_ok_def)
    have "x # q = take (Suc (length q)) (?log ! n # drop (Suc n) ?log)"
      using ok by (simp add: proc_ok_def Cons_nth_drop_Suc [OF n])
    then have x: "x = ?log ! n" "q = take (length q) (drop (Suc n) ?log)" by simp_all
    have "eng.durable c (take n ?log) (sv_trimmed s) (snap_on c cfg (sv_files s))" "eng.run c (take n ?log) engine_new (ep_engine p)"
      using ok by (simp_all add: proc_ok_def)
    from handle_ok [OF assms(1) len(1) n len(3) this assms(4) assms(5) [unfolded x(1)]] show ?thesis
      using ok x(2) by (simp add: proc_ok_def)
  qed
  then show ?thesis using assms(2,3) by (auto simp: service_ok_def)
qed

lemma step_effect:
  assumes "service_ok c cfg s" "sv_proc s = Some (p, q, eff # effs)" "perform eff s s'"
  shows "service_ok c cfg (s'\<lparr>sv_proc := Some (p, q, effs)\<rparr>)"
proof -
  have keep: "sv_log s' = sv_log s" "sv_cursor s' = sv_cursor s" using assms(3) by (auto elim!: performE)
  have "proc_ok c cfg s' n p q effs"
    if d: "distinct (map fst (sv_log s))" and ok: "proc_ok c cfg s n p q (eff # effs)" for n
    using assms(3)
  proof (cases rule: perform.cases)
    case t: (6 t i)
    let ?log = "sv_log s"
    obtain k where k: "k < length (take n ?log)" "fst (take n ?log ! k) = i"
      "\<forall>t' \<le> k. effects_ok c cfg (take n ?log) effs t' (sv_files s)"
      "effects_ok c cfg (take n ?log) effs (sv_trimmed s) (sv_files s)" using ok t(1) by (auto simp: proc_ok_def)
    have "t \<le> k" if "j < length ?log" "fst (?log ! j) = i" "t \<le> j" for j
    proof -
      have "map fst ?log ! j = map fst ?log ! k" using that k(1,2) by simp
      then have "j = k" using d that(1) k(1) nth_eq_iff_index_eq [of "map fst ?log" j k] by simp
      then show ?thesis using that by simp
    qed
    then show ?thesis using ok k(3,4) t by (auto simp: proc_ok_def)
  qed (use ok in \<open>auto simp: proc_ok_def\<close>)
  then have "proc_ok c cfg (s'\<lparr>sv_proc := Some (p, q, effs)\<rparr>) n p q effs"
    if "distinct (map fst (sv_log s))" "proc_ok c cfg s n p q (eff # effs)" for n
    using that by (simp add: proc_ok_def)
  then show ?thesis using assms(1,2) keep by (auto simp: service_ok_def)
qed

lemma step_boot:
  assumes "service_ok c cfg s" "sv_proc s = None" "serves xrange (sv_log s) (sv_trimmed s)" "\<And>i. drains (hs i)"
    and "recover c cfg hs xrange (sv_files s) engine_new = Some (e, lid)"
    and "case lid of None \<Rightarrow> cur = sv_cursor s | Some i \<Rightarrow> \<exists>k < length (sv_log s). fst (sv_log s ! k) = i \<and> cur = Suc k"
  shows "service_ok c cfg (s\<lparr>sv_cursor := cur, sv_proc := Some (\<lparr>ep_engine = e, ep_since_snapshot = 0\<rparr>, [], [])\<rparr>)"
  using assms(1,2) recover_ok [OF _ _ _ _ assms(3-6)]
  by (auto simp: service_ok_def proc_ok_def)

lemma step_read:
  assumes "service_ok c cfg s" "sv_proc s = Some (p, [], [])" "entries = take 10 (drop (sv_cursor s) (sv_log s))"
  shows "service_ok c cfg (s\<lparr>sv_cursor := sv_cursor s + length entries, sv_proc := Some (p, entries, [])\<rparr>)"
proof -
  have "entries = take (length entries) (drop (sv_cursor s) (sv_log s))" using assms(3) by (simp add: min_def)
  moreover have "length entries \<le> length (sv_log s) - sv_cursor s" by (simp add: assms(3))
  ultimately show ?thesis using assms(1,2) unfolding service_ok_def proc_ok_def by auto
qed

lemma step_crash: "service_ok c cfg s \<Longrightarrow> service_ok c cfg (s\<lparr>sv_proc := None\<rparr>)"
  using proc_ok_durable by (fastforce simp: service_ok_def split: option.splits)

lemma service_step_ok:
  assumes "codec_ok c cfg" "service_step c cfg s s'" "service_ok c cfg s"
  shows "service_ok c cfg s'"
  using assms(2,3)
proof (cases rule: service_step.cases)
  case (append i data)
  then show ?thesis using step_append assms(3) by simp
next
  case (boot xrange hs e lid cur)
  then show ?thesis using step_boot [OF assms(3) boot(2-6)] by simp
next
  case (read p entries)
  then show ?thesis using step_read [OF assms(3)] by simp
next
  case (handle p x q h k p' effs)
  then show ?thesis using step_handle [OF assms(1,3)] by simp
next
  case (effect p q eff effs s'')
  then show ?thesis using step_effect [OF assms(3)] by simp
next
  case crash
  then show ?thesis using step_crash assms(3) by simp
qed

lemma reachable_ok: "codec_ok c cfg \<Longrightarrow> reachable c cfg s \<Longrightarrow> service_ok c cfg s"
  unfolding reachable_def
  by (rotate_tac, induction rule: rtranclp_induct) (auto simp: service_ok_new service_step_ok)

section \<open>The promises\<close>

text \<open>The engine in memory is the engine that applied the log up to the read position, and recovery succeeds and ends in
  the state of the whole log. \<open>Engine_Codec\<close> instantiates the codec.\<close>

lemma engine_exact:
  assumes "codec_ok c cfg" "reachable c cfg s" "length (sv_log s) \<le> 10 ^ 14" "sv_proc s = Some (p, q, effs)"
  shows "\<exists>outs. engine_run (log_commands c (take (sv_cursor s - length q) (sv_log s))) engine_new = Some (ep_engine p, outs)"
proof -
  obtain n where n: "proc_ok c cfg s n p q effs" using reachable_ok [OF assms(1,2)] assms(3,4) by (auto simp: service_ok_def)
  then have "n = sv_cursor s - length q" "eng.run c (take n (sv_log s)) engine_new (ep_engine p)" unfolding proc_ok_def by auto
  moreover have "engine_safe (length (take n (sv_log s))) engine_new" using assms(3) by (intro eng.safe_init) simp
  ultimately show ?thesis using run_engine_log by blast
qed

lemma recovery_exact:
  assumes "codec_ok c cfg" "reachable c cfg s" "length (sv_log s) \<le> 10 ^ 14" "sv_proc s = None"
    and "serves xrange (sv_log s) (sv_trimmed s)" "\<And>i. drains (hs i)"
  shows "\<exists>e lid outs. recover c cfg hs xrange (sv_files s) engine_new = Some (e, lid) \<and>
    engine_run (log_commands c (sv_log s)) engine_new = Some (e, outs)"
proof -
  let ?sn = "snap_on c cfg (sv_files s)" and ?log = "sv_log s"
  have "eng.durable c (take (sv_cursor s) ?log) (sv_trimmed s) ?sn"
    using reachable_ok [OF assms(1,2)] assms(3,4) by (auto simp: service_ok_def)
  then have dur: "eng.durable c ?log (sv_trimmed s) ?sn" using eng.durable_append [of c _ _ _ "drop (sv_cursor s) ?log"] by fastforce
  have start: "restore ?sn engine_new = eng.start_state ?sn" by (rule restore_start [OF dur assms(3)])
  obtain e lid where r: "replay_entries c hs (xrange (resume_from ?sn)) (eng.start_state ?sn) None = Some (e, lid)"
    using replay_entries_total [of hs, OF assms(6) eng.durable_safe [OF dur assms(5,3)]] by blast
  have "eng.run c ?log engine_new e"
    using eng.durable_resume [OF dur assms(5)] replay_entries_run [of hs, OF assms(6) r] by blast
  moreover have "engine_safe (length ?log) engine_new" using assms(3) by (rule eng.safe_init)
  ultimately have "\<exists>outs. engine_run (log_commands c ?log) engine_new = Some (e, outs)" by (rule run_engine_log)
  then show ?thesis using r start by (simp add: recover_def Let_def flip: snap_on_def)
qed

section \<open>A session with one deposit\<close>

definition deposit_env :: command_envelope where
  "deposit_env = \<lparr>env_correlation_id = 1, env_account_id = 8, env_client_order_id = 0,
     env_command = Deposit \<lparr>dep_amount = 500, dep_currency = USD\<rparr>\<rparr>"

definition deposited :: engine where
  "deposited = engine_new\<lparr>next_seq := 1,
     eng_ledger := \<lparr>balances = [8 \<mapsto> [USD \<mapsto> \<lparr>available = 500, reserved = 0\<rparr>]], ledger_dirty = {}\<rparr>,
     eng_dedup := \<lparr>dd_seen = {(8, 0)}, dd_order = [8 \<mapsto> [0]]\<rparr>\<rparr>"

end
