(* ===== verification/Engine_Json.thy ===== *)
theory Engine_Json
  imports Wire Engine_Service
begin

text \<open>
  The serialized engine: what the derives on \<open>Engine\<close>, \<open>OrderBook\<close>, \<open>Ledger\<close>, \<open>Dedup\<close> and \<open>Snapshot\<close> write to the snapshot
  file and read from it. The fields marked \<open>serde(skip)\<close> (the two dirty sets and the limits) come back as defaults.
  The iteration orders of the hash containers are parameters; an engine that was run from the start comes
  back as it was. With them the codec that \<open>Runtime\<close> takes as a parameter is a definition, up to the text form of a JSON
  value, and satisfies what recovery relies on.
\<close>

section \<open>Orders and balances\<close>

definition ser_order :: "order \<Rightarrow> json" where
  "ser_order x = JObj
     [(''id'', ser_u64 (ord_id x)),
      (''order_type'', ser_order_type (ord_type x)),
      (''side'', ser_side (ord_side x)),
      (''price'', ser_u64 (ord_price x)),
      (''size'', ser_u64 (ord_size x)),
      (''remaining_size'', ser_u64 (ord_remaining x)),
      (''account_id'', ser_u64 (ord_account x))]"

definition de_order :: "json \<Rightarrow> order option" where
  "de_order = de_struct (\<lambda>fs. do {
     x0 \<leftarrow> get_field ''id'' de_u64 fs;
     x1 \<leftarrow> get_field ''order_type'' de_order_type fs;
     x2 \<leftarrow> get_field ''side'' de_side fs;
     x3 \<leftarrow> get_field ''price'' de_u64 fs;
     x4 \<leftarrow> get_field ''size'' de_u64 fs;
     x5 \<leftarrow> get_field ''remaining_size'' de_u64 fs;
     x6 \<leftarrow> get_field ''account_id'' de_u64 fs;
     Some \<lparr>ord_id = x0, ord_type = x1, ord_side = x2, ord_price = x3, ord_size = x4, ord_remaining = x5, ord_account = x6\<rparr>
   })"

interpretation order_json: serde ser_order de_order "\<lambda>_. True"
  by unfold_locales (simp add: ser_order_def de_order_def struct_eval)

definition ser_order_location :: "order_location \<Rightarrow> json" where
  "ser_order_location x = JObj
     [(''owner'', ser_u64 (loc_owner x)),
      (''side'', ser_side (loc_side x)),
      (''price'', ser_u64 (loc_price x))]"

definition de_order_location :: "json \<Rightarrow> order_location option" where
  "de_order_location = de_struct (\<lambda>fs. do {
     x0 \<leftarrow> get_field ''owner'' de_u64 fs;
     x1 \<leftarrow> get_field ''side'' de_side fs;
     x2 \<leftarrow> get_field ''price'' de_u64 fs;
     Some \<lparr>loc_owner = x0, loc_side = x1, loc_price = x2\<rparr>
   })"

interpretation order_location_json: serde ser_order_location de_order_location "\<lambda>_. True"
  by unfold_locales (simp add: ser_order_location_def de_order_location_def struct_eval)

definition ser_balance :: "balance \<Rightarrow> json" where
  "ser_balance x = JObj
     [(''available'', ser_u64 (available x)),
      (''reserved'', ser_u64 (reserved x))]"

definition de_balance :: "json \<Rightarrow> balance option" where
  "de_balance = de_struct (\<lambda>fs. do {
     x0 \<leftarrow> get_field ''available'' de_u64 fs;
     x1 \<leftarrow> get_field ''reserved'' de_u64 fs;
     Some \<lparr>available = x0, reserved = x1\<rparr>
   })"

interpretation balance_json: serde ser_balance de_balance "\<lambda>_. True"
  by unfold_locales (simp add: ser_balance_def de_balance_def struct_eval)

text \<open>The texts of the keys that are not integers.\<close>

definition de_key_currency :: "string \<Rightarrow> currency option" where
  "de_key_currency s = de_currency (JStr s)"

definition de_key_pair :: "string \<Rightarrow> pair option" where
  "de_key_pair s = de_pair (JStr s)"

lemma key_back [simp]: "de_key_currency (currency_display c) = Some c" "de_key_pair (pair_display p) = Some p"
  by (cases c) (simp_all add: de_key_currency_def de_key_pair_def de_currency_def de_pair_def de_string_def pair_try_from_iff [THEN iffD2])

section \<open>The engine\<close>

text \<open>The iteration order of every hash container; that of a nested one may depend on its content.\<close>

record hash_orders =
  ho_books :: "pair drain"
  ho_index :: "(u64 \<rightharpoonup> order_location) \<Rightarrow> u64 drain"
  ho_routes :: "u64 drain"
  ho_accounts :: "u64 drain"
  ho_currencies :: "(currency \<rightharpoonup> balance) \<Rightarrow> currency drain"
  ho_seen :: "(u64 \<times> u64) drain"
  ho_recent :: "u64 drain"
  ho_listed :: "pair drain"

definition orders_ok :: "hash_orders \<Rightarrow> bool" where
  "orders_ok ho \<longleftrightarrow> is_drain (ho_books ho) \<and> (\<forall>m. is_drain (ho_index ho m)) \<and> is_drain (ho_routes ho) \<and> is_drain (ho_accounts ho) \<and>
     (\<forall>m. is_drain (ho_currencies ho m)) \<and> is_drain (ho_seen ho) \<and> is_drain (ho_recent ho) \<and> is_drain (ho_listed ho)"

definition ser_order_book :: "hash_orders \<Rightarrow> order_book \<Rightarrow> json" where
  "ser_order_book ho b = JObj
     [(''bids'', ser_btree key_u64 (ser_list ser_order) (bids b)),
      (''asks'', ser_btree key_u64 (ser_list ser_order) (asks b)),
      (''order_index'', ser_map (ho_index ho (order_index b)) key_u64 ser_order_location (order_index b)),
      (''last_trade_price'', ser_option ser_u64 (last_trade_price b))]"

definition de_order_book :: "json \<Rightarrow> order_book option" where
  "de_order_book = de_struct (\<lambda>fs. do {
     x0 \<leftarrow> get_field ''bids'' (de_btree de_key_u64 (de_list de_order)) fs;
     x1 \<leftarrow> get_field ''asks'' (de_btree de_key_u64 (de_list de_order)) fs;
     x2 \<leftarrow> get_field ''order_index'' (de_map de_key_u64 de_order_location) fs;
     x3 \<leftarrow> opt_field ''last_trade_price'' de_u64 fs;
     Some \<lparr>bids = x0, asks = x1, order_index = x2, dirty_levels = {}, last_trade_price = x3\<rparr>
   })"

definition ser_ledger :: "hash_orders \<Rightarrow> ledger \<Rightarrow> json" where
  "ser_ledger ho l = JObj
     [(''balances'', ser_map (ho_accounts ho) key_u64 (\<lambda>m. ser_map (ho_currencies ho m) currency_display ser_balance m) (balances l))]"

definition de_ledger :: "json \<Rightarrow> ledger option" where
  "de_ledger = de_struct (\<lambda>fs. do {
     x0 \<leftarrow> get_field ''balances'' (de_map de_key_u64 (de_map de_key_currency de_balance)) fs;
     Some \<lparr>balances = x0, ledger_dirty = {}\<rparr>
   })"

definition ser_dedup :: "hash_orders \<Rightarrow> dedup \<Rightarrow> json" where
  "ser_dedup ho dd = JObj
     [(''seen'', ser_set (ho_seen ho) (ser_pair_of ser_u64 ser_u64) (dd_seen dd)),
      (''order'', ser_map (ho_recent ho) key_u64 (ser_list ser_u64) (dd_order dd))]"

definition de_dedup :: "json \<Rightarrow> dedup option" where
  "de_dedup = de_struct (\<lambda>fs. do {
     x0 \<leftarrow> get_field ''seen'' (de_set (de_pair_of de_u64 de_u64)) fs;
     x1 \<leftarrow> get_field ''order'' (de_map de_key_u64 (de_list de_u64)) fs;
     Some \<lparr>dd_seen = x0, dd_order = x1\<rparr>
   })"

definition ser_engine :: "hash_orders \<Rightarrow> engine \<Rightarrow> json" where
  "ser_engine ho e = JObj
     [(''books'', ser_map (ho_books ho) pair_display (ser_order_book ho) (books e)),
      (''order_pair'', ser_map (ho_routes ho) key_u64 ser_pair (order_pair e)),
      (''next_order_id'', ser_u64 (next_order_id e)),
      (''next_seq'', ser_u64 (next_seq e)),
      (''ledger'', ser_ledger ho (eng_ledger e)),
      (''dedup'', ser_dedup ho (eng_dedup e)),
      (''listed_pairs'', ser_set (ho_listed ho) ser_pair (listed_pairs e))]"

definition de_engine :: "json \<Rightarrow> engine option" where
  "de_engine = de_struct (\<lambda>fs. do {
     x0 \<leftarrow> get_field ''books'' (de_map de_key_pair de_order_book) fs;
     x1 \<leftarrow> get_field ''order_pair'' (de_map de_key_u64 de_pair) fs;
     x2 \<leftarrow> get_field ''next_order_id'' de_u64 fs;
     x3 \<leftarrow> get_field ''next_seq'' de_u64 fs;
     x4 \<leftarrow> get_field ''ledger'' de_ledger fs;
     x5 \<leftarrow> get_field ''dedup'' de_dedup fs;
     x6 \<leftarrow> get_field ''listed_pairs'' (de_set de_pair) fs;
     Some \<lparr>books = x0, order_pair = x1, next_order_id = x2, next_seq = x3, eng_ledger = x4, eng_dedup = x5, listed_pairs = x6,
       eng_limits = limits_default\<rparr>
   })"

section \<open>What comes back\<close>

text \<open>The values that a Rust program can hold: BTree maps are ordered. Every key type is finite.\<close>

definition book_value :: "order_book \<Rightarrow> bool" where
  "book_value b \<longleftrightarrow> bt_inv (bids b) \<and> bt_inv (asks b)"

definition engine_value :: "engine \<Rightarrow> bool" where
  "engine_value e \<longleftrightarrow> (\<forall>p b. books e p = Some b \<longrightarrow> book_value b)"

interpretation levels_json: serde "ser_list ser_order" "de_list de_order" "\<lambda>_. True"
  by unfold_locales (simp add: order_json.list_back)

interpretation queue_json: serde "ser_list ser_u64" "de_list de_u64" "\<lambda>_. True"
  by unfold_locales (simp add: u64_json.list_back)

interpretation seen_json: serde "ser_pair_of ser_u64 ser_u64" "de_pair_of de_u64 de_u64" "\<lambda>_. True"
  by unfold_locales (simp add: ser_pair_of_def de_pair_of_def u64_json.de_ser)

lemma ser_u64_not_null: "ser_u64 x \<noteq> JNull"
  by (simp add: ser_u64_def)

lemma order_book_back:
  assumes "orders_ok ho" "book_value b"
  shows "de_order_book (ser_order_book ho b) = Some (b\<lparr>dirty_levels := {}\<rparr>)"
proof -
  have "de_map de_key_u64 de_order_location (ser_map (ho_index ho (order_index b)) key_u64 ser_order_location (order_index b)) = Some (order_index b)"
    using assms by (intro order_location_json.map_back) (simp_all add: orders_ok_def book_value_def)
  moreover have "de_btree de_key_u64 (de_list de_order) (ser_btree key_u64 (ser_list ser_order) ls) = Some ls" if "bt_inv ls" for ls
    using that by (intro levels_json.btree_back) auto
  moreover have "de_option de_u64 (ser_option ser_u64 (last_trade_price b)) = Some (last_trade_price b)"
    using ser_u64_not_null by (intro u64_json.option_back) auto
  ultimately show ?thesis using assms(2)
    by (simp add: de_order_book_def ser_order_book_def de_struct_def get_field_def opt_field_def book_value_def)
qed

interpretation currencies_json: serde "\<lambda>m. ser_map (ho_currencies ho m) currency_display ser_balance m" "de_map de_key_currency de_balance" "\<lambda>_. orders_ok ho" for ho
proof
  fix m :: "currency \<rightharpoonup> balance" assume "orders_ok ho"
  then show "de_map de_key_currency de_balance (ser_map (ho_currencies ho m) currency_display ser_balance m) = Some m"
    by (intro balance_json.map_back) (simp_all add: orders_ok_def)
qed

interpretation books_json: serde "ser_order_book ho" de_order_book "\<lambda>b. orders_ok ho \<and> book_value b \<and> dirty_levels b = {}" for ho
  by unfold_locales (simp add: order_book_back)

lemma ledger_back:
  assumes "orders_ok ho"
  shows "de_ledger (ser_ledger ho l) = Some (l\<lparr>ledger_dirty := {}\<rparr>)"
proof -
  have "de_map de_key_u64 (de_map de_key_currency de_balance)
      (ser_map (ho_accounts ho) key_u64 (\<lambda>m. ser_map (ho_currencies ho m) currency_display ser_balance m) (balances l)) = Some (balances l)"
    using assms by (intro currencies_json.map_back) (simp_all add: orders_ok_def)
  then show ?thesis by (simp add: de_ledger_def ser_ledger_def de_struct_def get_field_def)
qed

lemma dedup_back:
  assumes "orders_ok ho"
  shows "de_dedup (ser_dedup ho dd) = Some dd"
proof -
  have "de_map de_key_u64 (de_list de_u64) (ser_map (ho_recent ho) key_u64 (ser_list ser_u64) (dd_order dd)) = Some (dd_order dd)"
    using assms by (intro queue_json.map_back) (simp_all add: orders_ok_def)
  moreover have "de_set (de_pair_of de_u64 de_u64) (ser_set (ho_seen ho) (ser_pair_of ser_u64 ser_u64) (dd_seen dd)) = Some (dd_seen dd)"
    using assms by (intro seen_json.set_back) (simp_all add: orders_ok_def)
  ultimately show ?thesis by (simp add: de_dedup_def ser_dedup_def de_struct_def get_field_def)
qed

text \<open>The serialized form does not depend on what is skipped.\<close>

lemma ser_skip: "ser_engine ho (serde_skip e) = ser_engine ho e"
proof -
  have "ser_order_book ho (b\<lparr>dirty_levels := {}\<rparr>) = ser_order_book ho b" for b by (simp add: ser_order_book_def)
  then have "ser_map (ho_books ho) pair_display (ser_order_book ho) (books (serde_skip e)) =
      ser_map (ho_books ho) pair_display (ser_order_book ho) (books e)"
  proof -
    have d: "dom (books (serde_skip e)) = dom (books e)" by (auto simp: serde_skip_def dom_def)
    have "ser_order_book ho (the (books (serde_skip e) p)) = ser_order_book ho (the (books e p))" for p
      by (cases "books e p") (simp_all add: serde_skip_def ser_order_book_def)
    then show ?thesis unfolding ser_map_def d by simp
  qed
  then show ?thesis by (simp add: ser_engine_def serde_skip_def ser_ledger_def)
qed

lemma engine_back:
  assumes "orders_ok ho" "engine_value e"
  shows "de_engine (ser_engine ho e) = Some (serde_skip e)"
proof -
  let ?e = "serde_skip e"
  have v: "book_value b \<and> dirty_levels b = {}" if "books ?e p = Some b" for p b
    using that assms(2) by (auto simp: serde_skip_def engine_value_def book_value_def)
  have "de_map de_key_pair de_order_book (ser_map (ho_books ho) pair_display (ser_order_book ho) (books ?e)) = Some (books ?e)"
  proof (rule books_json.map_back)
    show "finite (dom (books ?e))" by (rule finite_subset [OF subset_UNIV finite_UNIV_pair])
    show "\<forall>b \<in> ran (books ?e). orders_ok ho \<and> book_value b \<and> dirty_levels b = {}" using v assms(1) by (auto simp: ran_def)
  qed (use assms(1) in \<open>simp_all add: orders_ok_def\<close>)
  moreover have "de_map de_key_u64 de_pair (ser_map (ho_routes ho) key_u64 ser_pair (order_pair ?e)) = Some (order_pair ?e)"
    using assms by (intro pair_json.map_back) (simp_all add: orders_ok_def engine_value_def serde_skip_def)
  moreover have "de_ledger (ser_ledger ho (eng_ledger ?e)) = Some (eng_ledger ?e)"
    using ledger_back [OF assms(1), of "eng_ledger ?e"] by (simp add: serde_skip_def)
  moreover have "de_dedup (ser_dedup ho (eng_dedup ?e)) = Some (eng_dedup ?e)"
    using assms(1) by (rule dedup_back)
  moreover have "de_set de_pair (ser_set (ho_listed ho) ser_pair (listed_pairs ?e)) = Some (listed_pairs ?e)"
    using assms finite_subset [OF subset_UNIV finite_UNIV_pair] by (intro pair_json.set_back) (simp_all add: orders_ok_def)
  moreover have "eng_limits ?e = limits_default" by (simp add: serde_skip_def)
  ultimately have "de_engine (ser_engine ho ?e) = Some ?e"
    by (simp add: de_engine_def ser_engine_def de_struct_def get_field_def u64_json.de_ser)
  then show ?thesis by (simp only: ser_skip)
qed

text \<open>Every book that satisfies the invariant of the engine is such a value.\<close>

lemma engine_value_inv: "engine_inv e \<Longrightarrow> engine_value e"
  by (simp add: engine_inv_def books_ok_def book_inv_def engine_value_def book_value_def levels_inv_bt [of Bid] levels_inv_bt [of Ask])

section \<open>Snapshots\<close>

definition ser_u32 :: "32 word \<Rightarrow> json" where
  "ser_u32 x = JNum (uint x)"

definition de_u32 :: "json \<Rightarrow> 32 word option" where
  "de_u32 j = (case j of JNum i \<Rightarrow> if 0 \<le> i \<and> i < 2 ^ 32 then Some (word_of_int i) else None | _ \<Rightarrow> None)"

interpretation u32_json: serde ser_u32 de_u32 "\<lambda>_. True"
  using uint_lt2p [where ?'a = 32] by unfold_locales (simp add: ser_u32_def de_u32_def)

definition ser_snapshot :: "('a \<Rightarrow> json) \<Rightarrow> 'a snapshot \<Rightarrow> json" where
  "ser_snapshot ser_state sn = JObj
     [(''version'', ser_u32 (sn_version sn)),
      (''last_id'', JStr (sn_last_id sn)),
      (''state'', ser_state (sn_state sn))]"

definition de_snapshot :: "(json \<Rightarrow> 'a option) \<Rightarrow> json \<Rightarrow> 'a snapshot option" where
  "de_snapshot de_state = de_struct (\<lambda>fs. do {
     x0 \<leftarrow> get_field ''version'' de_u32 fs;
     x1 \<leftarrow> get_field ''last_id'' de_string fs;
     x2 \<leftarrow> get_field ''state'' de_state fs;
     Some \<lparr>sn_version = x0, sn_last_id = x1, sn_state = x2\<rparr>
   })"

lemma snapshot_back:
  "de_state (ser_state (sn_state sn)) = Some s \<Longrightarrow>
   de_snapshot de_state (ser_snapshot ser_state sn) = Some (sn\<lparr>sn_state := s\<rparr>)"
  by (simp add: de_snapshot_def ser_snapshot_def struct_eval u32_json.de_ser)

section \<open>The codec of the engine process\<close>

text \<open>\<open>serde_json\<close> on the types of the process. What remains a parameter is text: of a JSON value
  (\<open>print\<close>, \<open>parse\<close>) and of an id (\<open>text\<close>, \<open>of_text\<close>). Only the values of a Rust program are written.\<close>

record text_forms =
  tf_print :: "json \<Rightarrow> string"
  tf_parse :: "string \<Rightarrow> json option"
  tf_text :: "uuid \<Rightarrow> string"
  tf_of_text :: "string \<Rightarrow> uuid option"

definition text_ok :: "text_forms \<Rightarrow> bool" where
  "text_ok tf \<longleftrightarrow> (\<forall>j. tf_parse tf (tf_print tf j) = Some j) \<and> (\<forall>i. tf_of_text tf (tf_text tf i) = Some i)"

definition json_codec :: "text_forms \<Rightarrow> hash_orders \<Rightarrow> codec" where
  "json_codec tf ho =
     \<lparr>dec_command = (\<lambda>s. Option.bind (tf_parse tf s) (de_command_envelope (tf_of_text tf))),
      enc_batch = (\<lambda>b. Some (tf_print tf (ser_event_batch b))),
      enc_response = (\<lambda>r. Some (tf_print tf (ser_response_envelope (tf_text tf) r))),
      enc_state = (\<lambda>sn. if engine_value (sn_state sn) then Some (tf_print tf (ser_snapshot (ser_engine ho) sn)) else None),
      dec_state = (\<lambda>s. Option.bind (tf_parse tf s) (de_snapshot de_engine))\<rparr>"

definition paths_ok :: "snapshot_config option \<Rightarrow> bool" where
  "paths_ok cfg \<longleftrightarrow> (case cfg of None \<Rightarrow> True | Some s \<Rightarrow> with_extension ''tmp'' (cfg_path s) \<noteq> cfg_path s)"

text \<open>It has the property that the process relies on.\<close>

lemma json_codec_ok:
  assumes "text_ok tf" "orders_ok ho" "paths_ok cfg"
  shows "codec_ok (json_codec tf ho) cfg"
proof -
  have "dec_state (json_codec tf ho) bytes = Some (sn\<lparr>sn_state := serde_skip (sn_state sn)\<rparr>)"
    if "enc_state (json_codec tf ho) sn = Some bytes" for sn bytes
    using that assms(1) snapshot_back [where ser_state = "ser_engine ho" and de_state = de_engine, OF engine_back [OF assms(2)], of sn]
    by (auto simp: json_codec_def text_ok_def split: if_splits)
  then show ?thesis using assms(3) by (simp add: codec_ok_def paths_ok_def serde_roundtrip_def)
qed

end
