(* ===== verification/Json_Text.thy ===== *)
theory Json_Text
  imports Json
begin

text \<open>
  A text form of JSON values, to instantiate the parameter that stands for the printer and the parser of \<open>serde_json\<close>.
  It is a prefix code and not the syntax of JSON: a tag, strings with every character quoted, lists between brackets. The
  theorems that take a text form hold for this one; nothing else uses it.
\<close>

definition quote_text :: "string \<Rightarrow> string" where
  "quote_text s = concat (map (\<lambda>c. [CHR ''/'', c]) s) @ '';''"

fun unquote_text :: "string \<Rightarrow> (string \<times> string) option" where
  "unquote_text (c # s) =
     (if c = CHR '';'' then Some ([], s)
      else (case s of [] \<Rightarrow> None | d # s' \<Rightarrow> map_option (\<lambda>(t, r). (d # t, r)) (unquote_text s')))"
| "unquote_text [] = None"

lemma unquote_quote [simp]: "unquote_text (quote_text s @ r) = Some (s, r)"
  by (induction s) (simp_all add: quote_text_def)

fun code_text :: "json \<Rightarrow> string" where
  "code_text JNull = ''n''"
| "code_text (JBool b) = (if b then ''t'' else ''f'')"
| "code_text (JNum i) = (if i < 0 then ''-'' else ''+'') @ quote_text (dec_of_nat (nat \<bar>i\<bar>))"
| "code_text (JStr s) = ''s'' @ quote_text s"
| "code_text (JArr js) = ''['' @ concat (map code_text js) @ '']''"
| "code_text (JObj fs) = ''{'' @ concat (map (\<lambda>(n, x). ''.'' @ quote_text n @ code_text x) fs) @ ''}''"

fun decode_text :: "nat \<Rightarrow> string \<Rightarrow> (json \<times> string) option"
  and decode_items :: "nat \<Rightarrow> string \<Rightarrow> (json list \<times> string) option"
  and decode_fields :: "nat \<Rightarrow> string \<Rightarrow> ((string \<times> json) list \<times> string) option" where
  "decode_text (Suc k) (c # s) =
     (if c = CHR ''n'' then Some (JNull, s)
      else if c = CHR ''t'' then Some (JBool True, s)
      else if c = CHR ''f'' then Some (JBool False, s)
      else if c = CHR ''+'' then do { (t, r) \<leftarrow> unquote_text s; n \<leftarrow> parse_digits t; Some (JNum (int n), r) }
      else if c = CHR ''-'' then do { (t, r) \<leftarrow> unquote_text s; n \<leftarrow> parse_digits t; Some (JNum (- int n), r) }
      else if c = CHR ''s'' then do { (t, r) \<leftarrow> unquote_text s; Some (JStr t, r) }
      else if c = CHR ''['' then map_option (\<lambda>(js, r). (JArr js, r)) (decode_items k s)
      else if c = CHR ''{'' then map_option (\<lambda>(fs, r). (JObj fs, r)) (decode_fields k s)
      else None)"
| "decode_text _ _ = None"
| "decode_items (Suc k) (c # s) =
     (if c = CHR '']'' then Some ([], s)
      else do { (j, r) \<leftarrow> decode_text k (c # s); (js, r') \<leftarrow> decode_items k r; Some (j # js, r') })"
| "decode_items _ _ = None"
| "decode_fields (Suc k) (c # s) =
     (if c = CHR ''}'' then Some ([], s)
      else do { (n, r) \<leftarrow> unquote_text s; (j, r') \<leftarrow> decode_text k r; (fs, r'') \<leftarrow> decode_fields k r'; Some ((n, j) # fs, r'') })"
| "decode_fields _ _ = None"

definition parse_text :: "string \<Rightarrow> json option" where
  "parse_text s = map_option fst (decode_text (2 * length s) s)"

lemma code_text_hd: "\<exists>c s. code_text j = c # s \<and> c \<noteq> CHR '']''"
  by (cases j) simp_all

lemma decode_items_code:
  assumes "\<And>j k r. j \<in> set js \<Longrightarrow> 2 * length (code_text j) \<le> k \<Longrightarrow> decode_text k (code_text j @ r) = Some (j, r)"
    and "2 * length (concat (map code_text js)) < k"
  shows "decode_items k (concat (map code_text js) @ '']'' @ r) = Some (js, r)"
  using assms
proof (induction js arbitrary: k)
  case Nil
  then show ?case by (cases k) simp_all
next
  case (Cons j js)
  obtain k' where k: "k = Suc k'" using Cons.prems(2) by (cases k) simp_all
  obtain c s where c: "code_text j = c # s" "c \<noteq> CHR '']''" using code_text_hd by blast
  have "decode_text k' (code_text j @ concat (map code_text js) @ '']'' @ r) = Some (j, concat (map code_text js) @ '']'' @ r)"
    by (rule Cons.prems(1)) (use Cons.prems(2) k in simp_all)
  moreover have "decode_items k' (concat (map code_text js) @ '']'' @ r) = Some (js, r)"
    by (rule Cons.IH) (use Cons.prems k c in simp_all)
  ultimately show ?case using c by (simp add: k)
qed

lemma decode_fields_code:
  assumes "\<And>n j k r. (n, j) \<in> set fs \<Longrightarrow> 2 * length (code_text j) \<le> k \<Longrightarrow> decode_text k (code_text j @ r) = Some (j, r)"
    and "2 * length (concat (map (\<lambda>(n, x). ''.'' @ quote_text n @ code_text x) fs)) < k"
  shows "decode_fields k (concat (map (\<lambda>(n, x). ''.'' @ quote_text n @ code_text x) fs) @ ''}'' @ r) = Some (fs, r)"
  using assms
proof (induction fs arbitrary: k)
  case Nil
  then show ?case by (cases k) simp_all
next
  case (Cons f fs)
  let ?rest = "concat (map (\<lambda>(n, x). ''.'' @ quote_text n @ code_text x) fs) @ ''}'' @ r"
  obtain n j where f: "f = (n, j)" by fastforce
  obtain k' where k: "k = Suc k'" using Cons.prems(2) by (cases k) simp_all
  have "decode_text k' (code_text j @ ?rest) = Some (j, ?rest)"
    by (rule Cons.prems(1) [of n]) (use Cons.prems(2) k f in simp_all)
  moreover have "decode_fields k' ?rest = Some (fs, r)"
    by (rule Cons.IH) (use Cons.prems k f in auto)
  ultimately show ?case by (simp add: k f)
qed

lemma decode_code: "2 * length (code_text j) \<le> k \<Longrightarrow> decode_text k (code_text j @ r) = Some (j, r)"
proof (induction j arbitrary: k r)
  case (JArr js)
  obtain k' where k: "k = Suc k'" using JArr.prems by (cases k) simp_all
  then have "decode_items k' (concat (map code_text js) @ '']'' @ r) = Some (js, r)"
    using JArr by (intro decode_items_code) simp_all
  then show ?case by (simp add: k)
next
  case (JObj fs)
  obtain k' where k: "k = Suc k'" using JObj.prems by (cases k) simp_all
  then have "decode_fields k' (concat (map (\<lambda>(n, x). ''.'' @ quote_text n @ code_text x) fs) @ ''}'' @ r) = Some (fs, r)"
    using JObj by (intro decode_fields_code) auto
  then show ?case by (simp add: k)
next
  case (JNum i)
  then show ?case by (cases k) (simp_all split: if_splits)
next
  case (JStr s)
  then show ?case by (cases k) simp_all
next
  case (JBool b)
  then show ?case by (cases k) (simp_all split: if_splits)
next
  case JNull
  then show ?case by (cases k) simp_all
qed

lemma parse_code_text [simp]: "parse_text (code_text j) = Some j"
  using decode_code [of j _ "[]"] by (simp add: parse_text_def)

end
