(* ===== verification/Engine_Codec.thy ===== *)
theory Engine_Codec
  imports Engine_Json Json_Text
begin

text \<open>
  The messages and the snapshots of the running process, written and read as the code does it, and what the process
  promises with them: nothing is assumed of the derived serializers any more. The text of a JSON value and of an id
  stay parameters (\<open>serde_json\<close>, \<open>uuid\<close>).
\<close>

section \<open>Messages and snapshots come back\<close>

text \<open>C22: a message that is written to a stream or to the result channel is read back unchanged: a command of the API by
  the engine, a response of the engine by the API, and an event batch by the readers of the event stream.\<close>

theorem messages_survive_json:
  assumes "text_ok tf"
  shows "dec_command (json_codec tf ho) (tf_print tf (ser_command_envelope (tf_text tf) env)) = Some env \<and>
    (\<exists>s. enc_response (json_codec tf ho) rsp = Some s \<and> Option.bind (tf_parse tf s) (de_response_envelope (tf_of_text tf)) = Some rsp) \<and>
    (\<exists>s. enc_batch (json_codec tf ho) batch = Some s \<and> Option.bind (tf_parse tf s) de_event_batch = Some batch)"
  using assms by (simp add: json_codec_def text_ok_def envelopes_back event_batch_json.de_ser)

text \<open>C21: a snapshot of an engine that has been running since it was created is always written, and a process that
  loads it goes on with exactly that engine: the books with their queues in order, every balance, the idempotency window,
  the counters and the listed pairs.\<close>

theorem snapshot_restores_engine:
  assumes "hashing_ok es" "length es \<le> 10 ^ 14" "engine_run es engine_new = Some (e, outs)"
    and "text_ok tf" "orders_ok ho" "with_extension ''tmp'' path \<noteq> path"
  shows "\<exists>ops. save_ops (enc_state (json_codec tf ho)) path last_id e = (ops, True) \<and>
    load (dec_state (json_codec tf ho)) path (fold fs_step ops fs) =
      Some \<lparr>sn_version = snapshot_version, sn_last_id = last_id, sn_state = e\<rparr> \<and>
    restore (load (dec_state (json_codec tf ho)) path (fold fs_step ops fs)) engine_new = e"
proof -
  let ?c = "json_codec tf ho"
  have s: "settled e" by (rule run_from_new_facts(1) [OF assms(1-3)])
  obtain e' outs' where "engine_run es engine_new = Some (e', outs')" "eng_limits e' = limits_default"
    by (rule run_from_new [OF assms(1,2)])
  then have lim: "eng_limits e = limits_default" using assms(3) by simp
  have ok: "codec_ok ?c (Some \<lparr>cfg_path = path, cfg_every = 1\<rparr>)" using assms(4-6) by (intro json_codec_ok) (simp_all add: paths_ok_def)
  have "engine_value e" using s by (simp add: settled_def engine_value_inv)
  then obtain ops where ops: "save_ops (enc_state ?c) path last_id e = (ops, True)"
    by (simp add: save_ops_def json_codec_def Let_def)
  have "save (enc_state ?c) (length ops) path last_id e = (ops, True)" by (simp add: save_def ops)
  from save_cut [OF this assms(6), of "dec_state ?c" serde_skip "length ops" fs]
  have l: "load (dec_state ?c) path (fold fs_step ops fs) = Some \<lparr>sn_version = snapshot_version, sn_last_id = last_id, sn_state = e\<rparr>"
    using ok serde_skip_settled [OF s lim] by (simp add: codec_ok_def)
  have "e\<lparr>eng_limits := limits_default\<rparr> = e" using lim by simp
  then have "restore (load (dec_state ?c) path (fold fs_step ops fs)) engine_new = e"
    unfolding l by (simp add: restore_def engine_new_def)
  then show ?thesis using ops l by simp
qed

section \<open>The running process\<close>



section \<open>Sessions\<close>

definition all_pairs :: "pair list" where
  "all_pairs = [\<lparr>base = SOL, quote = SOL\<rparr>, \<lparr>base = SOL, quote = USD\<rparr>, \<lparr>base = USD, quote = SOL\<rparr>, \<lparr>base = USD, quote = USD\<rparr>]"

definition demo_orders :: hash_orders where
  "demo_orders =
     \<lparr>ho_books = (\<lambda>S. filter (\<lambda>p. p \<in> S) all_pairs), ho_index = (\<lambda>_. sorted_list_of_set), ho_routes = sorted_list_of_set,
      ho_accounts = sorted_list_of_set, ho_currencies = (\<lambda>_. sorted_list_of_set), ho_seen = sorted_list_of_set,
      ho_recent = sorted_list_of_set, ho_listed = (\<lambda>S. filter (\<lambda>p. p \<in> S) all_pairs)\<rparr>"

definition demo_text :: text_forms where
  "demo_text = \<lparr>tf_print = code_text, tf_parse = parse_text, tf_text = dec_of_nat, tf_of_text = parse_digits\<rparr>"

definition demo_codec :: codec where
  "demo_codec = json_codec demo_text demo_orders"

lemma demo_text_ok: "text_ok demo_text"
  by (simp add: text_ok_def demo_text_def)

lemma demo_orders_ok: "orders_ok demo_orders"
proof -
  have "p \<in> set all_pairs" for p :: pair
    by (cases p; cases "base p"; cases "quote p") (simp_all add: all_pairs_def)
  moreover have "distinct all_pairs" by (simp add: all_pairs_def)
  ultimately have "is_drain (\<lambda>S. filter (\<lambda>p. p \<in> S) all_pairs)" by (auto simp: is_drain_def)
  then show ?thesis by (simp add: orders_ok_def demo_orders_def)
qed

theorem messages_survive_json_witness:
  "dec_command demo_codec (code_text (ser_command_envelope dec_of_nat deposit_env)) = Some deposit_env \<and>
   (\<exists>s. enc_response demo_codec \<lparr>rsp_correlation_id = 7, rsp_response = PlaceR (Inl InsufficientFunds)\<rparr> = Some s \<and>
      Option.bind (parse_text s) (de_response_envelope parse_digits) = Some \<lparr>rsp_correlation_id = 7, rsp_response = PlaceR (Inl InsufficientFunds)\<rparr>) \<and>
   (\<exists>s. enc_batch demo_codec \<lparr>batch_seq = 3, batch_events = [OrderCancelled 5, BookDelta sol_usd Ask 10 0]\<rparr> = Some s \<and>
      Option.bind (parse_text s) de_event_batch = Some \<lparr>batch_seq = 3, batch_events = [OrderCancelled 5, BookDelta sol_usd Ask 10 0]\<rparr>)"
  using messages_survive_json [OF demo_text_ok, of demo_orders deposit_env "\<lparr>rsp_correlation_id = 7, rsp_response = PlaceR (Inl InsufficientFunds)\<rparr>"
      "\<lparr>batch_seq = 3, batch_events = [OrderCancelled 5, BookDelta sol_usd Ask 10 0]\<rparr>"]
  by (simp add: demo_codec_def demo_text_def)

theorem snapshot_restores_engine_witness:
  "\<exists>ops. save_ops (enc_state demo_codec) ''eng.json'' ''7-0'' demo_e7 = (ops, True) \<and>
    load (dec_state demo_codec) ''eng.json'' (fold fs_step ops Map.empty) =
      Some \<lparr>sn_version = snapshot_version, sn_last_id = ''7-0'', sn_state = demo_e7\<rparr> \<and>
    restore (load (dec_state demo_codec) ''eng.json'' (fold fs_step ops Map.empty)) engine_new = demo_e7"
proof -
  have "with_extension ''tmp'' ''eng.json'' \<noteq> ''eng.json''"
    by (simp add: with_extension_def file_name_def file_stem_def split_last_def)
  then show ?thesis
    using snapshot_restores_engine [OF demo_hashing demo_run demo_text_ok demo_orders_ok, of "''eng.json''" "''7-0''" Map.empty]
    by (simp add: demo_codec_def)
qed

text \<open>A client appends a deposit while the process is down; the process boots and recovers.\<close>

definition demo_stream :: "stream_entry list" where
  "demo_stream = [(''1-0'', Some (code_text (ser_command_envelope dec_of_nat deposit_env)))]"

definition demo_xrange :: "string \<Rightarrow> stream_entry list" where
  "demo_xrange from = (if from = ''-'' then demo_stream else [])"

definition demo_down :: service where
  "demo_down = service_new\<lparr>sv_log := demo_stream\<rparr>"

definition demo_up :: service where
  "demo_up = demo_down\<lparr>sv_cursor := 1, sv_proc := Some (\<lparr>ep_engine = deposited, ep_since_snapshot = 0\<rparr>, [], [])\<rparr>"

lemma demo_entry: "entry_command demo_codec (Some (code_text (ser_command_envelope dec_of_nat deposit_env))) = Some deposit_env"
  by (simp add: entry_command_def demo_codec_def json_codec_def demo_text_def envelopes_back)

lemma demo_paths: "paths_ok None"
  by (simp add: paths_ok_def)

lemma demo_serves: "serves demo_xrange (sv_log demo_down) (sv_trimmed demo_down)"
  by (simp add: serves_def demo_xrange_def demo_down_def demo_stream_def service_new_def)

lemma demo_recover:
  "recover demo_codec None (\<lambda>_. sorted_hashing) demo_xrange (sv_files demo_down) engine_new = Some (deposited, Some ''1-0'')"
  by (simp add: recover_def restore_def resume_from_def demo_xrange_def demo_stream_def demo_entry)
    (simp add: deposit_env_def run_eval deposited_def)

lemma demo_reachable: "reachable demo_codec None demo_down" "reachable demo_codec None demo_up"
proof -
  have "service_step demo_codec None service_new (service_new\<lparr>sv_log := sv_log service_new @ demo_stream\<rparr>)"
    unfolding demo_stream_def by (rule append) (simp add: service_new_def)
  then have down: "service_step demo_codec None service_new demo_down"
    by (simp add: demo_down_def service_new_def)
  then show "reachable demo_codec None demo_down" by (simp add: reachable_def)
  have "service_step demo_codec None demo_down
      (demo_down\<lparr>sv_cursor := 1, sv_proc := Some (\<lparr>ep_engine = deposited, ep_since_snapshot = 0\<rparr>, [], [])\<rparr>)"
    by (rule boot [OF _ demo_serves drains_sorted demo_recover]) (simp_all add: demo_down_def demo_stream_def service_new_def)
  then show "reachable demo_codec None demo_up" using down by (simp add: reachable_def demo_up_def)
qed



text \<open>Recovery is silent: a command that no earlier process handled, such as one logged while the
  process was down, is applied by \<open>recover\<close>, which emits no event and no response for it and moves
  the group's cursor past it.\<close>

lemma recovered_command_is_silent:
  "reachable demo_codec None demo_up \<and> sv_cursor demo_up = length (sv_log demo_up) \<and>
   (\<exists>p. sv_proc demo_up = Some (p, [], []) \<and> avail (eng_ledger (ep_engine p)) 8 USD = 500) \<and>
   sv_events demo_up = [] \<and> sv_results demo_up = [] \<and> sv_acked demo_up = []"
  using demo_reachable(2)
  by (simp add: demo_up_def demo_down_def demo_stream_def service_new_def deposited_def avail_def entry_balance_def)

end
