(* ===== verification/Event_Stream.thy ===== *)
theory Event_Stream
  imports Engine_Replay
begin

text \<open>
  What the batches of the \<open>events\<close> stream say about the engine that emitted them. The two readers of
  the stream, the API's book projection and the database writer, are clients of one contract: the
  locale \<open>event_consumer\<close> turns a per-command promise into a promise for whole runs.
\<close>

section \<open>The contract of a batch\<close>

text \<open>The book deltas of one market in a list of events.\<close>

fun deltas_in :: "pair \<Rightarrow> event list \<Rightarrow> book_delta list" where
  "deltas_in p [] = []"
| "deltas_in p (BookDelta q s price x # evs) = (if q = p then (s, price, x) # deltas_in p evs else deltas_in p evs)"
| "deltas_in p (_ # evs) = deltas_in p evs"

lemma deltas_in_append [simp]: "deltas_in p (evs @ fs) = deltas_in p evs @ deltas_in p fs"
  by (induction p evs rule: deltas_in.induct) auto

lemma deltas_in_other [simp]:
  "deltas_in p (map Trade ts) = []" "deltas_in p (map (update_event q) us) = []" "deltas_in p (balance_events ks l) = []"
  by (induction ts) (auto simp: update_event_def balance_events_def intro: list.induct [of _ us] list.induct [of _ ks])

lemma deltas_in_delta_events [simp]: "deltas_in p (delta_events q ds) = (if q = p then ds else [])"
  by (induction ds) (auto simp: delta_events_def)

text \<open>The balances a list of events reports.\<close>

fun balances_in :: "event list \<Rightarrow> (ledger_key \<times> u64 \<times> u64) list" where
  "balances_in [] = []"
| "balances_in (BalanceChanged a c av rs # evs) = ((a, c), av, rs) # balances_in evs"
| "balances_in (_ # evs) = balances_in evs"

lemma balances_in_append [simp]: "balances_in (evs @ fs) = balances_in evs @ balances_in fs"
  by (induction evs rule: balances_in.induct) auto

lemma balances_in_events [simp]:
  "balances_in (map Trade ts) = []" "balances_in (map (update_event q) us) = []" "balances_in (delta_events q ds) = []"
  by (induction ts) (auto simp: update_event_def delta_events_def split_beta intro: list.induct [of _ us] list.induct [of _ ds])

lemma balances_in_balance_events:
  "balances_in (balance_events ks l) =
     map (\<lambda>(a, c). ((a, c), available (entry_balance l a c), reserved (entry_balance l a c))) ks"
  by (induction ks) (auto simp: balance_events_def)

text \<open>A batch reports a transition: its deltas carry the new totals of all levels that changed, each
  once, and its balances the new balances of all accounts that changed, each once.\<close>

definition reports :: "engine \<Rightarrow> engine \<Rightarrow> event list \<Rightarrow> bool" where
  "reports e e' evs \<longleftrightarrow>
     (\<forall>p. deltas_of (deltas_in p evs) (book_for e p) (book_for e' p)) \<and>
     distinct (map fst (balances_in evs)) \<and>
     (\<forall>a c. map_of (balances_in evs) (a, c) =
        Some (available (entry_balance (eng_ledger e') a c), reserved (entry_balance (eng_ledger e') a c)) \<or>
        map_of (balances_in evs) (a, c) = None \<and> entry_balance (eng_ledger e') a c = entry_balance (eng_ledger e) a c)"

lemma deltas_of_refl [simp]: "deltas_of [] b b"
  by (simp add: deltas_of_def)

section \<open>Every command reports what it did\<close>

lemma apply_command_deltas:
  assumes "engine_inv e" "funded e" "is_drain d" "apply_command d a cmd e = Some (e', r, evs)"
  shows "deltas_of (deltas_in p evs) (book_for e p) (book_for e' p) \<and> balances_in evs = []"
proof (cases cmd)
  case (Place req)
  have inv: "books_ok e" "backed e" using assms(1) by (simp_all add: engine_inv_def)
  show ?thesis
  proof (cases rule: place_order_outcome [OF inv assms(2), where d = d and acct = a and req = req])
    case (1 s e1)
    then show ?thesis using assms(4) Place by (auto simp: place_rejected_def book_for_def)
  next
    case (2 e1)
    have "book_inv (book_for e (req_pair req))" by (rule book_for_ok [OF inv(1)])
    then have "deltas_of (mr_book_deltas (snd (matched d a req e))) (book_for e (req_pair req)) (fst (matched d a req e))"
      unfolding matched_def by (rule add_order_deltas [OF _ assms(3)])
    then show ?thesis using assms(4) Place 2(1,2)
      by (auto simp: place_accepted_def place_events_def book_for_after_match)
  qed
next
  case (Cancel req)
  show ?thesis
  proof (cases "\<exists>q b m. books e q = Some b \<and> m \<in> set (resting b) \<and> ord_id m = can_order_id req \<and> ord_account m = a")
    case True
    then obtain q b m where b: "books e q = Some b" "m \<in> set (resting b)" "ord_account m = a" and req: "req = \<lparr>can_order_id = ord_id m\<rparr>"
      by (cases req) auto
    obtain before after where lv: "level_at (ord_side m) (ord_price m) b = Some (before @ m # after)"
      and c: "engine_cancel_order d a \<lparr>can_order_id = ord_id m\<rparr> e =
       (after_cancel q m (book_removed m (before @ after) b) e,
        Some (q, m, snd (take_dirty_levels d ((book_removed m (before @ after) b)\<lparr>dirty_levels := {(ord_side m, ord_price m)}\<rparr>))))"
      by (rule engine_cancel_some [OF assms(1) b])
    show ?thesis using assms(4) Cancel c cancel_deltas [OF assms(3)] b(1)
      by (auto simp: req cancel_events_def after_cancel_def book_for_def)
  next
    case False
    then have "engine_cancel_order d a req e = (e, None)" by (intro engine_cancel_none [OF assms(1)]) blast
    then show ?thesis using assms(4) Cancel by auto
  qed
next
  case (Deposit req)
  then show ?thesis using assms(4) by (auto simp: engine_deposit_def book_for_def split: option.splits prod.splits if_splits)
next
  case (Withdraw req)
  then show ?thesis using assms(4) by (auto simp: book_for_def split: prod.splits)
qed (use assms(4) in \<open>auto simp: book_for_def split: if_splits\<close>)

definition events_of :: "event_batch option \<Rightarrow> event list" where
  "events_of b = (case b of None \<Rightarrow> [] | Some x \<Rightarrow> batch_events x)"

lemma finish_batch_balances:
  assumes "dirty_ok (eng_ledger e)" "is_drain d" "finish_batch d e evs = Some (e', b)"
  shows "events_of b = evs @ balance_events (d (ledger_dirty (eng_ledger e))) (eng_ledger e)"
    "books e' = books e" "entry_balance (eng_ledger e') = entry_balance (eng_ledger e)"
  using assms(3) by (auto simp: finish_batch_eq [OF assms(1,2)] Let_def events_of_def split: if_splits)

lemma map_of_keyed: "map_of (map (\<lambda>(a, c). ((a, c), f a c)) ks) (a, c) = (if (a, c) \<in> set ks then Some (f a c) else None)"
  by (induction ks) auto

lemma engine_apply_reports:
  assumes "settled e" "roomy e" "unat (next_order_id e) + 1 < 2 ^ 64" "is_drain (fst h)" "is_drain (snd h)"
    and "engine_apply h a i cmd e = Some (e', r, b)"
  shows "reports e e' (events_of b)"
proof (cases "snd (dedup_insert a i (eng_dedup e))")
  case False
  then have "e' = e" "b = None" using assms(6) by (cases "dedup_insert a i (eng_dedup e)"; simp add: engine_apply_def)+
  then show ?thesis by (simp add: reports_def events_of_def)
next
  case True
  define e0 where "e0 = e\<lparr>eng_dedup := fst (dedup_insert a i (eng_dedup e))\<rparr>"
  have inv: "engine_inv e0" using assms(1) engine_inv_cong [of e0 e] by (simp add: settled_def e0_def)
  have room: "roomy e0" using assms(2) supply_of_cong [of e0 e] by (simp add: roomy_def e0_def)
  have "unat (next_order_id e0) + 1 < 2 ^ 64" using assms(3) by (simp add: e0_def)
  then obtain e1 r1 evs where c: "apply_command (fst h) a cmd e0 = Some (e1, r1, evs)" "kept_by e0 e1"
    by (rule apply_command_kept [OF inv room]) blast
  have f: "finish_batch (snd h) e1 evs = Some (e', b)" using True c(1) assms(6)
    by (cases "dedup_insert a i (eng_dedup e)") (auto simp: engine_apply_def e0_def split: option.splits prod.splits)
  have tr: "tracked (eng_ledger e) (eng_ledger e1)" using c(2) by (simp add: kept_by_def e0_def)
  have dirty: "dirty_ok (eng_ledger e1)"
    using tr assms(1) dirty_ok_empty [of "eng_ledger e"] by (simp add: settled_def tracked_def)
  note fin = finish_batch_balances [OF dirty assms(5) f]
  let ?ks = "snd h (ledger_dirty (eng_ledger e1))"
  have ks: "set ?ks = ledger_dirty (eng_ledger e1)" "distinct ?ks" using dirty assms(5) by (simp_all add: dirty_ok_def)
  have "deltas_of (deltas_in p evs) (book_for e p) (book_for e' p) \<and> balances_in evs = []" for p
    using apply_command_deltas [OF inv roomy_funded [OF room] assms(4) c(1), of p] fin(2) by (simp add: book_for_def e0_def)
  moreover have "map fst (map (\<lambda>(a, c). ((a, c), f a c)) xs) = xs" for f :: "account_id \<Rightarrow> currency \<Rightarrow> u64 \<times> u64" and xs
    by (induction xs) auto
  ultimately show ?thesis using tr ks
    by (simp add: reports_def fin(1,3) balances_in_balance_events map_of_keyed) (auto simp: tracked_def)
qed

section \<open>Readers of the stream\<close>

locale event_consumer =
  fixes consume :: "event_batch \<Rightarrow> 's \<Rightarrow> 's" and view :: "engine \<Rightarrow> 's \<Rightarrow> bool"
  assumes quiet: "view e st \<Longrightarrow> reports e e' [] \<Longrightarrow> next_seq e' = next_seq e \<Longrightarrow> view e' st"
    and batch: "view e st \<Longrightarrow> settled e \<Longrightarrow> reports e e' (batch_events b) \<Longrightarrow> batch_seq b = next_seq e \<Longrightarrow>
      next_seq e' = next_seq e + 1 \<Longrightarrow> view e' (consume b st)"
begin

lemma view_step:
  assumes "safe_for (Suc n) e" "is_drain (fst h)" "is_drain (snd h)" "engine_apply h a i cmd e = Some (e', r, b)" "view e st"
  shows "view e' (fold consume (case b of None \<Rightarrow> [] | Some x \<Rightarrow> [x]) st)"
proof -
  have safe: "settled e" "roomy e" "unat (next_order_id e) + 1 < 2 ^ 64" using safe_for_roomy [OF assms(1)] by simp_all
  have rep: "reports e e' (events_of b)" by (rule engine_apply_reports [OF safe assms(2-4)])
  note seq = engine_apply_seq [OF assms(4)]
  show ?thesis
  proof (cases b)
    case None
    then show ?thesis using quiet [OF assms(5)] rep seq by (simp add: events_of_def)
  next
    case (Some x)
    then show ?thesis using batch [OF assms(5) safe(1)] rep seq by (simp add: events_of_def)
  qed
qed

lemma view_run:
  assumes "safe_for (length es) e" "hashing_ok es" "engine_run es e = Some (e', outs)" "view e st"
  shows "view e' (fold consume (emitted outs) st)"
  using assms
proof (induction es arbitrary: e st outs)
  case (Cons x es)
  obtain h a i cmd where x: "x = (h, a, i, cmd)" by (cases x) auto
  obtain e1 r b outs1 where s: "engine_apply h a i cmd e = Some (e1, r, b)" "engine_run es e1 = Some (e', outs1)"
    and outs: "outs = (r, b) # outs1" using Cons.prems(3) by (auto simp: x split: option.splits)
  have h: "is_drain (fst h)" "is_drain (snd h)" "hashing_ok es" using Cons.prems(2) by (simp_all add: x)
  have safe: "safe_for (Suc (length es)) e" using Cons.prems(1) by simp
  obtain e2 r2 b2 where "engine_apply h a i cmd e = Some (e2, r2, b2)" "safe_for (length es) e2"
    by (rule safe_for_step [OF safe h(2)])
  then have "safe_for (length es) e1" using s(1) by simp
  from Cons.IH [OF this h(3) s(2) view_step [OF safe h(1,2) s(1) Cons.prems(4)]] show ?case
    by (cases b) (simp_all add: outs)
qed simp

lemma view_from_new:
  assumes "hashing_ok es" "length es \<le> 10 ^ 14" "engine_run es engine_new = Some (e, outs)" "view engine_new st"
  shows "view e (fold consume (emitted outs) st)"
  by (rule view_run [OF safe_for_new [OF assms(2)] assms(1,3,4)])

end

end
