(* ===== verification/Book_Projection.thy ===== *)
theory Book_Projection
  imports Event_Stream
begin

text \<open>
  \<open>src/bin/api/book.rs\<close>: the API's in-memory projection of the order books. It applies the
  \<open>BookDelta\<close> events of each batch to price-level totals, kept in two BTreeMaps per market, and
  answers depth queries from them. Its contract: after any run of the engine, the projection
  shows the engine's own books, level by level.
\<close>

section \<open>The store\<close>

definition default_depth :: nat where
  "default_depth = 20"

definition max_depth :: nat where
  "max_depth = 1000"

record level_book =
  lb_bids :: "(u64, u64) btree_map"
  lb_asks :: "(u64, u64) btree_map"

definition level_book_default :: level_book where
  "level_book_default = \<lparr>lb_bids = [], lb_asks = []\<rparr>"

record book_state =
  bs_books :: "pair \<rightharpoonup> level_book"
  bs_last_seq :: u64

definition book_store_new :: book_state where
  "book_store_new = \<lparr>bs_books = Map.empty, bs_last_seq = 0\<rparr>"

definition level_book_of :: "book_state \<Rightarrow> pair \<Rightarrow> level_book" where
  "level_book_of st p = (case bs_books st p of None \<Rightarrow> level_book_default | Some b \<Rightarrow> b)"

text \<open>One event of a batch: a delta sets its level's total, or drops the level at zero.\<close>

definition put_total :: "u64 \<Rightarrow> u64 \<Rightarrow> (u64, u64) btree_map \<Rightarrow> (u64, u64) btree_map" where
  "put_total price qty m = (if qty = 0 then bt_remove price m else bt_insert price qty m)"

fun project_event :: "event \<Rightarrow> book_state \<Rightarrow> book_state" where
  "project_event (BookDelta p s price qty) st =
     (let book = level_book_of st p;
          book' = (case s of
                     Bid \<Rightarrow> book\<lparr>lb_bids := put_total price qty (lb_bids book)\<rparr>
                   | Ask \<Rightarrow> book\<lparr>lb_asks := put_total price qty (lb_asks book)\<rparr>)
      in st\<lparr>bs_books := (bs_books st)(p \<mapsto> book')\<rparr>)"
| "project_event _ st = st"

definition apply_batch :: "event_batch \<Rightarrow> book_state \<Rightarrow> book_state" where
  "apply_batch batch st = (fold project_event (batch_events batch) st)\<lparr>bs_last_seq := batch_seq batch\<rparr>"

record book_level =
  lvl_price :: u64
  lvl_qty :: u64

record book_snapshot =
  snap_pair :: pair
  snap_sequence :: u64
  snap_bids :: "book_level list"
  snap_asks :: "book_level list"

definition to_level :: "u64 \<times> u64 \<Rightarrow> book_level" where
  "to_level = (\<lambda>(price, qty). \<lparr>lvl_price = price, lvl_qty = qty\<rparr>)"

definition store_snapshot :: "pair \<Rightarrow> nat \<Rightarrow> book_state \<Rightarrow> book_snapshot" where
  "store_snapshot p depth st =
     (let book = level_book_of st p
      in \<lparr>snap_pair = p, snap_sequence = bs_last_seq st,
          snap_bids = map to_level (take depth (rev (lb_bids book))),
          snap_asks = map to_level (take depth (lb_asks book))\<rparr>)"

section \<open>Level by level\<close>

definition lb_side :: "side \<Rightarrow> level_book \<Rightarrow> (u64, u64) btree_map" where
  "lb_side s b = (case s of Bid \<Rightarrow> lb_bids b | Ask \<Rightarrow> lb_asks b)"

definition shown :: "book_state \<Rightarrow> pair \<Rightarrow> side \<Rightarrow> u64 \<Rightarrow> u64" where
  "shown st p s price = (case bt_get (lb_side s (level_book_of st p)) price of None \<Rightarrow> 0 | Some x \<Rightarrow> x)"

text \<open>The maps are ordered and hold no empty level.\<close>

definition levels_kept :: "(u64, u64) btree_map \<Rightarrow> bool" where
  "levels_kept m \<longleftrightarrow> bt_inv m \<and> (\<forall>price. bt_get m price \<noteq> Some 0)"

definition store_inv :: "book_state \<Rightarrow> bool" where
  "store_inv st \<longleftrightarrow> (\<forall>p s. levels_kept (lb_side s (level_book_of st p)))"

lemma levels_kept_put: "levels_kept m \<Longrightarrow> levels_kept (put_total price qty m)"
  by (auto simp: levels_kept_def put_total_def)

lemma level_book_of_delta:
  "lb_side t (level_book_of (project_event (BookDelta p s price qty) st) q) =
     (if q = p \<and> t = s then put_total price qty (lb_side s (level_book_of st p)) else lb_side t (level_book_of st q))"
  by (cases s; cases t) (simp_all add: level_book_of_def Let_def lb_side_def)

lemma shown_delta:
  "shown (project_event (BookDelta p s price qty) st) q t x =
     (if q = p \<and> t = s \<and> x = price then qty else shown st q t x)"
  unfolding shown_def level_book_of_delta by (auto simp: put_total_def)

lemma store_inv_event: "store_inv st \<Longrightarrow> store_inv (project_event ev st)"
  by (cases ev) (simp_all add: store_inv_def level_book_of_delta levels_kept_put del: project_event.simps(1))

lemma store_inv_events: "store_inv st \<Longrightarrow> store_inv (fold project_event evs st)"
  by (induction evs arbitrary: st) (simp_all add: store_inv_event)

lemma store_inv_seq [simp]: "store_inv (st\<lparr>bs_last_seq := n\<rparr>) = store_inv st"
  by (simp add: store_inv_def level_book_of_def)

lemma shown_seq [simp]: "shown (st\<lparr>bs_last_seq := n\<rparr>) = shown st"
  by (simp add: fun_eq_iff shown_def level_book_of_def)

lemma store_inv_new [simp]: "store_inv book_store_new"
  by (simp add: store_inv_def level_book_of_def book_store_new_def level_book_default_def levels_kept_def lb_side_def bt_get_def
      split: side.split)

lemma shown_events:
  assumes "distinct (map (\<lambda>(s, price, x). (s, price)) (deltas_in p evs))"
  shows "shown (fold project_event evs st) p s price =
    (case map_of (map (\<lambda>(s, price, x). ((s, price), x)) (deltas_in p evs)) (s, price) of None \<Rightarrow> shown st p s price | Some x \<Rightarrow> x)"
  using assms
proof (induction p evs arbitrary: st rule: deltas_in.induct)
  case (2 p q t price' x evs)
  show ?case
  proof (cases "q = p")
    case True
    then have new: "(t, price') \<notin> set (map (\<lambda>(s, price, x). (s, price)) (deltas_in p evs))"
      and d: "distinct (map (\<lambda>(s, price, x). (s, price)) (deltas_in p evs))" using 2(3) by simp_all
    have "map_of (map (\<lambda>(s, price, x). ((s, price), x)) (deltas_in p evs)) (t, price') = None"
      using new by (force simp: map_of_eq_None_iff)
    then show ?thesis using 2(1) [OF True d, of "project_event (BookDelta p t price' x) st"] True
      by (auto simp: shown_delta simp del: project_event.simps(1) split: option.split)
  next
    case False
    then have d: "distinct (map (\<lambda>(s, price, x). (s, price)) (deltas_in p evs))" using 2(3) by simp
    then show ?thesis using 2(2) [OF False d, of "project_event (BookDelta q t price' x) st"] False
      by (simp add: shown_delta del: project_event.simps(1) split: option.split)
  qed
qed simp_all

section \<open>The projection follows the engine\<close>

definition projects :: "engine \<Rightarrow> book_state \<Rightarrow> bool" where
  "projects e st \<longleftrightarrow> store_inv st \<and> (\<forall>p s price. shown st p s price = level_qty s price (book_for e p)) \<and>
     (bs_last_seq st + 1 = next_seq e \<or> next_seq e = 0 \<and> bs_last_seq st = 0)"

lemma shown_reported:
  assumes "deltas_of (deltas_in p evs) b b'" "\<And>s price. shown st p s price = level_qty s price b"
  shows "shown (fold project_event evs st) p s price = level_qty s price b'"
proof -
  let ?ds = "deltas_in p evs"
  have d: "distinct (map (\<lambda>(s, price, x). (s, price)) ?ds)" using assms(1) by (simp add: deltas_of_def)
  show ?thesis
  proof (cases "map_of (map (\<lambda>(s, price, x). ((s, price), x)) ?ds) (s, price)")
    case None
    then have "(s, price) \<notin> (\<lambda>(s, price, x). (s, price)) ` set ?ds" by (force simp: map_of_eq_None_iff)
    then have "level_at s price b' = level_at s price b" using assms(1) by (simp add: deltas_of_def)
    then show ?thesis using None assms(2) by (simp add: shown_events [OF d] level_qty_def)
  next
    case (Some x)
    then have "(s, price, x) \<in> set ?ds" by (auto dest!: map_of_SomeD)
    then have "x = level_qty s price b'" using assms(1) by (auto simp: deltas_of_def)
    then show ?thesis using Some by (simp add: shown_events [OF d])
  qed
qed

lemma projects_quiet:
  assumes "projects e st" "reports e e' []" "next_seq e' = next_seq e"
  shows "projects e' st"
proof -
  have "deltas_of (deltas_in p []) (book_for e p) (book_for e' p)" for p using assms(2) by (simp add: reports_def)
  from shown_reported [OF this, of st] have "shown st p s price = level_qty s price (book_for e' p)" for p s price
    using assms(1) by (simp add: projects_def)
  then show ?thesis using assms(1,3) by (simp add: projects_def)
qed

lemma projects_batch:
  assumes "projects e st" "reports e e' (batch_events b)" "batch_seq b = next_seq e" "next_seq e' = next_seq e + 1"
  shows "projects e' (apply_batch b st)"
proof -
  have "deltas_of (deltas_in p (batch_events b)) (book_for e p) (book_for e' p)" for p using assms(2) by (simp add: reports_def)
  from shown_reported [OF this] show ?thesis
    using assms(1,3,4) by (simp add: projects_def apply_batch_def store_inv_events)
qed

interpretation book_view: event_consumer apply_batch projects
  by unfold_locales (blast intro: projects_quiet projects_batch)+

lemma projects_new: "projects engine_new book_store_new"
proof -
  have "shown book_store_new p s price = level_qty s price (book_for engine_new p)" for p s price
    by (cases s) (simp_all add: shown_def level_book_of_def book_store_new_def level_book_default_def lb_side_def
        level_qty_def level_at_def book_for_def engine_new_def order_book_new_def bt_get_def)
  then show ?thesis by (simp add: projects_def) (simp add: book_store_new_def engine_new_def)
qed

section \<open>Totals are exact\<close>

text \<open>The open quantity at a price, as a number rather than a \<open>u64\<close>.\<close>

definition depth_at :: "side \<Rightarrow> u64 \<Rightarrow> order_book \<Rightarrow> nat" where
  "depth_at s price b = (\<Sum>m \<leftarrow> filter (\<lambda>m. ord_side m = s \<and> ord_price m = price) (resting b). unat (ord_remaining m))"

lemma filter_orders_at:
  assumes "levels_inv s ls"
  shows "filter (\<lambda>m. ord_side m = t \<and> ord_price m = price) (level_orders ls) =
    (if t = s then (case bt_get ls price of None \<Rightarrow> [] | Some q \<Rightarrow> q) else [])"
  using assms
proof (induction ls)
  case (Cons e ls)
  obtain p q where e: "e = (p, q)" by (cases e)
  have lv: "levels_inv s ls" "\<forall>m \<in> set q. ord_side m = s \<and> ord_price m = p" "\<forall>x \<in> set ls. p < fst x" "bt_inv ls"
    using Cons.prems by (auto simp: e levels_inv_def level_ok_def)
  have "filter (\<lambda>m. ord_side m = t \<and> ord_price m = price) q = (if t = s \<and> p = price then q else [])"
    using lv(2) by (auto simp: filter_empty_conv)
  moreover have "bt_get ls p = None" by (rule bt_get_below) (use lv in auto)
  ultimately show ?case using Cons.IH [OF lv(1)] by (auto simp: e bt_get_def)
qed (simp add: bt_get_def)

lemma filter_resting:
  assumes "book_inv b"
  shows "filter (\<lambda>m. ord_side m = s \<and> ord_price m = price) (resting b) = (case level_at s price b of None \<Rightarrow> [] | Some q \<Rightarrow> q)"
proof -
  have "levels_inv Bid (bids b)" "levels_inv Ask (asks b)" using assms by (simp_all add: book_inv_def)
  then show ?thesis by (cases s) (simp_all add: resting_def filter_orders_at level_at_def)
qed

lemma level_qty_depth:
  assumes "book_inv b" "depth_at s price b < 2 ^ 64"
  shows "unat (level_qty s price b) = depth_at s price b"
  using assms(2) unat_sum_list_exact [of ord_remaining]
  by (cases "level_at s price b") (auto simp: depth_at_def filter_resting [OF assms(1)] level_qty_def)

text \<open>An open unit is backed by at least one reserved unit, of the base currency for an ask and of
  the quote currency for a bid, unless the bid's price is zero.\<close>

lemma depth_fits:
  assumes "engine_inv e" "funded e" "s = Ask \<or> price \<noteq> 0"
  shows "depth_at s price (book_for e p) < 2 ^ 64"
proof -
  let ?b = "book_for e p" and ?c = "pay_currency p s" and ?on = "\<lambda>m. ord_side m = s \<and> ord_price m = price"
  have one: "unat (ord_remaining m) \<le> (\<Sum>a \<in> UNIV. commitment p m a ?c)" if "?on m" for m
  proof -
    have "0 < unat price \<or> s = Ask" using assms(3) by (auto simp: unat_gt_0)
    then have "unat (ord_remaining m) \<le> commitment p m (ord_account m) ?c"
      using that by (cases s) (auto simp: commitment_def pay_currency_def)
    also have "\<dots> \<le> (\<Sum>a \<in> UNIV. commitment p m a ?c)" by (rule member_le_sum) simp_all
    finally show ?thesis .
  qed
  have "(\<Sum>m \<leftarrow> filter ?on ms. unat (ord_remaining m)) \<le> (\<Sum>m \<leftarrow> ms. \<Sum>a \<in> UNIV. commitment p m a ?c)" for ms
    using one by (induction ms) (auto intro: add_mono trans_le_add2)
  then have "depth_at s price ?b \<le> (\<Sum>a \<in> UNIV. book_commit p ?b a ?c)" by (simp add: depth_at_def book_commit_def sum_swap_list)
  also have "\<dots> \<le> total_supply (eng_ledger e) ?c"
    unfolding total_supply_def total_of_def
  proof (rule sum_mono)
    fix a
    have "book_commit p ?b a ?c \<le> resv (eng_ledger e) a ?c"
      using assms(1) engine_commit_split [of e a ?c p] by (simp add: engine_inv_def backed_def)
    then show "book_commit p ?b a ?c \<le> avail (eng_ledger e) a ?c + resv (eng_ledger e) a ?c" by simp
  qed
  also have "\<dots> < 2 ^ 64" using assms(2) by (simp add: funded_def)
  finally show ?thesis .
qed

section \<open>Depth queries\<close>

lemma levels_kept_entries:
  assumes "levels_kept m"
  shows "set m = {(price, x). x \<noteq> 0 \<and> (case bt_get m price of None \<Rightarrow> 0 | Some y \<Rightarrow> y) = x}"
proof -
  have "bt_inv m" "\<And>price. bt_get m price \<noteq> Some 0" using assms by (simp_all add: levels_kept_def)
  then have "(price, x) \<in> set m \<longleftrightarrow> x \<noteq> 0 \<and> (case bt_get m price of None \<Rightarrow> 0 | Some y \<Rightarrow> y) = x" for price x
    using btm.entries_mem [of m price x] by (auto split: option.splits)
  then show ?thesis by auto
qed

lemma projected_side:
  assumes "projects e st"
  shows "set (lb_side s (level_book_of st p)) = {(price, x). x \<noteq> 0 \<and> x = level_qty s price (book_for e p)}"
    and "sorted_wrt (<) (map fst (lb_side s (level_book_of st p)))"
proof -
  have k: "levels_kept (lb_side s (level_book_of st p))" using assms by (simp add: projects_def store_inv_def)
  then show "sorted_wrt (<) (map fst (lb_side s (level_book_of st p)))" by (simp add: levels_kept_def bt_inv_def)
  have "(case bt_get (lb_side s (level_book_of st p)) price of None \<Rightarrow> 0 | Some y \<Rightarrow> y) = level_qty s price (book_for e p)" for price
    using assms by (simp add: projects_def flip: shown_def)
  then show "set (lb_side s (level_book_of st p)) = {(price, x). x \<noteq> 0 \<and> x = level_qty s price (book_for e p)}"
    unfolding levels_kept_entries [OF k] by auto
qed

definition best_levels :: "side \<Rightarrow> order_book \<Rightarrow> nat \<Rightarrow> book_level list \<Rightarrow> bool" where
  "best_levels s b n ls \<longleftrightarrow> (\<exists>all. ls = map to_level (take n all) \<and>
     sorted_wrt (case s of Bid \<Rightarrow> (>) | Ask \<Rightarrow> (<)) (map fst all) \<and>
     set all = {(price, x). x \<noteq> 0 \<and> x = level_qty s price b})"

lemma snapshot_levels:
  assumes "projects e st"
  shows "best_levels Bid (book_for e p) n (snap_bids (store_snapshot p n st))"
    and "best_levels Ask (book_for e p) n (snap_asks (store_snapshot p n st))"
proof -
  let ?bids = "lb_bids (level_book_of st p)" and ?asks = "lb_asks (level_book_of st p)"
  note bid = projected_side [OF assms, of Bid p] and ask = projected_side [OF assms, of Ask p]
  have "sorted_wrt (>) (map fst (rev ?bids))" using bid(2) by (simp add: lb_side_def rev_map [symmetric] sorted_wrt_rev)
  then show "best_levels Bid (book_for e p) n (snap_bids (store_snapshot p n st))" using bid(1)
    by (auto simp: best_levels_def store_snapshot_def Let_def lb_side_def intro!: exI [of _ "rev ?bids"])
  show "best_levels Ask (book_for e p) n (snap_asks (store_snapshot p n st))" using ask
    by (auto simp: best_levels_def store_snapshot_def Let_def lb_side_def intro!: exI [of _ ?asks])
qed

lemma run_funded:
  assumes "hashing_ok es" "length es \<le> 10 ^ 14" "engine_run es engine_new = Some (e, outs)"
  shows "funded e"
proof -
  have "total_supply (eng_ledger e) c < 2 ^ 64" for c
  proof -
    have "unat (demo_deposit_ceiling c) \<le> 100000" by (cases c) simp_all
    then have "length es * unat (demo_deposit_ceiling c) \<le> 10 ^ 14 * 100000" using assms(2) by (intro mult_le_mono)
    then show ?thesis using run_from_new_facts(3) [OF assms, of c] by (simp add: supply_of_def)
  qed
  then show ?thesis by (simp add: funded_def)
qed

section \<open>The promises\<close>

lemma shown_depth:
  assumes "hashing_ok es" "length es \<le> 10 ^ 14" "engine_run es engine_new = Some (e, outs)" "s = Ask \<or> price \<noteq> 0"
  shows "unat (shown (fold apply_batch (emitted outs) book_store_new) p s price) = depth_at s price (book_for e p)"
proof -
  have inv: "engine_inv e" using run_from_new_facts(1) [OF assms(1-3)] by (simp add: settled_def)
  then have b: "book_inv (book_for e p)" by (simp add: engine_inv_def book_for_ok)
  have "projects e (fold apply_batch (emitted outs) book_store_new)"
    by (rule book_view.view_from_new [OF assms(1-3) projects_new])
  then show ?thesis
    using level_qty_depth [OF b depth_fits [OF inv run_funded [OF assms(1-3)] assms(4)]] by (simp add: projects_def)
qed

text \<open>C24: the API's book projection refines the engine's books. After any run of the engine, applying
  the batches it emitted to an empty store shows at every ask price, and at every bid price but
  zero, the exact open quantity of the engine's book.\<close>

theorem book_projection_refines:
  assumes "hashing_ok es" "length es \<le> 10 ^ 14" "engine_run es engine_new = Some (e, outs)" "s = Ask \<or> price \<noteq> 0"
  shows "unat (shown (fold apply_batch (emitted outs) book_store_new) p s price) = depth_at s price (book_for e p)"
  by (rule shown_depth [OF assms])

theorem book_projection_refines_witness:
  "unat (shown (fold apply_batch (emitted demo_outs) book_store_new) sol_usd Bid 12) = 3"
proof -
  have "book_for demo_e7 sol_usd = demo_final" by (simp add: book_for_def demo_state)
  moreover have "depth_at Bid 12 demo_final = 3" by (simp add: depth_at_def demo_final_def resting_def)
  ultimately show ?thesis using book_projection_refines [OF demo_hashing demo_run, of Bid 12 sol_usd] by simp
qed



section \<open>Bids at price zero\<close>

text \<open>The restriction on bids is needed: a bid at price zero reserves nothing, so nothing bounds the
  quantity of that level, and its \<open>u64\<close> total can wrap to zero, which the projection reads as an
  empty level.\<close>

definition free_bids :: "log_entry list" where
  "free_bids =
     [(sorted_hashing, 1, 0, ListPair sol_usd),
      (sorted_hashing, 7, 0, Place (limit_order Bid 0 (2 ^ 63))),
      (sorted_hashing, 8, 0, Place (limit_order Bid 0 (2 ^ 63)))]"

lemma zero_price_level_vanishes:
  "\<exists>e outs. engine_run free_bids engine_new = Some (e, outs) \<and> depth_at Bid 0 (book_for e sol_usd) = 2 ^ 64 \<and>
     shown (fold apply_batch (emitted outs) book_store_new) sol_usd Bid 0 = 0"
proof -
  have "(18446744073709551616 :: u64) = 0" by (simp add: word_uint_eq_iff)
  then show ?thesis
    by (simp add: free_bids_def run_eval book_for_def depth_at_def resting_def cong: let_weak_cong)
      (simp add: apply_batch_def Let_def level_book_of_def book_store_new_def level_book_default_def put_total_def bt_remove_def
        shown_def lb_side_def bt_get_def)
qed

end
