(* ===== verification/Book_Tail.thy ===== *)
theory Book_Tail
  imports Book_Projection Log_Replay
begin

text \<open>
  The feeding of the book projection (\<open>bootstrap\<close> and \<open>tail\<close> in \<open>src/bin/api/book.rs\<close>): at startup the
  store is restored from its snapshot and the \<open>events\<close> stream after it, then every new entry is applied
  and broadcast to the websocket feeds, and the store is snapshotted every so often, its position
  published for the trimming of the stream. It is the second instance of the locale \<open>log_machine\<close>.
\<close>

section \<open>bootstrap\<close>

definition entry_batch :: "(string \<Rightarrow> event_batch option) \<Rightarrow> string option \<Rightarrow> event_batch option" where
  "entry_batch dec data = (case data of None \<Rightarrow> None | Some d \<Rightarrow> dec d)"

fun bootstrap_entries ::
    "(string \<Rightarrow> event_batch option) \<Rightarrow> stream_entry list \<Rightarrow> book_state \<Rightarrow> string \<Rightarrow> book_state \<times> string" where
  "bootstrap_entries dec [] st last_id = (st, last_id)"
| "bootstrap_entries dec ((i, data) # es) st last_id =
     (case entry_batch dec data of
        None \<Rightarrow> bootstrap_entries dec es st last_id
      | Some batch \<Rightarrow> bootstrap_entries dec es (apply_batch batch st) i)"

definition bootstrap ::
    "(string \<Rightarrow> event_batch option) \<Rightarrow> (string \<Rightarrow> book_state snapshot option) \<Rightarrow> snapshot_config option \<Rightarrow>
     (string \<Rightarrow> stream_entry list) \<Rightarrow> files \<Rightarrow> book_state \<Rightarrow> book_state \<times> string" where
  "bootstrap dec from_slice cfg xrange fs store =
     (case (case cfg of None \<Rightarrow> None | Some c \<Rightarrow> load from_slice (cfg_path c) fs) of
        Some sn \<Rightarrow> bootstrap_entries dec (xrange (''('' @ sn_last_id sn)) (sn_state sn) (sn_last_id sn)
      | None \<Rightarrow> bootstrap_entries dec (xrange ''-'') store ''0'')"

section \<open>tail\<close>

record book_tail =
  bt_store :: book_state
  bt_last_id :: string
  bt_sent :: "event_batch list"
  bt_since :: u64

definition tail_entry :: "(string \<Rightarrow> event_batch option) \<Rightarrow> stream_entry \<Rightarrow> book_tail \<Rightarrow> book_tail" where
  "tail_entry dec = (\<lambda>(i, data) t.
     (let t1 = t\<lparr>bt_last_id := i\<rparr>
      in case entry_batch dec data of
           None \<Rightarrow> t1
         | Some batch \<Rightarrow>
             t1\<lparr>bt_store := apply_batch batch (bt_store t1), bt_sent := bt_sent t1 @ [batch],
                bt_since := bt_since t1 + 1\<rparr>))"

datatype tail_effect = SnapOp fs_op | SetSnapshotId string

definition tail_reply ::
    "(string \<Rightarrow> event_batch option) \<Rightarrow> (book_state snapshot \<Rightarrow> string option) \<Rightarrow> snapshot_config option \<Rightarrow> nat \<Rightarrow>
     stream_entry list \<Rightarrow> book_tail \<Rightarrow> book_tail \<times> tail_effect list" where
  "tail_reply dec to_vec cfg k entries t =
     (let t1 = fold (tail_entry dec) entries t
      in case cfg of
           None \<Rightarrow> (t1, [])
         | Some c \<Rightarrow>
             if bt_since t1 \<ge> cfg_every c
             then (case save to_vec k (cfg_path c) (bt_last_id t1) (bt_store t1) of
                     (ops, ok) \<Rightarrow>
                       (t1\<lparr>bt_since := 0\<rparr>, map SnapOp ops @ (if ok then [SetSnapshotId (bt_last_id t1)] else [])))
             else (t1, []))"

section \<open>The projection as a machine driven by its log\<close>

definition project_entry :: "(string \<Rightarrow> event_batch option) \<Rightarrow> stream_entry \<Rightarrow> book_state \<Rightarrow> book_state" where
  "project_entry dec x st = (case entry_batch dec (snd x) of None \<Rightarrow> st | Some b \<Rightarrow> apply_batch b st)"

interpretation bk: log_machine book_store_new "\<lambda>x s s'. s' = project_entry dec x s" "\<lambda>n s. True" id for dec
  by unfold_locales auto

lemma bk_run: "bk.run dec log st st' \<longleftrightarrow> st' = fold (project_entry dec) log st"
  by (induction log arbitrary: st) auto

definition stream_batches :: "(string \<Rightarrow> event_batch option) \<Rightarrow> stream_entry list \<Rightarrow> event_batch list" where
  "stream_batches dec log = List.map_filter (\<lambda>x. entry_batch dec (snd x)) log"

lemma stream_batches_simps [simp]:
  "stream_batches dec [] = []"
  "stream_batches dec (x # xs) = (case entry_batch dec (snd x) of None \<Rightarrow> stream_batches dec xs | Some b \<Rightarrow> b # stream_batches dec xs)"
  by (simp_all add: stream_batches_def map_filter_simps split: option.split)

lemma fold_project: "fold (project_entry dec) log st = fold apply_batch (stream_batches dec log) st"
  by (induction log arbitrary: st) (simp_all add: project_entry_def split: option.split)

lemma bootstrap_entries_state: "fst (bootstrap_entries dec es st last_id) = fold (project_entry dec) es st"
  by (induction dec es st last_id rule: bootstrap_entries.induct) (simp_all add: project_entry_def split: option.split)

lemma bootstrap_state:
  "fst (bootstrap dec from_slice cfg xrange fs book_store_new) =
     (let sn = (case cfg of None \<Rightarrow> None | Some c \<Rightarrow> load from_slice (cfg_path c) fs)
      in fold (project_entry dec) (xrange (resume_from sn)) (bk.start_state sn))"
  by (simp add: bootstrap_def bootstrap_entries_state resume_from_def bk.start_state_def Let_def split: option.split)

lemma tail_entries:
  "bt_store (fold (tail_entry dec) es t) = fold (project_entry dec) es (bt_store t) \<and>
   bt_sent (fold (tail_entry dec) es t) = bt_sent t @ stream_batches dec es \<and>
   bt_last_id (fold (tail_entry dec) es t) = (if es = [] then bt_last_id t else fst (last es))"
proof (induction es arbitrary: t)
  case (Cons x es)
  then show ?case by (cases x) (auto simp: tail_entry_def project_entry_def Let_def split: option.split)
qed simp

section \<open>The promises\<close>

text \<open>The snapshot file, or the lack of one, makes up for what was trimmed off the front of the \<open>events\<close> stream: nothing
  after the snapshot was trimmed. Then a restarted projection is the projection that never stopped.\<close>

definition snapshot_covers ::
    "(string \<Rightarrow> event_batch option) \<Rightarrow> (string \<Rightarrow> book_state snapshot option) \<Rightarrow> string \<Rightarrow> stream_entry list \<Rightarrow> nat \<Rightarrow> files \<Rightarrow> bool" where
  "snapshot_covers dec from_slice path log t fs \<longleftrightarrow> t \<le> length log \<and>
     (case load from_slice path fs of
        None \<Rightarrow> t = 0
      | Some s \<Rightarrow> \<exists>k < length log. t \<le> k \<and> sn_last_id s = fst (log ! k) \<and>
          sn_state s = fold apply_batch (stream_batches dec (take (Suc k) log)) book_store_new)"

lemma snapshot_covers_durable: "snapshot_covers dec from_slice path log t fs \<longleftrightarrow> bk.durable dec log t (load from_slice path fs)"
  by (auto simp: snapshot_covers_def bk.durable_def bk_run fold_project split: option.splits)

lemma bootstrap_snapshot:
  assumes "snapshot_covers dec from_slice (cfg_path c) log t fs" "serves xrange log t"
  shows "fst (bootstrap dec from_slice (Some c) xrange fs book_store_new) = fold apply_batch (stream_batches dec log) book_store_new"
proof -
  let ?sn = "load from_slice (cfg_path c) fs"
  have "fst (bootstrap dec from_slice (Some c) xrange fs book_store_new) = fold (project_entry dec) (xrange (resume_from ?sn)) (bk.start_state ?sn)"
    by (simp add: bootstrap_state Let_def)
  then have "bk.run dec (xrange (resume_from ?sn)) (bk.start_state ?sn) (fst (bootstrap dec from_slice (Some c) xrange fs book_store_new))"
    by (simp add: bk_run)
  from bk.durable_resume [OF assms(1) [unfolded snapshot_covers_durable] assms(2) this] show ?thesis by (simp add: bk_run fold_project)
qed

text \<open>The live tail keeps the projection current and forwards everything: after each reply the
  store has applied, and the websocket channel received, exactly the batches of the reply in order, and
  the position a snapshot is published for is the last entry folded into it.\<close>

lemma tail_reply_exact:
  assumes "tail_reply dec to_vec cfg k entries t = (t', effs)"
  shows "bt_store t' = fold apply_batch (stream_batches dec entries) (bt_store t) \<and>
    bt_sent t' = bt_sent t @ stream_batches dec entries \<and>
    (\<forall>i. SetSnapshotId i \<in> set effs \<longrightarrow> i = (if entries = [] then bt_last_id t else fst (last entries)) \<and>
       (\<exists>c. cfg = Some c \<and> snd (save to_vec k (cfg_path c) i (bt_store t')) \<and>
          effs = map SnapOp (fst (save to_vec k (cfg_path c) i (bt_store t'))) @ [SetSnapshotId i]))"
  using assms tail_entries [of dec entries t]
  by (auto simp: tail_reply_def Let_def fold_project split: option.splits if_splits prod.splits)

end
