(* ===== verification/Book_Json.thy ===== *)
theory Book_Json
  imports Book_Tail Engine_Codec
begin

text \<open>
  The serialized book projection: what the derives on \<open>Book\<close> and \<open>BookState\<close> (\<open>src/bin/api/book.rs\<close>) write to the API's
  own snapshot and read from it, and the restart of the projection with it.
\<close>

section \<open>The projection as JSON\<close>

definition ser_level_book :: "level_book \<Rightarrow> json" where
  "ser_level_book x = JObj
     [(''bids'', ser_btree key_u64 ser_u64 (lb_bids x)),
      (''asks'', ser_btree key_u64 ser_u64 (lb_asks x))]"

definition de_level_book :: "json \<Rightarrow> level_book option" where
  "de_level_book = de_struct (\<lambda>fs. do {
     x0 \<leftarrow> get_field ''bids'' (de_btree de_key_u64 de_u64) fs;
     x1 \<leftarrow> get_field ''asks'' (de_btree de_key_u64 de_u64) fs;
     Some \<lparr>lb_bids = x0, lb_asks = x1\<rparr>
   })"

definition ser_book_state :: "pair drain \<Rightarrow> book_state \<Rightarrow> json" where
  "ser_book_state d x = JObj
     [(''books'', ser_map d pair_display ser_level_book (bs_books x)),
      (''last_seq'', ser_u64 (bs_last_seq x))]"

definition de_book_state :: "json \<Rightarrow> book_state option" where
  "de_book_state = de_struct (\<lambda>fs. do {
     x0 \<leftarrow> get_field ''books'' (de_map de_key_pair de_level_book) fs;
     x1 \<leftarrow> get_field ''last_seq'' de_u64 fs;
     Some \<lparr>bs_books = x0, bs_last_seq = x1\<rparr>
   })"

text \<open>The values a Rust program can hold.\<close>

definition level_book_value :: "level_book \<Rightarrow> bool" where
  "level_book_value b \<longleftrightarrow> bt_inv (lb_bids b) \<and> bt_inv (lb_asks b)"

definition book_state_value :: "book_state \<Rightarrow> bool" where
  "book_state_value st \<longleftrightarrow> (\<forall>p b. bs_books st p = Some b \<longrightarrow> level_book_value b)"

interpretation level_book_json: serde ser_level_book de_level_book level_book_value
proof
  fix b assume b: "level_book_value b"
  have "de_btree de_key_u64 de_u64 (ser_btree key_u64 ser_u64 ls) = Some ls" if "bt_inv ls" for ls
    using that by (intro u64_json.btree_back) auto
  then show "de_level_book (ser_level_book b) = Some b" using b
    by (simp add: de_level_book_def ser_level_book_def de_struct_def get_field_def level_book_value_def)
qed

interpretation book_state_json: serde "ser_book_state d" de_book_state "\<lambda>st. is_drain d \<and> book_state_value st" for d
proof
  fix st assume st: "is_drain d \<and> book_state_value st"
  have "de_map de_key_pair de_level_book (ser_map d pair_display ser_level_book (bs_books st)) = Some (bs_books st)"
    using st finite_subset [OF subset_UNIV finite_UNIV_pair]
    by (intro level_book_json.map_back) (auto simp: book_state_value_def ran_def)
  then show "de_book_state (ser_book_state d st) = Some st"
    by (simp add: de_book_state_def ser_book_state_def de_struct_def get_field_def u64_json.de_ser)
qed

text \<open>Every store that batches were applied to is one.\<close>

lemma store_inv_value: "store_inv st \<Longrightarrow> book_state_value st"
proof -
  assume inv: "store_inv st"
  have "level_book_value b" if "bs_books st p = Some b" for p b
  proof -
    have "level_book_of st p = b" using that by (simp add: level_book_of_def)
    then have "levels_kept (lb_side Bid b)" "levels_kept (lb_side Ask b)" using inv by (auto simp: store_inv_def)
    then show ?thesis by (simp add: level_book_value_def levels_kept_def lb_side_def)
  qed
  then show ?thesis by (simp add: book_state_value_def)
qed

lemma store_inv_batches: "store_inv st \<Longrightarrow> store_inv (fold apply_batch bs st)"
  by (induction bs arbitrary: st) (simp_all add: apply_batch_def store_inv_events)

section \<open>Restarting\<close>

definition dec_batch :: "text_forms \<Rightarrow> string \<Rightarrow> event_batch option" where
  "dec_batch tf s = Option.bind (tf_parse tf s) de_event_batch"

definition enc_store :: "text_forms \<Rightarrow> pair drain \<Rightarrow> book_state snapshot \<Rightarrow> string option" where
  "enc_store tf d sn = (if book_state_value (sn_state sn) then Some (tf_print tf (ser_snapshot (ser_book_state d) sn)) else None)"

definition dec_store :: "text_forms \<Rightarrow> string \<Rightarrow> book_state snapshot option" where
  "dec_store tf s = Option.bind (tf_parse tf s) (de_snapshot de_book_state)"

lemma store_roundtrip:
  assumes "text_ok tf" "is_drain d"
  shows "serde_roundtrip (enc_store tf d) (dec_store tf) id"
proof -
  have "dec_store tf bytes = Some sn" if "enc_store tf d sn = Some bytes" for sn bytes
    using that assms snapshot_back [of de_book_state "ser_book_state d" sn "sn_state sn"] book_state_json.de_ser [of d "sn_state sn"]
    by (auto simp: enc_store_def dec_store_def text_ok_def split: if_splits)
  then show ?thesis by (simp add: serde_roundtrip_def)
qed

text \<open>C29: the projection survives restarts. It saves its state after a prefix of the \<open>events\<close> stream, while an earlier
  snapshot, if any, makes up for what was trimmed; whether the save is complete, fails, or is cut short by a crash at any
  point, the restarted API boots into the store that applied every batch of the stream, once and in
  order.\<close>

theorem bootstrap_exact:
  assumes "text_ok tf" "is_drain d" "with_extension ''tmp'' (cfg_path c) \<noteq> cfg_path c"
    and "snapshot_covers (dec_batch tf) (dec_store tf) (cfg_path c) (pre @ [x]) t fs"
    and "save (enc_store tf d) k (cfg_path c) (fst x) (fold apply_batch (stream_batches (dec_batch tf) (pre @ [x])) book_store_new) = (ops, ok)"
    and "serves xrange (pre @ [x] @ post) t"
  shows "fst (bootstrap (dec_batch tf) (dec_store tf) (Some c) xrange (fold fs_step (take j ops) fs) book_store_new) =
    fold apply_batch (stream_batches (dec_batch tf) (pre @ [x] @ post)) book_store_new"
proof -
  let ?log = "pre @ [x]" and ?st = "fold apply_batch (stream_batches (dec_batch tf) (pre @ [x])) book_store_new"
  have old: "bk.durable (dec_batch tf) ?log t (load (dec_store tf) (cfg_path c) fs)" using assms(4) by (simp only: snapshot_covers_durable)
  have "t \<le> length pre" using assms(4) by (auto simp: snapshot_covers_def split: option.splits)
  then have "bk.durable (dec_batch tf) ?log t (Some \<lparr>sn_version = snapshot_version, sn_last_id = fst x, sn_state = ?st\<rparr>)"
    unfolding bk.durable_def bk_run fold_project
    by (intro conjI) (simp, rule option.case(2) [THEN iffD2], rule exI [of _ "length pre"], simp flip: fold_project)
  then have "bk.durable (dec_batch tf) ?log t (load (dec_store tf) (cfg_path c) (fold fs_step (take j ops) fs))"
    using old save_cut [OF assms(5,3) store_roundtrip [OF assms(1,2)], of j fs] by simp
  from bk.durable_append [OF this, of post]
  have "snapshot_covers (dec_batch tf) (dec_store tf) (cfg_path c) (pre @ [x] @ post) t (fold fs_step (take j ops) fs)"
    by (simp add: snapshot_covers_durable)
  then show ?thesis by (rule bootstrap_snapshot [OF _ assms(6)])
qed

text \<open>A stream of two batches, neither trimmed: the crash comes before the rename, and after a complete save.\<close>

definition first_batch :: event_batch where
  "first_batch = \<lparr>batch_seq = 7, batch_events = [BookDelta sol_usd Ask 15 3]\<rparr>"

definition second_batch :: event_batch where
  "second_batch = \<lparr>batch_seq = 8, batch_events = [BookDelta sol_usd Ask 15 0, BookDelta sol_usd Bid 12 4]\<rparr>"

definition demo_events :: "stream_entry list" where
  "demo_events = [(''1-0'', Some (code_text (ser_event_batch first_batch))), (''2-0'', Some (code_text (ser_event_batch second_batch)))]"

definition demo_event_range :: "string \<Rightarrow> stream_entry list" where
  "demo_event_range from = (if from = ''-'' then demo_events else if from = ''(1-0'' then tl demo_events else [])"

theorem bootstrap_exact_witness:
  "\<exists>k ops. save (enc_store demo_text (ho_books demo_orders)) k ''book'' ''1-0'' (apply_batch first_batch book_store_new) = (ops, True) \<and>
    (\<forall>j \<in> {0, length ops}. fst (bootstrap (dec_batch demo_text) (dec_store demo_text) (Some \<lparr>cfg_path = ''book'', cfg_every = 1\<rparr>)
        demo_event_range (fold fs_step (take j ops) Map.empty) book_store_new) = apply_batch second_batch (apply_batch first_batch book_store_new))"
proof -
  let ?d = "ho_books demo_orders" and ?c = "\<lparr>cfg_path = ''book'', cfg_every = 1\<rparr>" and ?dec = "dec_batch demo_text"
  let ?st = "apply_batch first_batch book_store_new"
  have d: "is_drain ?d" using demo_orders_ok by (simp add: orders_ok_def)
  have path: "with_extension ''tmp'' (cfg_path ?c) \<noteq> cfg_path ?c"
    by (simp add: with_extension_def file_name_def file_stem_def split_last_def)
  have dec: "?dec (code_text (ser_event_batch b)) = Some b" for b
    by (simp add: dec_batch_def demo_text_def event_batch_json.de_ser)
  let ?x = "(''1-0'', Some (code_text (ser_event_batch first_batch)))" and ?y = "(''2-0'', Some (code_text (ser_event_batch second_batch)))"
  have log: "stream_batches ?dec ([] @ [?x]) = [first_batch]" "stream_batches ?dec ([] @ [?x] @ [?y]) = [first_batch, second_batch]"
    by (simp_all add: entry_batch_def dec)
  have "store_inv ?st" using store_inv_batches [of book_store_new "[first_batch]"] by simp
  then obtain ops where ops: "save_ops (enc_store demo_text ?d) ''book'' ''1-0'' ?st = (ops, True)"
    by (simp add: save_ops_def enc_store_def store_inv_value Let_def)
  have sv: "save (enc_store demo_text ?d) (length ops) ''book'' ''1-0'' ?st = (ops, True)" by (simp add: save_def ops)
  have cov: "snapshot_covers ?dec (dec_store demo_text) (cfg_path ?c) ([] @ [?x]) 0 Map.empty" by (simp add: snapshot_covers_def load_def)
  have "serves demo_event_range ([] @ [?x] @ [?y]) 0"
    by (simp add: serves_def demo_event_range_def demo_events_def less_Suc_eq)
  from bootstrap_exact [OF demo_text_ok d path cov _ this, unfolded log, of "length ops" ops True] sv
  have "fst (bootstrap ?dec (dec_store demo_text) (Some ?c) demo_event_range (fold fs_step (take j ops) Map.empty) book_store_new) =
      apply_batch second_batch ?st" for j by simp
  then show ?thesis using sv by blast
qed

end
