(* ===== verification/Candle.thy ===== *)
theory Candle
  imports Decimal
begin

text \<open>
  \<open>src/candle.rs\<close>: the bucket widths that are maintained per trade, and the labels the API accepts for
  them.
\<close>

definition interval_widths :: "int list" where
  "interval_widths = [1, 900, 3600, 14400, 86400, 604800]"

definition interval_seconds :: "string \<Rightarrow> int option" where
  "interval_seconds label =
     (if label = ''1s'' then Some 1
      else if label = ''15m'' then Some 900
      else if label = ''1h'' then Some 3600
      else if label = ''4h'' then Some 14400
      else if label = ''1d'' then Some 86400
      else if label = ''1w'' then Some 604800
      else None)"

text \<open>The two lists agree in both directions: every label names a maintained width, and every
  maintained width has a label.\<close>

lemma interval_seconds_range: "(\<exists>label. interval_seconds label = Some w) \<longleftrightarrow> w \<in> set interval_widths"
proof
  assume "w \<in> set interval_widths"
  then consider "w = 1" | "w = 900" | "w = 3600" | "w = 14400" | "w = 86400" | "w = 604800"
    by (auto simp: interval_widths_def)
  then show "\<exists>label. interval_seconds label = Some w"
    by cases (rule exI [of _ "''1s''"] exI [of _ "''15m''"] exI [of _ "''1h''"] exI [of _ "''4h''"] exI [of _ "''1d''"]
        exI [of _ "''1w''"], simp add: interval_seconds_def)+
qed (auto simp: interval_seconds_def interval_widths_def split: if_splits)

lemma interval_widths_pos: "w \<in> set interval_widths \<Longrightarrow> 0 < w"
  by (auto simp: interval_widths_def)

end
