(* ===== verification/Db_Writer.thy ===== *)
theory Db_Writer
  imports Event_Stream Snapshot Candle
begin

text \<open>
  \<open>src/bin/db_writer.rs\<close>: the process that persists the \<open>events\<close> stream. The database is the four tables
  of \<open>migrations/\<close>, each a map from its primary key; every SQL statement of \<open>apply_event\<close> is a function on
  them. \<open>NUMERIC\<close> columns hold \<open>u64\<close> values exactly; the \<open>BIGINT\<close> columns of the candles are signed
  64-bit, and a sum that leaves their range is an error that aborts the transaction.
\<close>

section \<open>Tables\<close>

record trade_row =
  tr_pair :: string
  tr_price :: u64
  tr_qty :: u64
  tr_maker_id :: u64
  tr_taker_id :: u64
  tr_taker_side :: string
  tr_maker_account :: u64
  tr_taker_account :: u64
  tr_created_ms :: int

record candle_row =
  cd_open :: int
  cd_high :: int
  cd_low :: int
  cd_close :: int
  cd_volume :: int

record balance_row =
  bal_available :: u64
  bal_reserved :: u64
  bal_updated_at :: int

record order_row =
  or_account :: u64
  or_pair :: string
  or_side :: string
  or_type :: string
  or_price :: u64
  or_size :: u64
  or_filled_qty :: u64
  or_status :: string
  or_updated_at :: int

type_synonym candle_key = "string \<times> int \<times> int"

record db =
  db_trades :: "string \<rightharpoonup> trade_row"
  db_candles :: "candle_key \<rightharpoonup> candle_row"
  db_balances :: "u64 \<times> string \<rightharpoonup> balance_row"
  db_orders :: "u64 \<rightharpoonup> order_row"

definition db_empty :: db where
  "db_empty = \<lparr>db_trades = Map.empty, db_candles = Map.empty, db_balances = Map.empty, db_orders = Map.empty\<rparr>"

datatype db_error = BigintOutOfRange

text \<open>The writer's own clock, in unix milliseconds, and the database's \<open>now()\<close>.\<close>

record clocks =
  wall_ms :: int
  db_now :: int

section \<open>apply_event\<close>

definition side_text :: "side \<Rightarrow> string" where
  "side_text s = (case s of Bid \<Rightarrow> ''Bid'' | Ask \<Rightarrow> ''Ask'')"

definition order_type_text :: "order_type \<Rightarrow> string" where
  "order_type_text t = (case t of Limit \<Rightarrow> ''Limit'' | Market \<Rightarrow> ''Market'')"

definition entry_millis :: "string \<Rightarrow> int option" where
  "entry_millis entry_id = (case split_once (CHR ''-'') entry_id of None \<Rightarrow> None | Some (ms, _) \<Rightarrow> parse_i64 ms)"

text \<open>\<open>INSERT INTO trades ... ON CONFLICT DO NOTHING RETURNING event_id\<close>.\<close>

definition insert_trade :: "string \<Rightarrow> trade \<Rightarrow> int \<Rightarrow> db \<Rightarrow> db \<times> bool" where
  "insert_trade event_id t millis d =
     (case db_trades d event_id of
        Some _ \<Rightarrow> (d, False)
      | None \<Rightarrow>
          (d\<lparr>db_trades := (db_trades d)(event_id \<mapsto>
               \<lparr>tr_pair = pair_display (trd_pair t), tr_price = trd_price t, tr_qty = trd_qty t, tr_maker_id = trd_maker_id t,
                tr_taker_id = trd_taker_id t, tr_taker_side = side_text (trd_taker_side t),
                tr_maker_account = trd_maker_account t, tr_taker_account = trd_taker_account t,
                tr_created_ms = millis\<rparr>)\<rparr>, True))"

text \<open>Integer division of the code and of SQL truncates towards zero; an \<open>as i64\<close> cast keeps the bits.\<close>

definition tdiv :: "int \<Rightarrow> int \<Rightarrow> int" where
  "tdiv a b = (if a < 0 then - ((- a) div b) else a div b)"

definition as_i64 :: "u64 \<Rightarrow> int" where
  "as_i64 x = sint x"

definition bigint_add :: "int \<Rightarrow> int \<Rightarrow> db_error + int" where
  "bigint_add a b = (if - (2 ^ 63) \<le> a + b \<and> a + b < 2 ^ 63 then Inr (a + b) else Inl BigintOutOfRange)"

definition bucket_of :: "int \<Rightarrow> int \<Rightarrow> int" where
  "bucket_of millis w = tdiv (tdiv millis 1000) w * w"

definition upsert_candle :: "trade \<Rightarrow> int \<Rightarrow> int \<Rightarrow> (candle_key \<rightharpoonup> candle_row) \<Rightarrow> db_error + (candle_key \<rightharpoonup> candle_row)" where
  "upsert_candle t millis w cs =
     (let key = (pair_display (trd_pair t), w, bucket_of millis w);
          price = as_i64 (trd_price t);
          qty = as_i64 (trd_qty t)
      in case cs key of
           None \<Rightarrow> Inr (cs(key \<mapsto> \<lparr>cd_open = price, cd_high = price, cd_low = price, cd_close = price, cd_volume = qty\<rparr>))
         | Some r \<Rightarrow>
             (case bigint_add (cd_volume r) qty of
                Inl e \<Rightarrow> Inl e
              | Inr v \<Rightarrow> Inr (cs(key \<mapsto> r\<lparr>cd_high := max (cd_high r) price, cd_low := min (cd_low r) price,
                                          cd_close := price, cd_volume := v\<rparr>))))"

fun upsert_candles :: "trade \<Rightarrow> int \<Rightarrow> int list \<Rightarrow> (candle_key \<rightharpoonup> candle_row) \<Rightarrow> db_error + (candle_key \<rightharpoonup> candle_row)" where
  "upsert_candles t millis [] cs = Inr cs"
| "upsert_candles t millis (w # ws) cs =
     (case upsert_candle t millis w cs of Inl e \<Rightarrow> Inl e | Inr cs' \<Rightarrow> upsert_candles t millis ws cs')"

fun apply_event :: "clocks \<Rightarrow> string \<Rightarrow> event \<Rightarrow> db \<Rightarrow> db_error + db" where
  "apply_event clk entry_id (Trade t) d =
     (let millis = (case entry_millis entry_id of Some m \<Rightarrow> m | None \<Rightarrow> wall_ms clk)
      in case insert_trade entry_id t millis d of
           (d1, False) \<Rightarrow> Inr d1
         | (d1, True) \<Rightarrow>
             (case upsert_candles t millis interval_widths (db_candles d1) of
                Inl e \<Rightarrow> Inl e
              | Inr cs \<Rightarrow> Inr (d1\<lparr>db_candles := cs\<rparr>)))"
| "apply_event clk entry_id (BalanceChanged a c av rs) d =
     Inr (d\<lparr>db_balances := (db_balances d)((a, currency_display c) \<mapsto>
       \<lparr>bal_available = av, bal_reserved = rs, bal_updated_at = db_now clk\<rparr>)\<rparr>)"
| "apply_event clk entry_id (OrderAccepted i a p s ty price sz) d =
     Inr (case db_orders d i of
            Some _ \<Rightarrow> d
          | None \<Rightarrow> d\<lparr>db_orders := (db_orders d)(i \<mapsto>
              \<lparr>or_account = a, or_pair = pair_display p, or_side = side_text s, or_type = order_type_text ty, or_price = price,
               or_size = sz, or_filled_qty = 0, or_status = ''open'', or_updated_at = db_now clk\<rparr>)\<rparr>)"
| "apply_event clk entry_id (OrderCancelled i) d =
     Inr (d\<lparr>db_orders := (db_orders d)(i := map_option (\<lambda>r. r\<lparr>or_status := ''cancelled'', or_updated_at := db_now clk\<rparr>) (db_orders d i))\<rparr>)"
| "apply_event clk entry_id (OrderUpdated i a p filled remaining st) d =
     Inr (d\<lparr>db_orders := (db_orders d)(i := map_option (\<lambda>r. r\<lparr>or_filled_qty := filled, or_status := order_status_display st,
       or_updated_at := db_now clk\<rparr>) (db_orders d i))\<rparr>)"
| "apply_event clk entry_id (BookDelta p s price x) d = Inr d"

section \<open>The ingestion loop\<close>

definition event_id :: "u64 \<Rightarrow> nat \<Rightarrow> string" where
  "event_id sq i = dec_of_nat (unat sq) @ '':'' @ dec_of_nat i"

fun apply_events :: "clocks \<Rightarrow> u64 \<Rightarrow> nat \<Rightarrow> event list \<Rightarrow> db \<Rightarrow> db_error + db" where
  "apply_events clk sq i [] d = Inr d"
| "apply_events clk sq i (ev # evs) d =
     (case apply_event clk (event_id sq i) ev d of Inl e \<Rightarrow> Inl e | Inr d' \<Rightarrow> apply_events clk sq (Suc i) evs d')"

definition write_batch :: "clocks \<Rightarrow> event_batch \<Rightarrow> db \<Rightarrow> db_error + db" where
  "write_batch clk batch d = apply_events clk (batch_seq batch) 0 (batch_events batch) d"

type_synonym staging = "db \<times> string list \<times> string list"

fun stage_entries ::
    "(string \<Rightarrow> event_batch option) \<Rightarrow> clocks \<Rightarrow> (string \<times> string option) list \<Rightarrow> staging \<Rightarrow> db_error + staging" where
  "stage_entries dec clk [] s = Inr s"
| "stage_entries dec clk ((entry_id, data) # es) (tx, staged, poison) =
     (case (case data of None \<Rightarrow> None | Some x \<Rightarrow> dec x) of
        None \<Rightarrow> stage_entries dec clk es (tx, staged, poison @ [entry_id])
      | Some batch \<Rightarrow>
          (case write_batch clk batch tx of
             Inl e \<Rightarrow> Inl e
           | Inr tx' \<Rightarrow> stage_entries dec clk es (tx', staged @ [entry_id], poison)))"

definition trim_every_batches :: u64 where
  "trim_every_batches = 100"

datatype writer_effect = CommitTx db | AckEvent string | TrimEvents string

text \<open>One iteration of the loop of \<open>main\<close> after the read: the effects in order, and the new trim counter.
  An error ends the process before any of them.\<close>

definition ingest ::
    "(string \<Rightarrow> event_batch option) \<Rightarrow> clocks \<Rightarrow> string option \<Rightarrow> (string \<times> string option) list \<Rightarrow> db \<Rightarrow> u64 \<Rightarrow>
     db_error + (writer_effect list \<times> u64)" where
  "ingest dec clk book_key reply d since =
     (case stage_entries dec clk reply (d, [], []) of
        Inl e \<Rightarrow> Inl e
      | Inr (tx, staged, poison) \<Rightarrow>
          (let effs = (if staged = [] then [] else [CommitTx tx]) @ map AckEvent (staged @ poison)
           in if staged = [] then Inr (effs, since)
              else if since + 1 \<ge> trim_every_batches
              then Inr (effs @ (case book_key of None \<Rightarrow> [] | Some book \<Rightarrow> [TrimEvents (earlier (last staged) book)]), 0)
              else Inr (effs, since + 1)))"

section \<open>Trade times\<close>

text \<open>The ids that \<open>main\<close> passes to \<open>apply_event\<close> are of the form \<open>seq:index\<close>, in which \<open>entry_millis\<close>
  finds no \<open>-\<close>: every trade is stamped with the writer's clock.\<close>

lemma event_id_no_dash [simp]: "CHR ''-'' \<notin> set (event_id sq i)"
  by (simp add: event_id_def)

lemma entry_millis_event_id [simp]: "entry_millis (event_id sq i) = None"
  by (simp add: entry_millis_def split_once_None [THEN iffD2])

lemma trade_time_is_wall_clock:
  "db_trades d (event_id sq i) = None \<Longrightarrow> apply_event clk (event_id sq i) (Trade t) d = Inr d' \<Longrightarrow>
   \<exists>row. db_trades d' (event_id sq i) = Some row \<and> tr_created_ms row = wall_ms clk"
  by (auto simp: insert_trade_def Let_def split: sum.splits)

lemma event_id_inj: "event_id sq i = event_id sq' i' \<longleftrightarrow> sq = sq' \<and> i = i'"
proof -
  have colon: "CHR '':'' \<notin> set (dec_of_nat n)" for n
  proof
    assume "CHR '':'' \<in> set (dec_of_nat n)"
    then obtain k where k: "k < 10" "CHR '':'' = digit k" using dec_of_nat_digits [of n] by blast
    then have "(of_char (CHR '':'') :: nat) = 48 + k" using of_char_digit [of k] by simp
    then show False using k(1) by simp
  qed
  have split: "split_once (CHR '':'') (event_id sq i) = Some (dec_of_nat (unat sq), dec_of_nat i)" for sq i
    unfolding event_id_def using split_once_first [OF colon] by simp
  have inj: "dec_of_nat m = dec_of_nat n \<Longrightarrow> m = n" for m n using parse_digits_dec by (metis option.inject)
  show ?thesis
  proof
    assume "event_id sq i = event_id sq' i'"
    then have "dec_of_nat (unat sq) = dec_of_nat (unat sq')" "dec_of_nat i = dec_of_nat i'" using split by (metis option.inject prod.inject)+
    then show "sq = sq' \<and> i = i'" using inj by (metis unsigned_word_eqI)
  qed simp
qed

end
