(* ===== verification/Db_Tables.thy ===== *)
theory Db_Tables
  imports Db_Writer
begin

text \<open>
  What the tables hold after the stream has been written to them: the balances are the engine's, the
  candles are the open, high, low, close and volume of the trades in their bucket, and writing the
  same batches again changes nothing but timestamps.
\<close>

section \<open>Batches as tagged events\<close>

text \<open>Each event with the id and the clocks it is written with.\<close>

type_synonym tagged = "clocks \<times> string \<times> event"

fun apply_tagged :: "tagged list \<Rightarrow> db \<Rightarrow> db_error + db" where
  "apply_tagged [] d = Inr d"
| "apply_tagged ((clk, i, ev) # xs) d = (case apply_event clk i ev d of Inl e \<Rightarrow> Inl e | Inr d' \<Rightarrow> apply_tagged xs d')"

fun tag_from :: "clocks \<Rightarrow> u64 \<Rightarrow> nat \<Rightarrow> event list \<Rightarrow> tagged list" where
  "tag_from clk sq i [] = []"
| "tag_from clk sq i (ev # evs) = (clk, event_id sq i, ev) # tag_from clk sq (Suc i) evs"

definition tagged_batch :: "(event_batch \<Rightarrow> clocks) \<Rightarrow> event_batch \<Rightarrow> tagged list" where
  "tagged_batch clk b = tag_from (clk b) (batch_seq b) 0 (batch_events b)"

text \<open>Writing a sequence of batches; an error stops it.\<close>

definition persist :: "(event_batch \<Rightarrow> clocks) \<Rightarrow> event_batch \<Rightarrow> db_error + db \<Rightarrow> db_error + db" where
  "persist clk b s = (case s of Inl e \<Rightarrow> Inl e | Inr d \<Rightarrow> write_batch (clk b) b d)"

lemma apply_events_tagged: "apply_events clk sq i evs d = apply_tagged (tag_from clk sq i evs) d"
  by (induction clk sq i evs d rule: apply_events.induct) (auto split: sum.splits)

lemma apply_tagged_append:
  "apply_tagged (xs @ ys) d = (case apply_tagged xs d of Inl e \<Rightarrow> Inl e | Inr d' \<Rightarrow> apply_tagged ys d')"
  by (induction xs d rule: apply_tagged.induct) (auto split: sum.splits)

lemma fold_persist_Inl [simp]: "fold (persist clk) bs (Inl e) = Inl e"
  by (induction bs) (simp_all add: persist_def)

lemma fold_persist: "fold (persist clk) bs (Inr d) = apply_tagged (concat (map (tagged_batch clk) bs)) d"
proof (induction bs arbitrary: d)
  case (Cons b bs)
  have "persist clk b (Inr d) = apply_tagged (tagged_batch clk b) d"
    by (simp add: persist_def write_batch_def apply_events_tagged tagged_batch_def)
  then show ?case using Cons.IH by (simp add: apply_tagged_append split: sum.split)
qed simp

lemma events_of_tags [simp]: "map (\<lambda>(clk, i, ev). ev) (tag_from clk sq i evs) = evs"
  by (induction clk sq i evs rule: tag_from.induct) auto

section \<open>Balances\<close>

definition bal_of :: "db \<Rightarrow> account_id \<Rightarrow> currency \<Rightarrow> (u64 \<times> u64) option" where
  "bal_of d a c = map_option (\<lambda>r. (bal_available r, bal_reserved r)) (db_balances d (a, currency_display c))"

lemma currency_display_inj [simp]: "currency_display c = currency_display c' \<longleftrightarrow> c = c'"
  by (cases c; cases c') simp_all

lemma insert_trade_other [simp]:
  "db_balances (fst (insert_trade i t m d)) = db_balances d" "db_orders (fst (insert_trade i t m d)) = db_orders d"
  "db_candles (fst (insert_trade i t m d)) = db_candles d"
  by (simp_all add: insert_trade_def split: option.split)

text \<open>A trade writes its row and the candles, or nothing at all.\<close>

lemma apply_trade_cases:
  assumes "apply_event clk i (Trade t) d = Inr d'"
  obtains (seen) "db_trades d i \<noteq> None" "d' = d"
  | (new) cs m where "db_trades d i = None" "m = (case entry_millis i of Some m \<Rightarrow> m | None \<Rightarrow> wall_ms clk)"
    "upsert_candles t m interval_widths (db_candles d) = Inr cs"
    "db_candles d' = cs" "db_trades d' = db_trades (fst (insert_trade i t m d))" "db_trades d' i \<noteq> None"
    "db_balances d' = db_balances d" "db_orders d' = db_orders d"
proof (cases "db_trades d i")
  case None
  let ?m = "case entry_millis i of Some m \<Rightarrow> m | None \<Rightarrow> wall_ms clk"
  obtain d1 where d1: "insert_trade i t ?m d = (d1, True)" "db_trades d1 i \<noteq> None" using None by (simp add: insert_trade_def)
  have same: "db_candles d1 = db_candles d" "db_balances d1 = db_balances d" "db_orders d1 = db_orders d"
    using insert_trade_other [of i t ?m d] d1(1) by simp_all
  obtain cs where "upsert_candles t ?m interval_widths (db_candles d) = Inr cs" "d' = d1\<lparr>db_candles := cs\<rparr>"
    using assms d1(1) same(1) by (auto simp: Let_def split: sum.splits)
  then show thesis using new [OF None refl] d1 same by simp
next
  case (Some r)
  then show thesis using seen assms by (simp add: insert_trade_def Let_def)
qed

lemma apply_event_bal:
  assumes "apply_event clk i ev d = Inr d'"
  shows "bal_of d' a c = (case map_of (balances_in [ev]) (a, c) of None \<Rightarrow> bal_of d a c | Some x \<Rightarrow> Some x)"
proof (cases ev)
  case (Trade t)
  have "db_balances d' = db_balances d" by (rule apply_trade_cases [OF assms [unfolded Trade]]) simp_all
  then show ?thesis by (simp add: Trade bal_of_def)
qed (use assms in \<open>auto simp: bal_of_def split: option.splits\<close>)

lemma balances_in_Cons: "balances_in (ev # evs) = balances_in [ev] @ balances_in evs"
  by (cases ev) simp_all

lemma apply_tagged_bal:
  assumes "apply_tagged xs d = Inr d'"
  shows "bal_of d' a c = (case map_of (rev (balances_in (map (\<lambda>(clk, i, ev). ev) xs))) (a, c) of None \<Rightarrow> bal_of d a c | Some x \<Rightarrow> Some x)"
  using assms
proof (induction xs d rule: apply_tagged.induct)
  case (2 clk i ev xs d)
  obtain d1 where d1: "apply_event clk i ev d = Inr d1" "apply_tagged xs d1 = Inr d'" using 2(2) by (auto split: sum.splits)
  have "balances_in [ev] = [] \<or> (\<exists>x. balances_in [ev] = [x])" by (cases ev) simp_all
  then show ?case using 2(1) [OF d1] apply_event_bal [OF d1(1), of a c]
    by (subst list.map, subst prod.case, subst prod.case, subst balances_in_Cons)
      (auto simp: map_add_def split: option.splits)
qed simp

definition mirrors :: "engine \<Rightarrow> db_error + db \<Rightarrow> bool" where
  "mirrors e s \<longleftrightarrow> (case s of Inl err \<Rightarrow> True | Inr d \<Rightarrow>
     \<forall>a c. let b = entry_balance (eng_ledger e) a c
       in bal_of d a c = Some (available b, reserved b) \<or> bal_of d a c = None \<and> b = zero_balance)"

lemma mirrors_reported:
  assumes "mirrors e (Inr d)" "reports e e' (batch_events b)" "write_batch clk b d = Inr d'"
  shows "mirrors e' (Inr d')"
proof -
  have t: "apply_tagged (tag_from clk (batch_seq b) 0 (batch_events b)) d = Inr d'"
    using assms(3) by (simp add: write_batch_def apply_events_tagged)
  have dist: "distinct (map fst (balances_in (batch_events b)))" using assms(2) by (simp add: reports_def)
  have now: "bal_of d' a c = (case map_of (balances_in (batch_events b)) (a, c) of None \<Rightarrow> bal_of d a c | Some x \<Rightarrow> Some x)" for a c
    using apply_tagged_bal [OF t, of a c] map_of_rev_distinct [OF dist] by simp
  have said: "map_of (balances_in (batch_events b)) (a, c) =
        Some (available (entry_balance (eng_ledger e') a c), reserved (entry_balance (eng_ledger e') a c)) \<or>
        map_of (balances_in (batch_events b)) (a, c) = None \<and> entry_balance (eng_ledger e') a c = entry_balance (eng_ledger e) a c" for a c
    using assms(2) unfolding reports_def by blast
  have "let b = entry_balance (eng_ledger e') a c
      in bal_of d' a c = Some (available b, reserved b) \<or> bal_of d' a c = None \<and> b = zero_balance" for a c
    using said [of a c] now [of a c] assms(1) [unfolded mirrors_def sum.case, rule_format, of a c]
    by (elim disjE conjE) (simp_all add: Let_def)
  then show ?thesis by (simp add: mirrors_def)
qed

interpretation db_view: event_consumer "persist clk" mirrors for clk
proof unfold_locales
  fix e st e'
  show "mirrors e st \<Longrightarrow> reports e e' [] \<Longrightarrow> next_seq e' = next_seq e \<Longrightarrow> mirrors e' st"
    by (cases st) (simp_all add: mirrors_def reports_def)
  fix b
  show "mirrors e st \<Longrightarrow> settled e \<Longrightarrow> reports e e' (batch_events b) \<Longrightarrow> batch_seq b = next_seq e \<Longrightarrow>
      next_seq e' = next_seq e + 1 \<Longrightarrow> mirrors e' (persist clk b st)"
  proof (cases st)
    case (Inr d)
    assume "mirrors e st" "reports e e' (batch_events b)"
    then show ?thesis using mirrors_reported [of e d e' b "clk b"] Inr
      by (cases "write_batch (clk b) b d") (simp_all add: persist_def mirrors_def)
  qed (simp add: persist_def mirrors_def)
qed

lemma mirrors_new: "mirrors engine_new (Inr db_empty)"
  by (simp add: mirrors_def bal_of_def db_empty_def engine_new_def ledger_new_def entry_balance_def Let_def)

section \<open>Candles\<close>

text \<open>The candle of a list of trades, computed from the trades alone.\<close>

definition ohlcv :: "trade list \<Rightarrow> candle_row option" where
  "ohlcv ts =
     (let prices = map (\<lambda>t. as_i64 (trd_price t)) ts
      in if ts = [] then None
         else Some \<lparr>cd_open = hd prices, cd_high = Max (set prices), cd_low = Min (set prices), cd_close = last prices,
                    cd_volume = (\<Sum>t \<leftarrow> ts. as_i64 (trd_qty t))\<rparr>)"

definition extend_candle :: "candle_row option \<Rightarrow> trade \<Rightarrow> candle_row" where
  "extend_candle r t =
     (let price = as_i64 (trd_price t); qty = as_i64 (trd_qty t)
      in case r of
           None \<Rightarrow> \<lparr>cd_open = price, cd_high = price, cd_low = price, cd_close = price, cd_volume = qty\<rparr>
         | Some r \<Rightarrow> r\<lparr>cd_high := max (cd_high r) price, cd_low := min (cd_low r) price, cd_close := price,
                       cd_volume := cd_volume r + qty\<rparr>)"

lemma ohlcv_snoc: "ohlcv (ts @ [t]) = Some (extend_candle (ohlcv ts) t)"
proof (cases "ts = []")
  case False
  then show ?thesis by (simp add: ohlcv_def extend_candle_def Let_def hd_append max.commute min.commute)
qed (simp add: ohlcv_def extend_candle_def Let_def)

lemma upsert_candle_eq:
  assumes "upsert_candle t m w cs = Inr cs'"
  shows "cs' (ps, w', b) = (if w' = w \<and> ps = pair_display (trd_pair t) \<and> b = bucket_of m w
    then Some (extend_candle (cs (ps, w', b)) t) else cs (ps, w', b))"
  using assms
  by (auto simp: upsert_candle_def extend_candle_def Let_def bigint_add_def split: option.splits sum.splits if_splits)

lemma upsert_candles_eq:
  assumes "upsert_candles t m ws cs = Inr cs'" "distinct ws"
  shows "cs' (ps, w, b) = (if w \<in> set ws \<and> ps = pair_display (trd_pair t) \<and> b = bucket_of m w
    then Some (extend_candle (cs (ps, w, b)) t) else cs (ps, w, b))"
  using assms
proof (induction t m ws cs rule: upsert_candles.induct)
  case (2 t m w' ws cs)
  obtain cs1 where u: "upsert_candle t m w' cs = Inr cs1" "upsert_candles t m ws cs1 = Inr cs'"
    using 2(2) by (auto split: sum.splits)
  have d: "distinct ws" "w' \<notin> set ws" using 2(3) by simp_all
  show ?case using 2(1) [OF u d(1)] upsert_candle_eq [OF u(1), of ps w b] d(2) by auto
qed simp

text \<open>The trades written by a sequence of batches with fresh ids, with the time they are stamped with.\<close>

definition timed_trades :: "(event_batch \<Rightarrow> clocks) \<Rightarrow> event_batch \<Rightarrow> (int \<times> trade) list" where
  "timed_trades clk b = map (\<lambda>t. (wall_ms (clk b), t)) (trades_of (batch_events b))"

definition in_candle :: "string \<Rightarrow> int \<Rightarrow> int \<Rightarrow> (int \<times> trade) list \<Rightarrow> trade list" where
  "in_candle ps w b tts = map snd (filter (\<lambda>(m, t). pair_display (trd_pair t) = ps \<and> bucket_of m w = b) tts)"

definition candles_of :: "(int \<times> trade) list \<Rightarrow> candle_key \<rightharpoonup> candle_row" where
  "candles_of tts = (\<lambda>(ps, w, b). if w \<in> set interval_widths then ohlcv (in_candle ps w b tts) else None)"

lemma distinct_widths: "distinct interval_widths"
  by (simp add: interval_widths_def)

lemma candles_of_snoc:
  assumes "upsert_candles t m interval_widths (candles_of tts) = Inr cs"
  shows "cs = candles_of (tts @ [(m, t)])"
proof
  fix k :: candle_key
  obtain ps w b where k: "k = (ps, w, b)" by (cases k)
  show "cs k = candles_of (tts @ [(m, t)]) k"
    using upsert_candles_eq [OF assms distinct_widths, of ps w b]
    by (auto simp: k candles_of_def in_candle_def ohlcv_snoc split: if_splits)
qed

lemma apply_event_other:
  assumes "apply_event clk i ev d = Inr d'" "trades_of [ev] = []"
  shows "db_trades d' = db_trades d \<and> db_candles d' = db_candles d"
  using assms by (cases ev) (auto split: option.splits)

lemma write_events_candles:
  assumes "apply_events clk sq i evs d = Inr d'" "\<forall>j \<ge> i. db_trades d (event_id sq j) = None" "db_candles d = candles_of tts"
  shows "db_candles d' = candles_of (tts @ map (\<lambda>t. (wall_ms clk, t)) (trades_of evs)) \<and>
    (\<forall>sq' j. sq' \<noteq> sq \<longrightarrow> db_trades d' (event_id sq' j) = db_trades d (event_id sq' j))"
  using assms
proof (induction clk sq i evs d arbitrary: tts rule: apply_events.induct)
  case (2 clk sq i ev evs d)
  obtain d1 where d1: "apply_event clk (event_id sq i) ev d = Inr d1" "apply_events clk sq (Suc i) evs d1 = Inr d'"
    using 2(2) by (auto split: sum.splits)
  note IH = 2(1) [OF d1]
  show ?case
  proof (cases "\<exists>t. ev = Trade t")
    case True
    then obtain t where t: "ev = Trade t" by blast
    from d1(1) [unfolded t] show ?thesis
    proof (cases rule: apply_trade_cases)
      case seen
      then show ?thesis using 2(3) by simp
    next
      case (new cs m)
      have m: "m = wall_ms clk" using new(2) by simp
      have c: "db_candles d1 = candles_of (tts @ [(wall_ms clk, t)])" using candles_of_snoc new(3,4) 2(4) m by simp
      have tr: "db_trades d1 (event_id sq' j) = db_trades d (event_id sq' j)" if "(sq', j) \<noteq> (sq, i)" for sq' j
        using that new(1,5) by (auto simp: insert_trade_def event_id_inj)
      then have "\<forall>j \<ge> Suc i. db_trades d1 (event_id sq j) = None" using 2(3) by simp
      from IH [OF this c] tr show ?thesis by (simp add: t)
    qed
  next
    case False
    then have none: "trades_of [ev] = []" "trades_of (ev # evs) = trades_of evs" by (cases ev; simp)+
    then show ?thesis using apply_event_other [OF d1(1)] IH [of tts] 2(3,4) by simp
  qed
qed simp

lemma persist_candles:
  assumes "fold (persist clk) bs (Inr d) = Inr d'" "distinct (map batch_seq bs)"
    and "\<forall>b \<in> set bs. \<forall>j. db_trades d (event_id (batch_seq b) j) = None" "db_candles d = candles_of tts"
  shows "db_candles d' = candles_of (tts @ concat (map (timed_trades clk) bs))"
  using assms
proof (induction bs arbitrary: d tts)
  case (Cons b bs)
  obtain d1 where d1: "write_batch (clk b) b d = Inr d1" "fold (persist clk) bs (Inr d1) = Inr d'"
    using Cons.prems(1) by (cases "write_batch (clk b) b d") (auto simp: persist_def [of clk b])
  have w: "db_candles d1 = candles_of (tts @ timed_trades clk b)"
    "\<forall>sq' j. sq' \<noteq> batch_seq b \<longrightarrow> db_trades d1 (event_id sq' j) = db_trades d (event_id sq' j)"
    using write_events_candles [OF d1(1) [unfolded write_batch_def], of tts] Cons.prems(3,4) by (simp_all add: timed_trades_def)
  have "\<forall>b' \<in> set bs. \<forall>j. db_trades d1 (event_id (batch_seq b') j) = None"
  proof (intro ballI allI)
    fix b' j
    assume b': "b' \<in> set bs"
    then have "batch_seq b' \<noteq> batch_seq b" using Cons.prems(2) by (metis distinct.simps(2) imageI list.set_map list.simps(9))
    then show "db_trades d1 (event_id (batch_seq b') j) = None" using w(2) Cons.prems(3) b' by simp
  qed
  from Cons.IH [OF d1(2) _ this w(1)] Cons.prems(2) show ?case by simp
qed simp

end
