(* ===== verification/Db_Properties.thy ===== *)
theory Db_Properties
  imports Db_Tables
begin

text \<open>
  The promises of the database writer's tables: mirrored balances, exact candles, and the harmlessness
  of redelivery.
\<close>

section \<open>Order rows\<close>

text \<open>An order's row without its timestamp, and what an event does to it.\<close>

definition ord_of :: "db \<Rightarrow> u64 \<Rightarrow> order_row option" where
  "ord_of d i = map_option (\<lambda>r. r\<lparr>or_updated_at := 0\<rparr>) (db_orders d i)"

fun ord_step :: "u64 \<Rightarrow> event \<Rightarrow> order_row option \<Rightarrow> order_row option" where
  "ord_step i (OrderAccepted j a p s ty price sz) r =
     (if j = i \<and> r = None
      then Some \<lparr>or_account = a, or_pair = pair_display p, or_side = side_text s, or_type = order_type_text ty, or_price = price,
                 or_size = sz, or_filled_qty = 0, or_status = ''open'', or_updated_at = 0\<rparr>
      else r)"
| "ord_step i (OrderCancelled j) r = (if j = i then map_option (\<lambda>r. r\<lparr>or_status := ''cancelled''\<rparr>) r else r)"
| "ord_step i (OrderUpdated j a p filled remaining st) r =
     (if j = i then map_option (\<lambda>r. r\<lparr>or_filled_qty := filled, or_status := order_status_display st\<rparr>) r else r)"
| "ord_step i _ r = r"

lemma apply_event_ord:
  assumes "apply_event clk x ev d = Inr d'"
  shows "ord_of d' i = ord_step i ev (ord_of d i)"
proof (cases ev)
  case (Trade t)
  have "db_orders d' = db_orders d" by (rule apply_trade_cases [OF assms [unfolded Trade]]) simp_all
  then show ?thesis by (simp add: Trade ord_of_def)
next
  case (OrderCancelled j)
  then show ?thesis using assms by (cases "db_orders d i") (auto simp: ord_of_def)
next
  case (OrderUpdated j a p f rem st)
  then show ?thesis using assms by (cases "db_orders d i") (auto simp: ord_of_def)
qed (use assms in \<open>auto simp: ord_of_def split: option.splits\<close>)

lemma apply_tagged_ord:
  "apply_tagged xs d = Inr d' \<Longrightarrow> ord_of d' i = fold (ord_step i) (map (\<lambda>(clk, x, ev). ev) xs) (ord_of d i)"
  by (induction xs d rule: apply_tagged.induct) (auto simp: apply_event_ord split: sum.splits)

text \<open>On an existing row, any sequence of events sets some of the two mutable columns.\<close>

definition set_cols :: "u64 option \<times> string option \<Rightarrow> order_row \<Rightarrow> order_row" where
  "set_cols m r = r\<lparr>or_filled_qty := (case fst m of None \<Rightarrow> or_filled_qty r | Some f \<Rightarrow> f),
     or_status := (case snd m of None \<Rightarrow> or_status r | Some s \<Rightarrow> s)\<rparr>"

lemma set_cols_twice [simp]: "set_cols m (set_cols m r) = set_cols m r"
  by (simp add: set_cols_def split: option.split)

lemma set_cols_compose: "\<exists>m''. \<forall>r. set_cols m' (set_cols m r) = set_cols m'' r"
  by (rule exI [of _ "(case fst m' of None \<Rightarrow> fst m | f \<Rightarrow> f, case snd m' of None \<Rightarrow> snd m | s \<Rightarrow> s)"])
    (simp add: set_cols_def split: option.split)

lemma set_cols_none [simp]: "set_cols (None, None) r = r"
  by (simp add: set_cols_def)

lemma ord_step_Some: "\<exists>m. \<forall>r. ord_step i ev (Some r) = Some (set_cols m r)"
proof (cases ev)
  case (OrderCancelled j)
  then show ?thesis
    by (intro exI [of _ "(None, if j = i then Some ''cancelled'' else None)"]) (simp add: set_cols_def)
next
  case (OrderUpdated j a p f rem st)
  then show ?thesis
    by (intro exI [of _ "if j = i then (Some f, Some (order_status_display st)) else (None, None)"]) (simp add: set_cols_def)
qed (rule exI [of _ "(None, None)"], simp)+

lemma fold_ord_Some: "\<exists>m. \<forall>r. fold (ord_step i) evs (Some r) = Some (set_cols m r)"
proof (induction evs)
  case Nil
  show ?case by (rule exI [of _ "(None, None)"]) simp
next
  case (Cons ev evs)
  obtain m1 m2 where "\<forall>r. ord_step i ev (Some r) = Some (set_cols m1 r)" "\<forall>r. fold (ord_step i) evs (Some r) = Some (set_cols m2 r)"
    using Cons ord_step_Some by blast
  then show ?case using set_cols_compose [of m2 m1] by auto
qed

text \<open>The stream mentions an order only after its acceptance.\<close>

fun known :: "u64 set \<Rightarrow> event list \<Rightarrow> bool" where
  "known S [] = True"
| "known S (OrderAccepted i a p s ty price sz # evs) = known (insert i S) evs"
| "known S (OrderCancelled i # evs) = (i \<in> S \<and> known S evs)"
| "known S (OrderUpdated i a p filled remaining st # evs) = (i \<in> S \<and> known S evs)"
| "known S (_ # evs) = known S evs"

lemma fold_ord_None:
  "known S evs \<Longrightarrow> i \<notin> S \<Longrightarrow> fold (ord_step i) evs None = None \<or>
     (\<exists>m r0. fold (ord_step i) evs None = Some (set_cols m r0) \<and> (\<forall>r. fold (ord_step i) evs (Some r) = Some (set_cols m r)))"
proof (induction S evs rule: known.induct)
  case (2 S j a p s ty price sz evs)
  show ?case
  proof (cases "j = i")
    case True
    then show ?thesis using fold_ord_Some [of i evs] by auto
  qed (use 2 in auto)
qed auto

lemma fold_ord_twice:
  assumes "known S evs" "r = None \<longrightarrow> i \<notin> S"
  shows "fold (ord_step i) evs (fold (ord_step i) evs r) = fold (ord_step i) evs r"
proof (cases r)
  case None
  then show ?thesis using fold_ord_None [OF assms(1), of i] assms(2) by auto
next
  case (Some x)
  then show ?thesis using fold_ord_Some [of i evs] by auto
qed

section \<open>Redelivery\<close>

lemma trades_present:
  "apply_tagged xs d = Inr d' \<Longrightarrow> dom (db_trades d) \<subseteq> dom (db_trades d') \<and> (\<forall>(clk, i, ev) \<in> set xs. trades_of [ev] \<noteq> [] \<longrightarrow> i \<in> dom (db_trades d'))"
proof (induction xs d rule: apply_tagged.induct)
  case (2 clk i ev xs d)
  obtain d1 where d1: "apply_event clk i ev d = Inr d1" "apply_tagged xs d1 = Inr d'" using 2(2) by (auto split: sum.splits)
  have "dom (db_trades d) \<subseteq> dom (db_trades d1) \<and> (trades_of [ev] \<noteq> [] \<longrightarrow> i \<in> dom (db_trades d1))"
  proof (cases "\<exists>t. ev = Trade t")
    case True
    then obtain t where t: "ev = Trade t" by blast
    from d1(1) [unfolded t] show ?thesis
      by (cases rule: apply_trade_cases) (auto simp: insert_trade_def split: option.splits if_splits)
  next
    case False
    then have "trades_of [ev] = []" by (cases ev) simp_all
    then show ?thesis using apply_event_other [OF d1(1)] by simp
  qed
  then show ?case using 2(1) [OF d1] by auto
qed simp

lemma redeliver:
  "\<forall>(clk, i, ev) \<in> set xs. trades_of [ev] \<noteq> [] \<longrightarrow> i \<in> dom (db_trades d) \<Longrightarrow>
   \<exists>d'. apply_tagged xs d = Inr d' \<and> db_trades d' = db_trades d \<and> db_candles d' = db_candles d"
proof (induction xs d rule: apply_tagged.induct)
  case (2 clk i ev xs d)
  have "\<exists>d1. apply_event clk i ev d = Inr d1 \<and> db_trades d1 = db_trades d \<and> db_candles d1 = db_candles d"
    using 2(2) by (cases ev) (auto simp: insert_trade_def Let_def split: option.split)
  then obtain d1 where d1: "apply_event clk i ev d = Inr d1" "db_trades d1 = db_trades d" "db_candles d1 = db_candles d" by blast
  then show ?case using 2(1) [OF d1(1)] 2(2) by auto
qed simp

lemma tags_same_ids:
  "(\<forall>(clk, i, ev) \<in> set (tag_from clk sq n evs). trades_of [ev] \<noteq> [] \<longrightarrow> i \<in> A) \<longleftrightarrow>
   (\<forall>(clk, i, ev) \<in> set (tag_from clk' sq n evs). trades_of [ev] \<noteq> [] \<longrightarrow> i \<in> A)"
  by (induction clk sq n evs rule: tag_from.induct) auto

lemma batches_same_ids:
  "\<forall>(clk, i, ev) \<in> set (concat (map (tagged_batch clk) bs)). trades_of [ev] \<noteq> [] \<longrightarrow> i \<in> A \<Longrightarrow>
   \<forall>(clk, i, ev) \<in> set (concat (map (tagged_batch clk') bs)). trades_of [ev] \<noteq> [] \<longrightarrow> i \<in> A"
proof (induction bs)
  case (Cons b bs)
  have "\<forall>(clk, i, ev) \<in> set (tagged_batch clk' b). trades_of [ev] \<noteq> [] \<longrightarrow> i \<in> A"
    unfolding tagged_batch_def by (rule tags_same_ids [THEN iffD1, of "clk b"]) (use Cons.prems in \<open>auto simp: tagged_batch_def\<close>)
  moreover have "\<forall>(clk, i, ev) \<in> set (concat (map (tagged_batch clk') bs)). trades_of [ev] \<noteq> [] \<longrightarrow> i \<in> A"
    using Cons by auto
  ultimately show ?case by auto
qed simp

lemma tagged_events: "map (\<lambda>(clk, i, ev). ev) (concat (map (tagged_batch clk) bs)) = concat (map batch_events bs)"
  by (induction bs) (simp_all add: tagged_batch_def)

section \<open>The promises\<close>

text \<open>The balances table mirrors the engine. After any run of the engine and a successful write of
  the batches it emitted, every account's row of a currency holds exactly its available and reserved
  balance, and an account without a row has neither.\<close>

lemma db_balances_mirror:
  assumes "hashing_ok es" "length es \<le> 10 ^ 14" "engine_run es engine_new = Some (e, outs)"
    and "fold (persist clk) (emitted outs) (Inr db_empty) = Inr d"
  shows "case db_balances d (a, currency_display c) of
      None \<Rightarrow> avail (eng_ledger e) a c = 0 \<and> resv (eng_ledger e) a c = 0
    | Some row \<Rightarrow> unat (bal_available row) = avail (eng_ledger e) a c \<and> unat (bal_reserved row) = resv (eng_ledger e) a c"
proof -
  have "mirrors e (Inr d)" using db_view.view_from_new [OF assms(1-3) mirrors_new, of clk] assms(4) by simp
  then have "let b = entry_balance (eng_ledger e) a c
      in bal_of d a c = Some (available b, reserved b) \<or> bal_of d a c = None \<and> b = zero_balance" by (simp add: mirrors_def)
  then show ?thesis
    by (auto simp: Let_def bal_of_def avail_def resv_def zero_balance_def split: option.splits)
qed

text \<open>Candles are exact: writing any sequence of batches with distinct numbers to an empty database
  makes each candle of a maintained width the open, high, low, close and volume of the trades that
  fell into its bucket.\<close>

lemma candles_are_exact:
  assumes "fold (persist clk) bs (Inr db_empty) = Inr d" "distinct (map batch_seq bs)" "w \<in> set interval_widths"
  shows "db_candles d (ps, w, b) = ohlcv (in_candle ps w b (concat (map (timed_trades clk) bs)))"
proof -
  have "db_candles db_empty = candles_of []" by (auto simp: db_empty_def candles_of_def in_candle_def ohlcv_def fun_eq_iff)
  moreover have "\<forall>b \<in> set bs. \<forall>j. db_trades db_empty (event_id (batch_seq b) j) = None" by (simp add: db_empty_def)
  ultimately have "db_candles d = candles_of (concat (map (timed_trades clk) bs))"
    using persist_candles [OF assms(1,2)] by fastforce
  then show ?thesis using assms(3) by (simp add: candles_of_def)
qed


section \<open>The session of the engine, persisted\<close>

definition noon :: clocks where
  "noon = \<lparr>wall_ms = 43200000, db_now = 43200\<rparr>"

lemmas db_eval = persist_def write_batch_def event_id_inj insert_trade_def db_empty_def upsert_candle_def interval_widths_def Let_def

lemma demo_persisted: "\<exists>d. fold (persist (\<lambda>b. noon)) (emitted demo_outs) (Inr db_empty) = Inr d"
  by (simp add: demo_outs_def db_eval)

lemma demo_seqs: "distinct (map batch_seq (emitted demo_outs))"
  by (simp add: demo_outs_def)


end
