(* ===== verification/Db_Service.thy ===== *)
theory Db_Service
  imports Db_Properties Log_Replay
begin

text \<open>
  The database writer in its environment: entries are appended to the \<open>events\<close> stream, the process reads
  up to ten new ones at a time through its consumer group, stages their rows in a transaction, commits it,
  acknowledges the entries and possibly trims the stream. It can crash between any two effects; the
  group's cursor, moved by the read, survives.
\<close>

record writer =
  wr_log :: "stream_entry list"
  wr_cursor :: nat
  wr_db :: db
  wr_acked :: "string list"
  wr_since :: u64
  wr_pending :: "writer_effect list option"

definition writer_new :: writer where
  "writer_new = \<lparr>wr_log = [], wr_cursor = 0, wr_db = db_empty, wr_acked = [], wr_since = 0, wr_pending = None\<rparr>"

fun writer_perform :: "writer_effect \<Rightarrow> writer \<Rightarrow> writer" where
  "writer_perform (CommitTx d) s = s\<lparr>wr_db := d\<rparr>"
| "writer_perform (AckEvent i) s = s\<lparr>wr_acked := wr_acked s @ [i]\<rparr>"
| "writer_perform (TrimEvents i) s = s"

inductive writer_step :: "(string \<Rightarrow> event_batch option) \<Rightarrow> writer \<Rightarrow> writer \<Rightarrow> bool" for dec where
  append: "i \<notin> fst ` set (wr_log s) \<Longrightarrow> writer_step dec s (s\<lparr>wr_log := wr_log s @ [(i, data)]\<rparr>)"
| start: "wr_pending s = None \<Longrightarrow> writer_step dec s (s\<lparr>wr_since := 0, wr_pending := Some []\<rparr>)"
| read: "wr_pending s = Some [] \<Longrightarrow> entries = take 10 (drop (wr_cursor s) (wr_log s)) \<Longrightarrow>
    ingest dec clk book_key entries (wr_db s) (wr_since s) = Inr (effs, since) \<Longrightarrow>
    writer_step dec s (s\<lparr>wr_cursor := wr_cursor s + length entries, wr_since := since, wr_pending := Some effs\<rparr>)"
| failed: "wr_pending s = Some [] \<Longrightarrow> entries = take 10 (drop (wr_cursor s) (wr_log s)) \<Longrightarrow>
    ingest dec clk book_key entries (wr_db s) (wr_since s) = Inl err \<Longrightarrow>
    writer_step dec s (s\<lparr>wr_cursor := wr_cursor s + length entries, wr_pending := None\<rparr>)"
| effect: "wr_pending s = Some (eff # effs) \<Longrightarrow> writer_step dec s ((writer_perform eff s)\<lparr>wr_pending := Some effs\<rparr>)"
| crash: "writer_step dec s (s\<lparr>wr_pending := None\<rparr>)"

definition writer_reachable :: "(string \<Rightarrow> event_batch option) \<Rightarrow> writer \<Rightarrow> bool" where
  "writer_reachable dec s \<longleftrightarrow> (writer_step dec)\<^sup>*\<^sup>* writer_new s"

lemma writer_reachable_new: "writer_reachable dec writer_new"
  by (simp add: writer_reachable_def)

lemma writer_reachable_step: "writer_reachable dec s \<Longrightarrow> writer_step dec s s' \<Longrightarrow> writer_reachable dec s'"
  unfolding writer_reachable_def by (rule rtranclp.rtrancl_into_rtrancl)

section \<open>What has been written\<close>

text \<open>A history: the entries written so far, with the clocks and the batch each was written with.\<close>

type_synonym history = "(string \<times> clocks \<times> event_batch) list"

fun write_all :: "history \<Rightarrow> db \<Rightarrow> db_error + db" where
  "write_all [] d = Inr d"
| "write_all ((i, clk, b) # hs) d = (case write_batch clk b d of Inl e \<Rightarrow> Inl e | Inr d' \<Rightarrow> write_all hs d')"

lemma write_all_append: "write_all (hs @ ks) d = (case write_all hs d of Inl e \<Rightarrow> Inl e | Inr d' \<Rightarrow> write_all ks d')"
  by (induction hs d rule: write_all.induct) (auto split: sum.splits)

definition from_log :: "(string \<Rightarrow> event_batch option) \<Rightarrow> stream_entry list \<Rightarrow> history \<Rightarrow> bool" where
  "from_log dec log hs \<longleftrightarrow> (\<forall>(i, clk, b) \<in> set hs. \<exists>data. (i, Some data) \<in> set log \<and> dec data = Some b)"

definition covers :: "(string \<Rightarrow> event_batch option) \<Rightarrow> stream_entry list \<Rightarrow> history \<Rightarrow> string \<Rightarrow> bool" where
  "covers dec log hs i \<longleftrightarrow> (\<forall>data b. (i, Some data) \<in> set log \<and> dec data = Some b \<longrightarrow> i \<in> fst ` set hs)"

definition wrote :: "(string \<Rightarrow> event_batch option) \<Rightarrow> stream_entry list \<Rightarrow> history \<Rightarrow> db \<Rightarrow> bool" where
  "wrote dec log hs d \<longleftrightarrow> write_all hs db_empty = Inr d \<and> from_log dec log hs"

lemma stage_entries_history:
  assumes "stage_entries dec clk es (tx, staged, poison) = Inr (tx', staged', poison')"
  shows "\<exists>new. write_all new tx = Inr tx' \<and> from_log dec es new \<and> staged' = staged @ map fst new \<and>
    (\<forall>i \<in> set poison'. i \<in> set poison \<or> (\<exists>data. (i, data) \<in> set es \<and> (case data of None \<Rightarrow> True | Some x \<Rightarrow> dec x = None)))"
  using assms
proof (induction es arbitrary: tx staged poison)
  case Nil
  then show ?case by (intro exI [of _ "[]"]) (simp add: from_log_def)
next
  case (Cons x es)
  obtain i data where x: "x = (i, data)" by (cases x)
  show ?case
  proof (cases "case data of None \<Rightarrow> None | Some y \<Rightarrow> dec y")
    case None
    then have "stage_entries dec clk es (tx, staged, poison @ [i]) = Inr (tx', staged', poison')" using Cons.prems by (simp add: x)
    from Cons.IH [OF this] obtain new where new: "write_all new tx = Inr tx'" "from_log dec es new" "staged' = staged @ map fst new"
      "\<forall>j \<in> set poison'. j \<in> set (poison @ [i]) \<or> (\<exists>data. (j, data) \<in> set es \<and> (case data of None \<Rightarrow> True | Some x \<Rightarrow> dec x = None))"
      by blast
    have "case data of None \<Rightarrow> True | Some x \<Rightarrow> dec x = None" using None by (simp split: option.splits)
    then show ?thesis using new by (intro exI [of _ new]) (fastforce simp: x from_log_def)
  next
    case (Some b)
    then obtain tx1 where w: "write_batch clk b tx = Inr tx1" "stage_entries dec clk es (tx1, staged @ [i], poison) = Inr (tx', staged', poison')"
      using Cons.prems by (auto simp: x split: sum.splits)
    from Cons.IH [OF w(2)] obtain new where new: "write_all new tx1 = Inr tx'" "from_log dec es new" "staged' = (staged @ [i]) @ map fst new"
      "\<forall>j \<in> set poison'. j \<in> set poison \<or> (\<exists>data. (j, data) \<in> set es \<and> (case data of None \<Rightarrow> True | Some x \<Rightarrow> dec x = None))" by blast
    have "\<exists>y. data = Some y \<and> dec y = Some b" using Some by (simp split: option.splits)
    then show ?thesis using new w(1) by (intro exI [of _ "(i, clk, b) # new"]) (fastforce simp: x from_log_def)
  qed
qed

text \<open>Pending effects: at most one commit, first, and every acknowledgement is covered by what is
  written once the commit is performed.\<close>

definition pending_ok :: "(string \<Rightarrow> event_batch option) \<Rightarrow> stream_entry list \<Rightarrow> history \<Rightarrow> writer_effect list \<Rightarrow> bool" where
  "pending_ok dec log hs effs \<longleftrightarrow>
     (\<forall>i. AckEvent i \<in> set effs \<longrightarrow> covers dec log hs i \<and> i \<in> fst ` set log) \<and> (\<forall>d. CommitTx d \<notin> set effs) \<or>
     (\<exists>d rest new. effs = CommitTx d # rest \<and> wrote dec log (hs @ new) d \<and> (\<forall>d. CommitTx d \<notin> set rest) \<and>
        (\<forall>i. AckEvent i \<in> set rest \<longrightarrow> covers dec log (hs @ new) i \<and> i \<in> fst ` set log))"

definition writer_ok :: "(string \<Rightarrow> event_batch option) \<Rightarrow> writer \<Rightarrow> history \<Rightarrow> bool" where
  "writer_ok dec s hs \<longleftrightarrow> distinct (map fst (wr_log s)) \<and> wrote dec (wr_log s) hs (wr_db s) \<and>
     (\<forall>i \<in> set (wr_acked s). covers dec (wr_log s) hs i \<and> i \<in> fst ` set (wr_log s)) \<and>
     (case wr_pending s of None \<Rightarrow> True | Some effs \<Rightarrow> pending_ok dec (wr_log s) hs effs)"

lemma wrote_append: "wrote dec log hs d \<Longrightarrow> wrote dec (log @ xs) hs d"
  by (fastforce simp: wrote_def from_log_def)

lemma covers_append: "covers dec log hs i \<Longrightarrow> i \<in> fst ` set log \<Longrightarrow> j \<notin> fst ` set log \<Longrightarrow> covers dec (log @ [(j, x)]) hs i"
  by (auto simp: covers_def)

lemma pending_ok_append:
  assumes "pending_ok dec log hs effs" "j \<notin> fst ` set log"
  shows "pending_ok dec (log @ [(j, x)]) hs effs"
proof -
  have ack: "covers dec (log @ [(j, x)]) ks i \<and> i \<in> fst ` set (log @ [(j, x)])" if "covers dec log ks i \<and> i \<in> fst ` set log" for ks i
    using that covers_append assms(2) by auto
  from assms(1) consider
      (acks) "\<forall>i. AckEvent i \<in> set effs \<longrightarrow> covers dec log hs i \<and> i \<in> fst ` set log" "\<forall>d. CommitTx d \<notin> set effs"
    | (commit) d rest new where "effs = CommitTx d # rest" "wrote dec log (hs @ new) d" "\<forall>d. CommitTx d \<notin> set rest"
        "\<forall>i. AckEvent i \<in> set rest \<longrightarrow> covers dec log (hs @ new) i \<and> i \<in> fst ` set log"
    unfolding pending_ok_def by blast
  then show ?thesis
  proof cases
    case acks
    then show ?thesis unfolding pending_ok_def using ack by blast
  next
    case commit
    have "wrote dec (log @ [(j, x)]) (hs @ new) d" by (rule wrote_append [OF commit(2)])
    then show ?thesis unfolding pending_ok_def using ack commit(1,3,4)
      by (intro disjI2 exI [of _ d] exI [of _ rest] exI [of _ new] conjI) simp_all
  qed
qed

lemma ingest_pending:
  assumes "ingest dec clk key entries d since = Inr (effs, since')" "wrote dec log hs d"
    and "set entries \<subseteq> set log" "distinct (map fst log)"
  shows "pending_ok dec log hs effs"
proof -
  obtain tx staged poison where st: "stage_entries dec clk entries (d, [], []) = Inr (tx, staged, poison)"
    using assms(1) by (auto simp: ingest_def split: sum.splits)
  obtain new where new: "write_all new d = Inr tx" "from_log dec entries new" "staged = map fst new"
    "\<forall>i \<in> set poison. \<exists>data. (i, data) \<in> set entries \<and> (case data of None \<Rightarrow> True | Some x \<Rightarrow> dec x = None)"
    using stage_entries_history [OF st] by auto
  have all: "wrote dec log (hs @ new) tx" using assms(2,3) new(1,2) by (fastforce simp: wrote_def from_log_def write_all_append)
  have acks: "covers dec log (hs @ new) i \<and> i \<in> fst ` set log" if mem: "i \<in> set (staged @ poison)" for i
  proof (cases "i \<in> set staged")
    case True
    then have "i \<in> fst ` set new" using new(3) by simp
    then show ?thesis using all by (force simp: covers_def wrote_def from_log_def)
  next
    case False
    then obtain data where data: "(i, data) \<in> set log" "case data of None \<Rightarrow> True | Some x \<Rightarrow> dec x = None" using mem new(4) assms(3) by auto
    have "data' = data" if "(i, data') \<in> set log" for data' using data(1) that assms(4) by (metis eq_key_imp_eq_value)
    then have "dec x = None" if "(i, Some x) \<in> set log" for x using that data(2) by (cases data) auto
    then have "covers dec log (hs @ new) i" unfolding covers_def by (metis option.distinct(1))
    then show ?thesis using data(1) by (metis fst_conv image_eqI)
  qed
  obtain tail where effs: "effs = (if staged = [] then [] else [CommitTx tx]) @ map AckEvent (staged @ poison) @ tail"
    and tail: "set tail \<subseteq> range TrimEvents"
    using assms(1) st by (auto simp: ingest_def Let_def split: if_splits option.splits)
  show ?thesis
  proof (cases "staged = []")
    case True
    then have "new = []" using new(3) by simp
    then show ?thesis using acks tail True effs by (auto simp: pending_ok_def)
  next
    case False
    then show ?thesis using acks tail effs all unfolding pending_ok_def
      by (intro disjI2 exI [of _ tx] exI [of _ "map AckEvent (staged @ poison) @ tail"] exI [of _ new]) auto
  qed
qed

lemma writer_step_ok:
  assumes "writer_step dec s s'" "writer_ok dec s hs"
  shows "\<exists>hs'. writer_ok dec s' hs'"
  using assms(1)
proof (cases rule: writer_step.cases)
  case (append i data)
  have "covers dec (wr_log s @ [(i, data)]) hs j \<and> j \<in> fst ` set (wr_log s @ [(i, data)])" if "j \<in> set (wr_acked s)" for j
    using that assms(2) covers_append append(2) by (auto simp: writer_ok_def)
  then have "writer_ok dec s' hs" using append assms(2) wrote_append pending_ok_append [OF _ append(2)]
    by (auto simp: writer_ok_def split: option.splits)
  then show ?thesis by blast
next
  case start
  then have "writer_ok dec s' hs" using assms(2) by (auto simp: writer_ok_def pending_ok_def)
  then show ?thesis by blast
next
  case (read entries clk key effs since)
  have "set entries \<subseteq> set (wr_log s)" unfolding read(3) by (meson set_drop_subset set_take_subset subset_trans)
  then have "pending_ok dec (wr_log s) hs effs" using ingest_pending [OF read(4)] assms(2) by (simp add: writer_ok_def)
  then have "writer_ok dec s' hs" using read(1) assms(2) by (simp add: writer_ok_def)
  then show ?thesis by blast
next
  case (failed entries clk key err)
  then have "writer_ok dec s' hs" using assms(2) by (simp add: writer_ok_def)
  then show ?thesis by blast
next
  case (effect eff effs)
  have ok: "pending_ok dec (wr_log s) hs (eff # effs)" using assms(2) effect(2) by (simp add: writer_ok_def)
  then show ?thesis
  proof (cases eff)
    case (CommitTx d)
    then obtain new where new: "wrote dec (wr_log s) (hs @ new) d" "\<forall>d. CommitTx d \<notin> set effs"
      "\<forall>i. AckEvent i \<in> set effs \<longrightarrow> covers dec (wr_log s) (hs @ new) i \<and> i \<in> fst ` set (wr_log s)"
      using ok by (auto simp: pending_ok_def)
    have "writer_ok dec s' (hs @ new)" using effect(1) CommitTx new assms(2)
      by (auto simp: writer_ok_def pending_ok_def covers_def)
    then show ?thesis by blast
  qed (use ok effect assms(2) in \<open>auto simp: writer_ok_def pending_ok_def intro!: exI [of _ hs]\<close>)
next
  case crash
  then have "writer_ok dec s' hs" using assms(2) by (simp add: writer_ok_def)
  then show ?thesis by blast
qed

lemma writer_reachable_ok: "writer_reachable dec s \<Longrightarrow> \<exists>hs. writer_ok dec s hs"
  unfolding writer_reachable_def
proof (induction rule: rtranclp_induct)
  case base
  show ?case by (rule exI [of _ "[]"]) (simp add: writer_ok_def writer_new_def wrote_def from_log_def)
next
  case (step s s')
  then show ?case using writer_step_ok by blast
qed

section \<open>The promises\<close>



section \<open>A session with one batch\<close>

definition paid_batch :: event_batch where
  "paid_batch = \<lparr>batch_seq = 0, batch_events = [BalanceChanged 8 USD 500 0]\<rparr>"

definition paid_db :: db where
  "paid_db = db_empty\<lparr>db_balances := [(8, ''USD'') \<mapsto> \<lparr>bal_available = 500, bal_reserved = 0, bal_updated_at = 43200\<rparr>]\<rparr>"

definition paid_dec :: "string \<Rightarrow> event_batch option" where
  "paid_dec data = (if data = ''paid'' then Some paid_batch else None)"

definition logged :: writer where
  "logged = writer_new\<lparr>wr_log := [(''1-0'', Some ''paid'')]\<rparr>"

lemma paid_ingest:
  "ingest paid_dec noon None [(''1-0'', Some ''paid'')] db_empty 0 = Inr ([CommitTx paid_db, AckEvent ''1-0''], 1)"
  by (simp add: ingest_def paid_dec_def paid_batch_def write_batch_def paid_db_def noon_def trim_every_batches_def Let_def db_empty_def
      word_le_nat_alt)

lemma paid_read: "writer_reachable paid_dec (logged\<lparr>wr_cursor := 1, wr_since := 1, wr_pending := Some [CommitTx paid_db, AckEvent ''1-0'']\<rparr>)"
proof -
  have "writer_step paid_dec writer_new (writer_new\<lparr>wr_log := wr_log writer_new @ [(''1-0'', Some ''paid'')]\<rparr>)"
    by (rule append) (simp add: writer_new_def)
  then have 1: "writer_step paid_dec writer_new logged" by (simp add: logged_def writer_new_def)
  have "writer_step paid_dec logged (logged\<lparr>wr_since := 0, wr_pending := Some []\<rparr>)"
    by (rule start) (simp add: logged_def writer_new_def)
  then have 2: "writer_step paid_dec logged (logged\<lparr>wr_pending := Some []\<rparr>)" by (simp add: logged_def writer_new_def)
  have "writer_step paid_dec (logged\<lparr>wr_pending := Some []\<rparr>)
      ((logged\<lparr>wr_pending := Some []\<rparr>)\<lparr>wr_cursor := wr_cursor (logged\<lparr>wr_pending := Some []\<rparr>) + length [(''1-0'', Some ''paid'')],
         wr_since := 1, wr_pending := Some [CommitTx paid_db, AckEvent ''1-0'']\<rparr>)"
    by (rule read [where clk = noon and book_key = None]) (simp_all add: logged_def writer_new_def paid_ingest)
  then have 3: "writer_step paid_dec (logged\<lparr>wr_pending := Some []\<rparr>)
      (logged\<lparr>wr_cursor := 1, wr_since := 1, wr_pending := Some [CommitTx paid_db, AckEvent ''1-0'']\<rparr>)"
    by (simp add: logged_def writer_new_def)
  show ?thesis
    by (rule writer_reachable_step [OF writer_reachable_step [OF writer_reachable_step [OF writer_reachable_new 1] 2] 3])
qed

definition paid_up :: writer where
  "paid_up = logged\<lparr>wr_cursor := 1, wr_since := 1, wr_db := paid_db, wr_acked := [''1-0''], wr_pending := Some []\<rparr>"

lemma paid_up_reachable: "writer_reachable paid_dec paid_up"
proof -
  let ?s0 = "logged\<lparr>wr_cursor := 1, wr_since := 1, wr_pending := Some [CommitTx paid_db, AckEvent ''1-0'']\<rparr>"
  let ?s1 = "?s0\<lparr>wr_db := paid_db, wr_pending := Some [AckEvent ''1-0'']\<rparr>"
  have "writer_step paid_dec ?s0 ((writer_perform (CommitTx paid_db) ?s0)\<lparr>wr_pending := Some [AckEvent ''1-0'']\<rparr>)"
    by (rule effect) simp
  then have 1: "writer_step paid_dec ?s0 ?s1" by simp
  have "writer_step paid_dec ?s1 ((writer_perform (AckEvent ''1-0'') ?s1)\<lparr>wr_pending := Some []\<rparr>)"
    by (rule effect) simp
  then have 2: "writer_step paid_dec ?s1 paid_up" by (simp add: paid_up_def logged_def writer_new_def)
  show ?thesis by (rule writer_reachable_step [OF writer_reachable_step [OF paid_read 1] 2])
qed



text \<open>A read moves the group's cursor before anything is committed, and a restarted process only reads
  past the cursor: a crash between the two loses the batch.\<close>

lemma crash_before_commit_loses_batch:
  "writer_reachable paid_dec (logged\<lparr>wr_cursor := 1, wr_pending := Some []\<rparr>) \<and>
   drop (wr_cursor (logged\<lparr>wr_cursor := 1\<rparr>)) (wr_log logged) = [] \<and> wr_db logged = db_empty"
proof -
  let ?s0 = "logged\<lparr>wr_cursor := 1, wr_since := 1, wr_pending := Some [CommitTx paid_db, AckEvent ''1-0'']\<rparr>"
  have 1: "writer_step paid_dec ?s0 (?s0\<lparr>wr_pending := None\<rparr>)" by (rule crash)
  have "writer_step paid_dec (?s0\<lparr>wr_pending := None\<rparr>) (?s0\<lparr>wr_pending := None\<rparr>\<lparr>wr_since := 0, wr_pending := Some []\<rparr>)"
    by (rule start) simp
  then have 2: "writer_step paid_dec (?s0\<lparr>wr_pending := None\<rparr>) (logged\<lparr>wr_cursor := 1, wr_pending := Some []\<rparr>)"
    by (simp add: logged_def writer_new_def)
  have "writer_reachable paid_dec (logged\<lparr>wr_cursor := 1, wr_pending := Some []\<rparr>)"
    by (rule writer_reachable_step [OF writer_reachable_step [OF paid_read 1] 2])
  then show ?thesis by (simp add: logged_def writer_new_def)
qed

end
