(* ===== verification/Retention.thy ===== *)
theory Retention
  imports Db_Writer
begin

text \<open>
  The retention sweep of \<open>src/bin/db_writer.rs\<close>: old terminal orders, old trades and old one-second
  candles are deleted in batches of bounded size, a bounded number of them per sweep. Which of the
  matching rows a \<open>LIMIT\<close> selects is up to the database: a parameter \<open>pick\<close> of the model.
\<close>

definition retention_batch :: nat where
  "retention_batch = 5000"

definition retention_max_batches :: nat where
  "retention_max_batches = 20"

record retention =
  ret_order_days :: int
  ret_trade_days :: int
  ret_candle_1s_days :: int

definition env_days :: "(string \<rightharpoonup> string) \<Rightarrow> string \<Rightarrow> int \<Rightarrow> int" where
  "env_days env key dflt =
     (case env key of
        None \<Rightarrow> dflt
      | Some v \<Rightarrow> (case parse_i32 v of None \<Rightarrow> dflt | Some d \<Rightarrow> if d \<ge> 0 then d else dflt))"

definition retention_from_env :: "(string \<rightharpoonup> string) \<Rightarrow> retention" where
  "retention_from_env env =
     \<lparr>ret_order_days = env_days env ''ORDER_RETENTION_DAYS'' 7,
      ret_trade_days = env_days env ''TRADE_RETENTION_DAYS'' 365,
      ret_candle_1s_days = env_days env ''CANDLE_1S_RETENTION_DAYS'' 2\<rparr>"

section \<open>prune\<close>

definition matching_rows :: "('k \<Rightarrow> 'v \<Rightarrow> bool) \<Rightarrow> ('k \<rightharpoonup> 'v) \<Rightarrow> 'k set" where
  "matching_rows old m = {k \<in> dom m. old k (the (m k))}"

text \<open>The loop: one \<open>DELETE\<close> per round, ended early by a round that deletes fewer rows than the limit.\<close>

fun prune_loop ::
    "('k set \<Rightarrow> nat \<Rightarrow> 'k set) \<Rightarrow> ('k \<Rightarrow> 'v \<Rightarrow> bool) \<Rightarrow> nat \<Rightarrow> ('k \<rightharpoonup> 'v) \<Rightarrow> nat \<Rightarrow> ('k \<rightharpoonup> 'v) \<times> nat" where
  "prune_loop pick old 0 m deleted = (m, deleted)"
| "prune_loop pick old (Suc n) m deleted =
     (let chosen = pick (matching_rows old m) retention_batch;
          m' = m |` (- chosen);
          deleted' = deleted + card chosen
      in if card chosen < retention_batch then (m', deleted') else prune_loop pick old n m' deleted')"

definition prune :: "('k set \<Rightarrow> nat \<Rightarrow> 'k set) \<Rightarrow> ('k \<Rightarrow> 'v \<Rightarrow> bool) \<Rightarrow> int \<Rightarrow> ('k \<rightharpoonup> 'v) \<Rightarrow> ('k \<rightharpoonup> 'v) \<times> nat" where
  "prune pick old days m = (if days = 0 then (m, 0) else prune_loop pick old retention_max_batches m 0)"

text \<open>The three statements of \<open>sweep\<close>, their cutoffs computed from the database's clock in seconds.\<close>

definition cutoff :: "int \<Rightarrow> int \<Rightarrow> int" where
  "cutoff now days = now - days * 86400"

definition old_order :: "int \<Rightarrow> int \<Rightarrow> u64 \<Rightarrow> order_row \<Rightarrow> bool" where
  "old_order now days i r \<longleftrightarrow> or_status r \<in> {''filled'', ''cancelled''} \<and> or_updated_at r < cutoff now days"

definition old_trade :: "int \<Rightarrow> int \<Rightarrow> string \<Rightarrow> trade_row \<Rightarrow> bool" where
  "old_trade now days i r \<longleftrightarrow> tr_created_ms r < 1000 * cutoff now days"

definition old_candle :: "int \<Rightarrow> int \<Rightarrow> candle_key \<Rightarrow> candle_row \<Rightarrow> bool" where
  "old_candle now days = (\<lambda>(ps, w, b) r. w = 1 \<and> b < cutoff now days)"

definition sweep ::
    "(u64 set \<Rightarrow> nat \<Rightarrow> u64 set) \<Rightarrow> (string set \<Rightarrow> nat \<Rightarrow> string set) \<Rightarrow> (candle_key set \<Rightarrow> nat \<Rightarrow> candle_key set) \<Rightarrow>
     int \<Rightarrow> retention \<Rightarrow> db \<Rightarrow> db \<times> nat \<times> nat \<times> nat" where
  "sweep pick_o pick_t pick_c now r d =
     (case prune pick_o (old_order now (ret_order_days r)) (ret_order_days r) (db_orders d) of (os, n) \<Rightarrow>
      case prune pick_t (old_trade now (ret_trade_days r)) (ret_trade_days r) (db_trades d) of (ts, m) \<Rightarrow>
      case prune pick_c (old_candle now (ret_candle_1s_days r)) (ret_candle_1s_days r) (db_candles d) of (cs, k) \<Rightarrow>
        (d\<lparr>db_orders := os, db_trades := ts, db_candles := cs\<rparr>, n, m, k))"

section \<open>What a sweep deletes\<close>

text \<open>What SQL promises of a \<open>LIMIT\<close>: as many of the matching rows as there are, up to the limit.\<close>

definition picks :: "('k set \<Rightarrow> nat \<Rightarrow> 'k set) \<Rightarrow> bool" where
  "picks pick \<longleftrightarrow> (\<forall>S n. finite S \<longrightarrow> pick S n \<subseteq> S \<and> card (pick S n) = min n (card S))"

definition pruned :: "('k \<Rightarrow> 'v \<Rightarrow> bool) \<Rightarrow> nat \<Rightarrow> ('k \<rightharpoonup> 'v) \<Rightarrow> ('k \<rightharpoonup> 'v) \<Rightarrow> bool" where
  "pruned old n m m' \<longleftrightarrow> (\<exists>D \<subseteq> matching_rows old m. card D = n \<and> m' = m |` (- D))"

lemma matching_restrict: "matching_rows old (m |` (- D)) = matching_rows old m - D"
  by (auto simp: matching_rows_def restrict_map_def split: if_splits)

lemma prune_loop_exact:
  assumes "picks pick" "finite (dom m)" "prune_loop pick old n m deleted = (m', deleted')"
  shows "pruned old (deleted' - deleted) m m' \<and> deleted' = deleted + min (card (matching_rows old m)) (n * retention_batch)"
  using assms(2,3)
proof (induction n arbitrary: m deleted)
  case 0
  have "m |` (- {}) = m" by (simp add: restrict_map_def)
  then show ?case using 0 by (auto simp: pruned_def intro!: exI [of _ "{}"])
next
  case (Suc n)
  let ?S = "matching_rows old m" and ?B = "retention_batch"
  define C where "C = pick ?S ?B"
  have fin: "finite ?S" using Suc.prems(1) by (simp add: matching_rows_def)
  then have C: "C \<subseteq> ?S" "card C = min ?B (card ?S)" using assms(1) by (simp_all add: picks_def C_def)
  show ?case
  proof (cases "card C < ?B")
    case True
    then have "m' = m |` (- C)" "deleted' = deleted + card C" using Suc.prems(2) by (simp_all add: C_def Let_def)
    moreover have "card C = card ?S" "card ?S < ?B" using True C(2) by simp_all
    ultimately show ?thesis using C(1) by (auto simp: pruned_def)
  next
    case False
    then have B: "card C = ?B" "?B \<le> card ?S" using C(2) by simp_all
    have rest: "prune_loop pick old n (m |` (- C)) (deleted + ?B) = (m', deleted')" using Suc.prems(2) False B(1) by (simp add: C_def Let_def)
    have left: "card (?S - C) = card ?S - ?B" using C(1) B(1) fin by (simp add: card_Diff_subset finite_subset)
    have "finite (dom (m |` (- C)))" using Suc.prems(1) by simp
    note ih = Suc.IH [OF this rest]
    obtain D where "D \<subseteq> matching_rows old (m |` (- C))" "card D = deleted' - (deleted + ?B)" "m' = m |` (- C) |` (- D)"
      using conjunct1 [OF ih] unfolding pruned_def by blast
    moreover have "deleted' = deleted + ?B + min (card ?S - ?B) (n * ?B)" using conjunct2 [OF ih] by (simp add: matching_restrict left)
    ultimately have D: "D \<subseteq> ?S - C" "card D = deleted' - (deleted + ?B)" "m' = m |` (- C) |` (- D)"
      "deleted' = deleted + ?B + min (card ?S - ?B) (n * ?B)" by (simp_all add: matching_restrict)
    have "m' = m |` (- (C \<union> D))" unfolding D(3) by (rule ext) (simp add: restrict_map_def)
    moreover have "card (C \<union> D) = deleted' - deleted"
    proof -
      have "finite C" "finite D" using C(1) D(1) fin by (auto intro: finite_subset)
      moreover have "C \<inter> D = {}" using D(1) by blast
      ultimately show ?thesis using D(2,4) B(1) by (simp add: card_Un_disjoint)
    qed
    moreover have "C \<union> D \<subseteq> ?S" using C(1) D(1) by blast
    ultimately have "pruned old (deleted' - deleted) m m'" unfolding pruned_def by (intro exI [of _ "C \<union> D"]) simp
    then show ?thesis using D(4) B(2) by simp
  qed
qed

lemma prune_exact:
  assumes "picks pick" "finite (dom m)" "prune pick old days m = (m', deleted)"
  shows "deleted = (if days = 0 then 0 else min (card (matching_rows old m)) (retention_max_batches * retention_batch)) \<and>
    pruned old deleted m m'"
proof (cases "days = 0")
  case True
  have "m |` (- {}) = m" by (simp add: restrict_map_def)
  then show ?thesis using assms(3) True by (auto simp: prune_def pruned_def intro!: exI [of _ "{}"])
next
  case False
  then have "prune_loop pick old retention_max_batches m 0 = (m', deleted)" using assms(3) by (simp add: prune_def)
  from prune_loop_exact [OF assms(1,2) this] False show ?thesis by auto
qed

lemma pruned_keeps: "pruned old n m m' \<Longrightarrow> m k = Some v \<Longrightarrow> \<not> old k v \<Longrightarrow> m' k = Some v"
  by (auto simp: pruned_def matching_rows_def restrict_map_def)

lemma pruned_sub: "pruned old n m m' \<Longrightarrow> m' \<subseteq>\<^sub>m m"
  by (auto simp: pruned_def restrict_map_def map_le_def split: if_splits)

section \<open>The promise\<close>


text \<open>A choice that exists for any set: a sufficiently small subset.\<close>

definition pick_some :: "'k set \<Rightarrow> nat \<Rightarrow> 'k set" where
  "pick_some S n = (SOME D. D \<subseteq> S \<and> card D = min n (card S))"

lemma picks_some: "picks pick_some"
  unfolding picks_def
proof (intro allI impI)
  fix S :: "'k set" and n
  assume "finite S"
  obtain D where "D \<subseteq> S" "card D = min n (card S)" by (rule obtain_subset_with_card_n [of "min n (card S)" S]) auto
  then have "\<exists>D. D \<subseteq> S \<and> card D = min n (card S)" by blast
  from someI_ex [OF this] show "pick_some S n \<subseteq> S \<and> card (pick_some S n) = min n (card S)" unfolding pick_some_def .
qed

definition old_row :: order_row where
  "old_row = \<lparr>or_account = 7, or_pair = ''SOL-USD'', or_side = ''Bid'', or_type = ''Limit'', or_price = 10, or_size = 5,
     or_filled_qty = 0, or_status = ''cancelled'', or_updated_at = 0\<rparr>"

definition aged_db :: db where
  "aged_db = db_empty\<lparr>db_orders := [1 \<mapsto> old_row, 2 \<mapsto> old_row\<lparr>or_status := ''open''\<rparr>]\<rparr>"


end
