(* ===== verification/Auth.thy ===== *)
theory Auth
  imports Decimal
begin

text \<open>
  \<open>src/bin/api/auth.rs\<close>: the API's errors with their HTTP status, the two request extractors (the
  authenticated account and the idempotency key), tokens, and signup and login over the \<open>users\<close> table.
  The JWT library and the password hasher are parameters.
\<close>

section \<open>Errors\<close>

datatype api_error =
    Unauthorized
  | Forbidden
  | EmailTaken
  | BadRequest string
  | NotFound
  | Timeout
  | Internal string

fun error_status :: "api_error \<Rightarrow> nat" where
  "error_status Unauthorized = 401"
| "error_status Forbidden = 403"
| "error_status EmailTaken = 409"
| "error_status (BadRequest _) = 400"
| "error_status NotFound = 404"
| "error_status Timeout = 504"
| "error_status (Internal _) = 500"

datatype auth_error = Jwt string | Hashing string

definition auth_error_text :: "auth_error \<Rightarrow> string" where
  "auth_error_text e = (case e of Jwt m \<Rightarrow> ''jwt error: '' @ m | Hashing m \<Rightarrow> ''password hashing error: '' @ m)"

definition of_auth_error :: "auth_error \<Rightarrow> api_error" where
  "of_auth_error e = Internal (auth_error_text e)"

section \<open>Extractors\<close>

text \<open>The headers of a request; a value that is not text is \<open>None\<close>.\<close>

type_synonym headers = "string \<rightharpoonup> string option"

definition is_blank :: "char \<Rightarrow> bool" where
  "is_blank c \<longleftrightarrow> c \<in> {CHR '' '', CHR 0x09, CHR 0x0A, CHR 0x0B, CHR 0x0C, CHR 0x0D}"

definition trim_text :: "string \<Rightarrow> string" where
  "trim_text s = rev (dropWhile is_blank (rev (dropWhile is_blank s)))"

definition client_order_id :: "headers \<Rightarrow> api_error + u64" where
  "client_order_id hs =
     (case hs ''x-client-order-id'' of
        Some (Some s) \<Rightarrow>
          (case parse_u64 (trim_text s) of
             Some n \<Rightarrow> Inr n
           | None \<Rightarrow> Inl (BadRequest ''missing or invalid X-Client-Order-Id header''))
      | _ \<Rightarrow> Inl (BadRequest ''missing or invalid X-Client-Order-Id header''))"

record claims =
  cl_sub :: account_id
  cl_exp :: u64

text \<open>\<open>verify\<close>: the JWT library checks signature and expiry, at a time and with a key that are part of the
  parameter.\<close>

type_synonym jwt_decode = "string \<Rightarrow> string + claims"

definition verify :: "jwt_decode \<Rightarrow> string \<Rightarrow> auth_error + claims" where
  "verify dec token = (case dec token of Inl m \<Rightarrow> Inl (Jwt m) | Inr c \<Rightarrow> Inr c)"

definition strip_prefix :: "string \<Rightarrow> string \<Rightarrow> string option" where
  "strip_prefix p s = (if take (length p) s = p then Some (drop (length p) s) else None)"

definition auth_user :: "jwt_decode \<Rightarrow> headers \<Rightarrow> api_error + account_id" where
  "auth_user dec hs =
     (case hs ''authorization'' of
        None \<Rightarrow> Inl Unauthorized
      | Some None \<Rightarrow> Inl Unauthorized
      | Some (Some h) \<Rightarrow>
          (case strip_prefix ''Bearer '' h of
             None \<Rightarrow> Inl Unauthorized
           | Some token \<Rightarrow>
               (case verify dec token of Inr c \<Rightarrow> Inr (cl_sub c) | Inl _ \<Rightarrow> Inl Unauthorized)))"

section \<open>Tokens\<close>

definition token_ttl_secs :: u64 where
  "token_ttl_secs = 24 * 60 * 60"

type_synonym jwt_encode = "claims \<Rightarrow> string + string"

definition sign :: "jwt_encode \<Rightarrow> u64 \<Rightarrow> account_id \<Rightarrow> auth_error + string" where
  "sign enc now account =
     (case enc \<lparr>cl_sub = account, cl_exp = now + token_ttl_secs\<rparr> of Inl m \<Rightarrow> Inl (Jwt m) | Inr t \<Rightarrow> Inr t)"

section \<open>Passwords\<close>

text \<open>The \<open>argon2\<close> library: hashing with a salt, the text form of a hash and its parser, and checking a password,
  where the wrong password is one of the errors.\<close>

datatype hash_error = WrongPassword | HashError string

record 'h argon =
  ar_hash :: "string \<Rightarrow> string \<Rightarrow> string + 'h"
  ar_text :: "'h \<Rightarrow> string"
  ar_parse :: "string \<Rightarrow> string + 'h"
  ar_check :: "string \<Rightarrow> 'h \<Rightarrow> hash_error + unit"

definition hash_password :: "'h argon \<Rightarrow> string \<Rightarrow> string \<Rightarrow> auth_error + string" where
  "hash_password ar salt pw = (case ar_hash ar salt pw of Inl m \<Rightarrow> Inl (Hashing m) | Inr h \<Rightarrow> Inr (ar_text ar h))"

definition verify_password :: "'h argon \<Rightarrow> string \<Rightarrow> string \<Rightarrow> auth_error + bool" where
  "verify_password ar pw hash =
     (case ar_parse ar hash of
        Inl m \<Rightarrow> Inl (Hashing m)
      | Inr parsed \<Rightarrow>
          (case ar_check ar pw parsed of
             Inr _ \<Rightarrow> Inr True
           | Inl WrongPassword \<Rightarrow> Inr False
           | Inl (HashError m) \<Rightarrow> Inl (Hashing m)))"

section \<open>Signup and login\<close>

record signup_body =
  sub_email :: string
  sub_password :: string

record login_body =
  lb_email :: string
  lb_password :: string

record auth_response =
  ar_token :: string

text \<open>The \<open>users\<close> table: the id is a sequence, advanced by every insert, also by one that violates the
  uniqueness of the email.\<close>

record users =
  us_rows :: "string \<rightharpoonup> int \<times> string"
  us_next_id :: int

definition insert_user :: "string \<Rightarrow> string \<Rightarrow> users \<Rightarrow> users \<times> int option" where
  "insert_user email pw_hash u =
     (let i = us_next_id u; u1 = u\<lparr>us_next_id := i + 1\<rparr>
      in case us_rows u email of
           Some _ \<Rightarrow> (u1, None)
         | None \<Rightarrow> (u1\<lparr>us_rows := (us_rows u)(email \<mapsto> (i, pw_hash))\<rparr>, Some i))"

text \<open>An \<open>i64\<close> id as the engine's \<open>u64\<close>.\<close>

definition as_u64 :: "int \<Rightarrow> u64" where
  "as_u64 i = word_of_int i"

definition signup ::
    "'h argon \<Rightarrow> string \<Rightarrow> jwt_encode \<Rightarrow> u64 \<Rightarrow> signup_body \<Rightarrow> users \<Rightarrow> users \<times> (api_error + nat \<times> auth_response)" where
  "signup ar salt enc now body u =
     (case hash_password ar salt (sub_password body) of
        Inl e \<Rightarrow> (u, Inl (of_auth_error e))
      | Inr pw_hash \<Rightarrow>
          (case insert_user (sub_email body) pw_hash u of
             (u', None) \<Rightarrow> (u', Inl EmailTaken)
           | (u', Some i) \<Rightarrow>
               (case sign enc now (as_u64 i) of
                  Inl e \<Rightarrow> (u', Inl (of_auth_error e))
                | Inr token \<Rightarrow> (u', Inr (201, \<lparr>ar_token = token\<rparr>)))))"

definition login ::
    "'h argon \<Rightarrow> jwt_encode \<Rightarrow> u64 \<Rightarrow> login_body \<Rightarrow> users \<Rightarrow> api_error + nat \<times> auth_response" where
  "login ar enc now body u =
     (case us_rows u (lb_email body) of
        None \<Rightarrow> Inl Unauthorized
      | Some (i, pw_hash) \<Rightarrow>
          (case verify_password ar (lb_password body) pw_hash of
             Inl e \<Rightarrow> Inl (of_auth_error e)
           | Inr True \<Rightarrow>
               (case sign enc now (as_u64 i) of
                  Inl e \<Rightarrow> Inl (of_auth_error e)
                | Inr token \<Rightarrow> Inr (200, \<lparr>ar_token = token\<rparr>))
           | Inr False \<Rightarrow> Inl Unauthorized))"

section \<open>Sessions\<close>

text \<open>What the code relies on. An encoded token decodes to its claims at every time, in seconds, up to a leeway of
  a minute after its expiry, and is refused later. The text of a hash parses back to it, and a hash accepts
  the password it was made from and answers that any other one is wrong.\<close>

definition jwt_ok :: "jwt_encode \<Rightarrow> (nat \<Rightarrow> jwt_decode) \<Rightarrow> bool" where
  "jwt_ok enc dec \<longleftrightarrow> (\<forall>c token t. enc c = Inr token \<longrightarrow>
     dec t token = (if unat (cl_exp c) + 60 < t then Inl ''ExpiredSignature'' else Inr c))"

definition hasher_ok :: "'h argon \<Rightarrow> bool" where
  "hasher_ok ar \<longleftrightarrow> (\<forall>salt pw h. ar_hash ar salt pw = Inr h \<longrightarrow>
     ar_parse ar (ar_text ar h) = Inr h \<and> (\<forall>pw'. ar_check ar pw' h = (if pw' = pw then Inr () else Inl WrongPassword)))"

definition bearer :: "string \<Rightarrow> headers" where
  "bearer token = [''authorization'' \<mapsto> Some (''Bearer '' @ token)]"

lemma strip_bearer [simp]: "strip_prefix ''Bearer '' (''Bearer '' @ t) = Some t"
  by (simp add: strip_prefix_def)

lemma auth_user_bearer: "auth_user dec (bearer token) = (case dec token of Inl _ \<Rightarrow> Inl Unauthorized | Inr c \<Rightarrow> Inr (cl_sub c))"
  using strip_bearer [of token] by (simp add: auth_user_def bearer_def verify_def del: append.simps split: sum.split)

text \<open>A token is good for a day and the leeway, and for no longer.\<close>

lemma auth_user_signed:
  assumes "jwt_ok enc dec" "sign enc now account = Inr token" "unat now + 86400 < 2 ^ 64"
  shows "auth_user (dec t) (bearer token) = (if t \<le> unat now + 86460 then Inr account else Inl Unauthorized)"
proof -
  have "unat (now + token_ttl_secs) = unat now + 86400" using assms(3) by (simp add: token_ttl_secs_def unat_add_exact)
  moreover have "enc \<lparr>cl_sub = account, cl_exp = now + token_ttl_secs\<rparr> = Inr token"
    using assms(2) by (auto simp: sign_def split: sum.splits)
  ultimately show ?thesis using assms(1) by (simp add: jwt_ok_def auth_user_bearer)
qed

lemma hash_then_verify:
  assumes "hasher_ok ar" "hash_password ar salt pw = Inr hash"
  shows "verify_password ar pw' hash = Inr (pw' = pw)"
proof -
  obtain h where "ar_hash ar salt pw = Inr h" "hash = ar_text ar h" using assms(2) by (auto simp: hash_password_def split: sum.splits)
  moreover from this(1) have "ar_parse ar (ar_text ar h) = Inr h" "ar_check ar pw' h = (if pw' = pw then Inr () else Inl WrongPassword)"
    using assms(1) unfolding hasher_ok_def by blast+
  ultimately show ?thesis by (simp add: verify_password_def)
qed

text \<open>C33: who signs up can log in. After a successful signup, the token identifies the new account to the
  API for a day (and a minute of leeway) and not afterwards; logging in with the same password succeeds with
  a token for the same account, with any other password it is refused, and a second signup with the email
  conflicts.\<close>

theorem signup_then_login:
  assumes "jwt_ok enc dec" "hasher_ok ar" "signup ar salt enc now \<lparr>sub_email = email, sub_password = pw\<rparr> u = (u', Inr (status, resp))"
    and "sign enc now' (as_u64 (us_next_id u)) = Inr token'" "pw' \<noteq> pw" "unat now + 86400 < 2 ^ 64" "unat now' + 86400 < 2 ^ 64"
  shows "status = 201 \<and>
    (\<forall>t. auth_user (dec t) (bearer (ar_token resp)) = (if t \<le> unat now + 86460 then Inr (as_u64 (us_next_id u)) else Inl Unauthorized)) \<and>
    login ar enc now' \<lparr>lb_email = email, lb_password = pw\<rparr> u' = Inr (200, \<lparr>ar_token = token'\<rparr>) \<and>
    (\<forall>t. auth_user (dec t) (bearer token') = (if t \<le> unat now' + 86460 then Inr (as_u64 (us_next_id u)) else Inl Unauthorized)) \<and>
    login ar enc now' \<lparr>lb_email = email, lb_password = pw'\<rparr> u' = Inl Unauthorized \<and>
    (\<forall>salt2 pw2 h. hash_password ar salt2 pw2 = Inr h \<longrightarrow>
       snd (signup ar salt2 enc now' \<lparr>sub_email = email, sub_password = pw2\<rparr> u') = Inl EmailTaken)"
proof -
  obtain h where h: "hash_password ar salt pw = Inr h" using assms(3) by (auto simp: signup_def split: sum.splits)
  have new: "us_rows u email = None" and u': "u' = u\<lparr>us_next_id := us_next_id u + 1, us_rows := (us_rows u)(email \<mapsto> (us_next_id u, h))\<rparr>"
    and tok: "sign enc now (as_u64 (us_next_id u)) = Inr (ar_token resp)" "status = 201"
    using assms(3) h by (auto simp: signup_def insert_user_def Let_def split: option.splits sum.splits prod.splits)
  show ?thesis
    using assms(4,5) tok auth_user_signed [OF assms(1) tok(1) assms(6)] auth_user_signed [OF assms(1,4,7)] hash_then_verify [OF assms(2) h]
    by (auto simp: u' login_def signup_def insert_user_def Let_def split: sum.splits)
qed

text \<open>Instances of the two libraries: a token is the claims in the clear, a hash the password, unsalted.\<close>

definition demo_enc :: jwt_encode where
  "demo_enc c = Inr (dec_of_nat (unat (cl_sub c)) @ ''-'' @ dec_of_nat (unat (cl_exp c)))"

definition demo_dec :: "nat \<Rightarrow> jwt_decode" where
  "demo_dec t token =
     (case split_once (CHR ''-'') token of
        None \<Rightarrow> Inl ''InvalidToken''
      | Some (a, b) \<Rightarrow>
          (case (parse_u64 a, parse_u64 b) of
             (Some s, Some e) \<Rightarrow> if unat e + 60 < t then Inl ''ExpiredSignature'' else Inr \<lparr>cl_sub = s, cl_exp = e\<rparr>
           | _ \<Rightarrow> Inl ''InvalidToken''))"

lemma demo_jwt_ok: "jwt_ok demo_enc demo_dec"
  by (auto simp: jwt_ok_def demo_enc_def demo_dec_def split_once_first)

definition demo_token :: string where
  "demo_token = dec_of_nat 7 @ ''-'' @ dec_of_nat 86400"

definition demo_argon :: "string argon" where
  "demo_argon = \<lparr>ar_hash = (\<lambda>salt pw. Inr pw), ar_text = (\<lambda>h. ''$argon2id$'' @ h),
     ar_parse = (\<lambda>text. case strip_prefix ''$argon2id$'' text of None \<Rightarrow> Inl ''invalid hash'' | Some h \<Rightarrow> Inr h),
     ar_check = (\<lambda>pw h. if pw = h then Inr () else Inl WrongPassword)\<rparr>"

lemma demo_hasher_ok: "hasher_ok demo_argon"
  by (simp add: hasher_ok_def demo_argon_def strip_prefix_def)

theorem signup_then_login_witness:
  "(\<forall>t. auth_user (demo_dec t) (bearer demo_token) = (if t \<le> 86460 then Inr 7 else Inl Unauthorized)) \<and>
   login demo_argon demo_enc 0 \<lparr>lb_email = ''a@b'', lb_password = ''wrong''\<rparr>
     (fst (signup demo_argon ''salt'' demo_enc 0 \<lparr>sub_email = ''a@b'', sub_password = ''right''\<rparr> \<lparr>us_rows = Map.empty, us_next_id = 7\<rparr>))
     = Inl Unauthorized"
proof -
  let ?u = "\<lparr>us_rows = Map.empty, us_next_id = 7\<rparr> :: users"
  have tok: "sign demo_enc 0 (as_u64 7) = Inr demo_token"
    by (simp add: sign_def demo_enc_def as_u64_def token_ttl_secs_def demo_token_def)
  obtain u' where s: "signup demo_argon ''salt'' demo_enc 0 \<lparr>sub_email = ''a@b'', sub_password = ''right''\<rparr> ?u = (u', Inr (201, \<lparr>ar_token = demo_token\<rparr>))"
    using tok by (simp add: signup_def insert_user_def Let_def hash_password_def demo_argon_def)
  show ?thesis using signup_then_login [OF demo_jwt_ok demo_hasher_ok s, of 0 demo_token "''wrong''"] tok s by (simp add: as_u64_def)
qed

end
