(* ===== verification/Ws.thy ===== *)
theory Ws
  imports Book_Tail Auth
begin

text \<open>
  \<open>src/bin/api/ws.rs\<close>: the two websocket feeds. Both read the broadcast channel that the book
  projection's tail sends every batch into: the public feed shows the deltas and trades of one market,
  the private feed forwards the order events of one authenticated account. The channel, the socket and the
  JSON and JWT libraries are parameters.
\<close>

section \<open>Connections\<close>

text \<open>What \<open>recv\<close> on the broadcast channel gives, and the connection: the messages the socket took and
  whether the loop still runs. The parameter \<open>takes\<close> says which sends of a connection succeed.\<close>

datatype received = Received event_batch | Lagged | ChannelClosed

record 'm connection =
  conn_sent :: "'m list"
  conn_open :: bool

definition connection_new :: "'m connection" where
  "connection_new = \<lparr>conn_sent = [], conn_open = True\<rparr>"

text \<open>The inner loop of both feeds: an event with nothing to say is skipped, and the first send that fails
  ends the connection.\<close>

fun forward :: "(nat \<Rightarrow> bool) \<Rightarrow> ('e \<Rightarrow> 'm option) \<Rightarrow> 'e list \<Rightarrow> 'm connection \<Rightarrow> 'm connection" where
  "forward takes msg [] c = c"
| "forward takes msg (ev # evs) c =
     (case msg ev of
        None \<Rightarrow> forward takes msg evs c
      | Some m \<Rightarrow>
          if takes (length (conn_sent c)) then forward takes msg evs (c\<lparr>conn_sent := conn_sent c @ [m]\<rparr>)
          else c\<lparr>conn_open := False\<rparr>)"

text \<open>The outer loop, over what the channel gave so far.\<close>

fun feed_loop :: "(nat \<Rightarrow> bool) \<Rightarrow> (event_batch \<Rightarrow> event \<Rightarrow> 'm option) \<Rightarrow> received list \<Rightarrow> 'm connection \<Rightarrow> 'm connection" where
  "feed_loop takes msg [] c = c"
| "feed_loop takes msg (Received batch # rs) c =
     (let c' = forward takes (msg batch) (batch_events batch) c
      in if conn_open c' then feed_loop takes msg rs c' else c')"
| "feed_loop takes msg (_ # rs) c = c\<lparr>conn_open := False\<rparr>"

section \<open>The public feed\<close>

datatype market_message =
    DeltaMessage u64 side u64 u64
  | TradeMessage u64 u64 u64 side

fun market_message_of :: "pair \<Rightarrow> u64 \<Rightarrow> event \<Rightarrow> market_message option" where
  "market_message_of pair seq (BookDelta p s price qty) = (if p = pair then Some (DeltaMessage seq s price qty) else None)"
| "market_message_of pair seq (Trade t) =
     (if trd_pair t = pair then Some (TradeMessage seq (trd_price t) (trd_qty t) (trd_taker_side t)) else None)"
| "market_message_of pair seq _ = None"

definition public_market_loop :: "(nat \<Rightarrow> bool) \<Rightarrow> received list \<Rightarrow> pair \<Rightarrow> market_message connection" where
  "public_market_loop takes rs pair = feed_loop takes (\<lambda>batch. market_message_of pair (batch_seq batch)) rs connection_new"

definition public_market :: "(nat \<Rightarrow> bool) \<Rightarrow> received list \<Rightarrow> string \<Rightarrow> api_error + market_message connection" where
  "public_market takes rs raw_pair =
     (case pair_try_from raw_pair of
        Inl _ \<Rightarrow> Inl (BadRequest ''invalid pair, expected BASE-QUOTE'')
      | Inr pair \<Rightarrow> Inr (public_market_loop takes rs pair))"

section \<open>The private feed\<close>

text \<open>What waiting for the first frame gives: nothing in time, the end of the socket, an error, or a frame.\<close>

datatype first_frame = FrameTimeout | SocketEnd | SocketError | TextFrame string | OtherFrame

definition authenticate :: "jwt_decode \<Rightarrow> (string \<Rightarrow> string option) \<Rightarrow> first_frame \<Rightarrow> account_id option" where
  "authenticate dec auth_message f =
     (case f of
        TextFrame text \<Rightarrow>
          (case auth_message text of
             None \<Rightarrow> None
           | Some token \<Rightarrow> (case verify dec token of Inl _ \<Rightarrow> None | Inr c \<Rightarrow> Some (cl_sub c)))
      | _ \<Rightarrow> None)"

fun order_event_owner :: "event \<Rightarrow> account_id option" where
  "order_event_owner (OrderAccepted _ owner _ _ _ _ _) = Some owner"
| "order_event_owner (OrderUpdated _ owner _ _ _ _) = Some owner"
| "order_event_owner _ = None"

definition own_event :: "account_id \<Rightarrow> event \<Rightarrow> event option" where
  "own_event account ev =
     (case order_event_owner ev of
        None \<Rightarrow> None
      | Some owner \<Rightarrow> if owner \<noteq> account then None else Some ev)"

definition private_orders_loop ::
    "(nat \<Rightarrow> bool) \<Rightarrow> jwt_decode \<Rightarrow> (string \<Rightarrow> string option) \<Rightarrow> first_frame \<Rightarrow> received list \<Rightarrow> event connection" where
  "private_orders_loop takes dec auth_message f rs =
     (case authenticate dec auth_message f of
        None \<Rightarrow> connection_new\<lparr>conn_open := False\<rparr>
      | Some account \<Rightarrow> feed_loop takes (\<lambda>batch. own_event account) rs connection_new)"

section \<open>What a connection carries\<close>

text \<open>The messages of a batch, of the batches received before the first error, and of a whole list.\<close>

fun received_batches :: "received list \<Rightarrow> event_batch list" where
  "received_batches (Received b # rs) = b # received_batches rs"
| "received_batches _ = []"

definition batch_messages :: "(event_batch \<Rightarrow> event \<Rightarrow> 'm option) \<Rightarrow> event_batch \<Rightarrow> 'm list" where
  "batch_messages msg batch = List.map_filter (msg batch) (batch_events batch)"

definition feed_messages :: "(event_batch \<Rightarrow> event \<Rightarrow> 'm option) \<Rightarrow> event_batch list \<Rightarrow> 'm list" where
  "feed_messages msg bs = concat (map (batch_messages msg) bs)"

lemma map_filter_Cons: "List.map_filter f (x # xs) = (case f x of None \<Rightarrow> List.map_filter f xs | Some y \<Rightarrow> y # List.map_filter f xs)"
  by (simp add: map_filter_simps split: option.split)

lemma forward_sends:
  "\<exists>k. conn_sent (forward takes msg evs c) = conn_sent c @ take k (List.map_filter msg evs) \<and>
     (conn_open (forward takes msg evs c) \<longrightarrow> conn_open c \<and> length (List.map_filter msg evs) \<le> k)"
proof (induction evs arbitrary: c)
  case Nil
  show ?case by (simp add: map_filter_simps)
next
  case (Cons ev evs)
  show ?case
  proof (cases "msg ev")
    case (Some m)
    show ?thesis
    proof (cases "takes (length (conn_sent c))")
      case True
      obtain k where "conn_sent (forward takes msg evs (c\<lparr>conn_sent := conn_sent c @ [m]\<rparr>)) =
          conn_sent c @ [m] @ take k (List.map_filter msg evs)"
        "conn_open (forward takes msg evs (c\<lparr>conn_sent := conn_sent c @ [m]\<rparr>)) \<longrightarrow> conn_open c \<and> length (List.map_filter msg evs) \<le> k"
        using Cons.IH [of "c\<lparr>conn_sent := conn_sent c @ [m]\<rparr>"] by auto
      then show ?thesis using Some True by (intro exI [of _ "Suc k"]) (simp add: map_filter_Cons)
    next
      case False
      then show ?thesis using Some by (intro exI [of _ 0]) simp
    qed
  qed (use Cons.IH in \<open>simp add: map_filter_Cons\<close>)
qed

lemma feed_sends:
  "\<exists>k. conn_sent (feed_loop takes msg rs c) = conn_sent c @ take k (feed_messages msg (received_batches rs)) \<and>
     (conn_open (feed_loop takes msg rs c) \<longrightarrow> conn_open c \<and> length (feed_messages msg (received_batches rs)) \<le> k \<and>
        rs = map Received (received_batches rs))"
proof (induction takes msg rs c rule: feed_loop.induct)
  case (2 takes msg batch rs c)
  let ?c = "forward takes (msg batch) (batch_events batch) c" and ?ms = "batch_messages msg batch"
  obtain k where k: "conn_sent ?c = conn_sent c @ take k ?ms" "conn_open ?c \<longrightarrow> conn_open c \<and> length ?ms \<le> k"
    using forward_sends [of takes "msg batch" "batch_events batch" c] by (auto simp: batch_messages_def)
  show ?case
  proof (cases "conn_open ?c")
    case True
    obtain j where "conn_sent (feed_loop takes msg rs ?c) = conn_sent ?c @ take j (feed_messages msg (received_batches rs))"
      "conn_open (feed_loop takes msg rs ?c) \<longrightarrow> length (feed_messages msg (received_batches rs)) \<le> j \<and> rs = map Received (received_batches rs)"
      using 2 [OF refl True] by auto
    then show ?thesis using True k by (intro exI [of _ "length ?ms + j"]) (auto simp: Let_def feed_messages_def)
  next
    case False
    then show ?thesis using k(1) by (intro exI [of _ "min k (length ?ms)"]) (simp add: Let_def feed_messages_def min_def)
  qed
qed (auto simp: feed_messages_def)

lemma feed_open_sends:
  assumes "conn_open (feed_loop takes msg (map Received bs) connection_new)"
  shows "conn_sent (feed_loop takes msg (map Received bs) connection_new) = feed_messages msg bs"
proof -
  have "received_batches (map Received bs) = bs" by (induction bs) simp_all
  then show ?thesis using feed_sends [of takes msg "map Received bs" connection_new] assms by (auto simp: connection_new_def)
qed

section \<open>The public feed tells no one apart\<close>

text \<open>A batch with every account and order id of its trades blanked, and without the events that are not
  about the market.\<close>

fun redact_event :: "event \<Rightarrow> event option" where
  "redact_event (Trade t) = Some (Trade (t\<lparr>trd_maker_id := 0, trd_taker_id := 0, trd_maker_account := 0, trd_taker_account := 0\<rparr>))"
| "redact_event (BookDelta p s price qty) = Some (BookDelta p s price qty)"
| "redact_event _ = None"

fun redact :: "received \<Rightarrow> received" where
  "redact (Received b) = Received (b\<lparr>batch_events := List.map_filter redact_event (batch_events b)\<rparr>)"
| "redact r = r"

lemma market_message_redact:
  "market_message_of p seq ev = Option.bind (redact_event ev) (market_message_of p seq)"
  by (cases ev) simp_all

lemma forward_redact: "forward takes (market_message_of p seq) (List.map_filter redact_event evs) c = forward takes (market_message_of p seq) evs c"
proof (induction evs arbitrary: c)
  case (Cons ev evs)
  then show ?case using market_message_redact [of p seq ev]
    by (cases "redact_event ev") (simp_all add: map_filter_Cons split: option.split)
qed (simp add: map_filter_simps)

text \<open>C34: the public feed is anonymous. What a connection is sent depends only on the redacted batches: two
  histories that differ only in who traded, in order ids and in the private events of the accounts are
  indistinguishable to every subscriber.\<close>

theorem public_feed_is_anonymous: "public_market takes (map redact rs) raw = public_market takes rs raw"
proof -
  have "feed_loop takes (\<lambda>b. market_message_of p (batch_seq b)) (map redact rs) c = feed_loop takes (\<lambda>b. market_message_of p (batch_seq b)) rs c" for p c
    by (induction takes "\<lambda>b :: event_batch. market_message_of p (batch_seq b)" rs c rule: feed_loop.induct) (simp_all add: forward_redact Let_def)
  then show ?thesis by (simp add: public_market_def public_market_loop_def split: sum.split)
qed

section \<open>The private feed carries one account's orders\<close>


definition two_orders :: event_batch where
  "two_orders = \<lparr>batch_seq = 3, batch_events =
     [OrderUpdated 1 7 sol_usd 5 0 Filled, OrderAccepted 2 8 sol_usd Bid Limit 12 5, BalanceChanged 7 USD 3 0, OrderUpdated 2 8 sol_usd 5 0 Filled]\<rparr>"


end
