(* ===== verification/Market_Data.thy ===== *)
theory Market_Data
  imports Ws
begin

text \<open>
  The public market data of one market: the REST snapshot (\<open>get_book\<close> in \<open>src/bin/api/book.rs\<close>) and the
  websocket feed, put together the way the documentation of \<open>src/bin/api/ws.rs\<close> tells clients to: subscribe
  first, buffer, fetch the snapshot, drop every message it already covers, apply the rest.
\<close>

section \<open>GET /book/:pair\<close>

definition get_book :: "book_state \<Rightarrow> string \<Rightarrow> nat option \<Rightarrow> api_error + book_snapshot" where
  "get_book store raw_pair q_depth =
     (case pair_try_from raw_pair of
        Inl _ \<Rightarrow> Inl (BadRequest ''invalid pair, expected BASE-QUOTE'')
      | Inr pair \<Rightarrow>
          Inr (store_snapshot pair (min (case q_depth of None \<Rightarrow> default_depth | Some d \<Rightarrow> d) max_depth) store))"

section \<open>A client\<close>

type_synonym level_view = "side \<Rightarrow> u64 \<Rightarrow> u64"

definition client_start :: "book_snapshot \<Rightarrow> level_view" where
  "client_start sn s price =
     (case map_of (map (\<lambda>l. (lvl_price l, lvl_qty l)) (case s of Bid \<Rightarrow> snap_bids sn | Ask \<Rightarrow> snap_asks sn)) price of
        None \<Rightarrow> 0
      | Some x \<Rightarrow> x)"

fun client_take :: "u64 \<Rightarrow> market_message \<Rightarrow> level_view \<Rightarrow> level_view" where
  "client_take covered (DeltaMessage seq s price qty) v = (if seq \<le> covered then v else v(s := (v s)(price := qty)))"
| "client_take covered (TradeMessage _ _ _ _) v = v"

definition client_book :: "book_snapshot \<Rightarrow> market_message list \<Rightarrow> level_view" where
  "client_book sn ms = fold (client_take (snap_sequence sn)) ms (client_start sn)"

lemma client_start_shown:
  assumes "store_inv st" "length (lb_side s (level_book_of st p)) \<le> depth"
  shows "client_start (store_snapshot p depth st) s price = shown st p s price"
proof -
  have pick: "map (\<lambda>l. (lvl_price l, lvl_qty l)) (map to_level xs) = xs" for xs
    by (induction xs) (auto simp: to_level_def)
  have "sorted_wrt (<) (map fst (lb_side s (level_book_of st p)))" using assms(1) by (simp add: store_inv_def levels_kept_def bt_inv_def)
  then have "distinct (map fst (lb_side s (level_book_of st p)))" by (simp add: strict_sorted_iff)
  then have "map_of (rev (lb_side s (level_book_of st p))) = map_of (lb_side s (level_book_of st p))"
    by (simp add: map_of_inject_set flip: rev_map)
  then show ?thesis using assms(2)
    by (cases s) (simp_all add: client_start_def store_snapshot_def Let_def pick shown_def lb_side_def map_of_bt_get
        take_map [symmetric] del: map_map)
qed

text \<open>Messages the snapshot covers are dropped; the others repeat what the projection did.\<close>

abbreviation feed_of :: "pair \<Rightarrow> event_batch list \<Rightarrow> market_message list" where
  "feed_of p \<equiv> feed_messages (\<lambda>batch. market_message_of p (batch_seq batch))"

lemma client_drops:
  assumes "seq \<le> covered"
  shows "fold (client_take covered) (List.map_filter (market_message_of p seq) evs) v = v"
proof (induction evs)
  case (Cons ev evs)
  then show ?case using assms by (cases ev) (simp_all add: map_filter_Cons)
qed (simp add: map_filter_simps)

lemma client_drops_batches:
  assumes "\<And>b. b \<in> set bs \<Longrightarrow> batch_seq b \<le> covered"
  shows "fold (client_take covered) (feed_of p bs) v = v"
  using assms by (induction bs) (simp_all add: feed_messages_def batch_messages_def client_drops)

lemma client_follows:
  assumes "covered < seq"
  shows "fold (client_take covered) (List.map_filter (market_message_of p seq) evs) (shown st p) = shown (fold project_event evs st) p"
proof (induction evs arbitrary: st)
  case (Cons ev evs)
  show ?case
  proof (cases "\<exists>q s price x. ev = BookDelta q s price x")
    case True
    then obtain q s price x where ev: "ev = BookDelta q s price x" by blast
    have "(if q = p then (shown st p)(s := (shown st p s)(price := x)) else shown st p) = shown (project_event ev st) p"
      by (auto simp: fun_eq_iff ev shown_delta simp del: project_event.simps(1))
    moreover have "fold (client_take covered) (List.map_filter (market_message_of p seq) (ev # evs)) (shown st p) =
        fold (client_take covered) (List.map_filter (market_message_of p seq) evs)
          (if q = p then (shown st p)(s := (shown st p s)(price := x)) else shown st p)"
      using assms by (simp add: ev map_filter_Cons not_le [symmetric])
    ultimately show ?thesis using Cons [of "project_event ev st"] by simp
  next
    case False
    then show ?thesis using Cons [of st] by (cases ev) (simp_all add: map_filter_Cons)
  qed
qed (simp add: map_filter_simps)

lemma client_follows_batches:
  assumes "\<And>b. b \<in> set bs \<Longrightarrow> covered < batch_seq b"
  shows "fold (client_take covered) (feed_of p bs) (shown st p) = shown (fold apply_batch bs st) p"
  using assms
proof (induction bs arbitrary: st)
  case (Cons b bs)
  have "fold (client_take covered) (feed_of p [b]) (shown st p) = shown (apply_batch b st) p"
    using Cons.prems by (simp add: feed_messages_def batch_messages_def client_follows apply_batch_def)
  then show ?case using Cons by (simp add: feed_messages_def)
qed (simp add: feed_messages_def)

lemma emitted_numbered:
  assumes "hashing_ok es" "length es \<le> 10 ^ 14" "engine_run es engine_new = Some (e, outs)" "i < length (emitted outs)"
  shows "unat (batch_seq (emitted outs ! i)) = i" "length (emitted outs) \<le> 10 ^ 14"
proof -
  have "length outs = length es" by (rule run_from_new_facts(4) [OF assms(1-3)])
  moreover have "length (emitted outs) \<le> length outs" by (induction outs) (auto split: option.split)
  ultimately show len: "length (emitted outs) \<le> 10 ^ 14" using assms(2) by simp
  have "map batch_seq (emitted outs) ! i = of_nat i"
    using engine_run_seq [OF assms(3)] assms(4) by (simp add: engine_new_def)
  then show "unat (batch_seq (emitted outs ! i)) = i" using assms(4) len by (simp add: unat_of_nat)
qed

section \<open>The promise to clients\<close>

lemma client_current:
  fixes n :: nat and st :: book_state
  assumes run: "hashing_ok es" "length es \<le> 10 ^ 14" "engine_run es engine_new = Some (e, outs)"
    and n: "k \<le> n" "0 < n" "n \<le> length (emitted outs)" and st: "st = fold apply_batch (take n (emitted outs)) book_store_new"
    and len: "\<And>s. length (lb_side s (level_book_of st p)) \<le> depth"
  shows "client_book (store_snapshot p depth st) (feed_of p (drop k (emitted outs))) = shown (fold apply_batch (emitted outs) book_store_new) p"
proof -
  let ?bs = "emitted outs"
  note num = emitted_numbered(1) [OF run]
  have cov: "snap_sequence (store_snapshot p depth st) = batch_seq (?bs ! (n - 1))"
  proof -
    have "take n ?bs = take (n - 1) ?bs @ [?bs ! (n - 1)]" 
      using n take_Suc_conv_app_nth [of "n - 1" ?bs] by simp
    then show ?thesis by (simp add: st store_snapshot_def Let_def apply_batch_def)
  qed
  have first: "batch_seq b \<le> batch_seq (?bs ! (n - 1))" if b: "b \<in> set (drop k (take n ?bs))" for b
  proof -
    have "b \<in> set (take n ?bs)" using b by (rule in_set_dropD)
    then obtain i where "i < n" "b = ?bs ! i" using n(3) by (auto simp: in_set_conv_nth)
    then show ?thesis using num [of i] num [of "n - 1"] n by (simp add: word_le_nat_alt)
  qed
  have later: "batch_seq (?bs ! (n - 1)) < batch_seq b" if b: "b \<in> set (drop n ?bs)" for b
  proof -
    obtain i where "n + i < length ?bs" "b = ?bs ! (n + i)" using b n(3) by (auto simp: in_set_conv_nth less_diff_conv add.commute)
    then show ?thesis using num [of "n + i"] num [of "n - 1"] n by (simp add: word_less_nat_alt)
  qed
  have "drop k ?bs = drop k (take n ?bs) @ drop n ?bs" 
    using n drop_append [of k "take n ?bs" "drop n ?bs"] by simp
  then have feed: "feed_of p (drop k ?bs) = feed_of p (drop k (take n ?bs)) @ feed_of p (drop n ?bs)" by (simp add: feed_messages_def)
  have "store_inv (fold apply_batch bs st0)" if "store_inv st0" for bs st0
    using that by (induction bs arbitrary: st0) (simp_all add: apply_batch_def store_inv_events)
  then have "store_inv st" by (simp add: st)
  then have start: "client_start (store_snapshot p depth st) = shown st p" by (simp add: fun_eq_iff client_start_shown [OF _ len])
  have "fold apply_batch (drop n ?bs) st = fold apply_batch ?bs book_store_new"
    unfolding st by (metis append_take_drop_id comp_apply fold_append)
  then show ?thesis using client_drops_batches [of "drop k (take n ?bs)" "batch_seq (?bs ! (n - 1))" p "shown st p"]
      client_follows_batches [of "drop n ?bs" "batch_seq (?bs ! (n - 1))" p st] first later
    by (simp add: client_book_def cov feed start)
qed



text \<open>The snapshot has to be of at least one batch: an empty store answers with sequence 0, the number of the
  first batch, so a client that started from it drops that batch.\<close>

lemma first_batch_is_dropped:
  "\<exists>e outs. engine_run [(sorted_hashing, 1, 0, ListPair sol_usd), (sorted_hashing, 7, 0, Place (limit_order Bid 0 5))] engine_new = Some (e, outs) \<and>
     depth_at Bid 0 (book_for e sol_usd) = 5 \<and>
     client_book (store_snapshot sol_usd 20 book_store_new) (feed_of sol_usd (emitted outs)) Bid 0 = 0"
  by (simp add: run_eval book_for_def depth_at_def resting_def)
    (simp add: client_book_def feed_messages_def batch_messages_def map_filter_Cons client_start_def store_snapshot_def level_book_of_def
      book_store_new_def level_book_default_def)

end
