(* ===== verification/Api_Reads.thy ===== *)
theory Api_Reads
  imports Db_Properties Auth "HOL-Library.Char_ord" "HOL-Library.List_Lexorder"
begin

text \<open>
  The read side of the API (\<open>get_balances\<close>, \<open>get_orders\<close> and \<open>get_candles\<close> in \<open>src/bin/api/main.rs\<close>): queries over the
  tables the database writer maintains. A query either fails, which every handler turns into a 500, or
  runs on one state of the tables.
\<close>

section \<open>The handlers\<close>

text \<open>The pool: an error or the current tables.\<close>

type_synonym pool = "string + db"

definition fetch_all :: "(db \<Rightarrow> 'r list) \<Rightarrow> pool \<Rightarrow> api_error + 'r list" where
  "fetch_all q pg = (case pg of Inl m \<Rightarrow> Inl (Internal m) | Inr d \<Rightarrow> Inr (q d))"

record balance_out =
  bo_currency :: string
  bo_available :: u64
  bo_reserved :: u64

text \<open>\<open>WHERE account_id = $1\<close> with the account bound as an \<open>i64\<close>, \<open>ORDER BY currency\<close>.\<close>

definition balance_out_of :: "string \<Rightarrow> balance_row \<Rightarrow> balance_out" where
  "balance_out_of c r = \<lparr>bo_currency = c, bo_available = bal_available r, bo_reserved = bal_reserved r\<rparr>"

definition select_balances :: "int \<Rightarrow> db \<Rightarrow> balance_out list" where
  "select_balances account d =
     List.map_filter (\<lambda>c. map_option (balance_out_of c) (db_balances d (word_of_int account, c)))
       (sorted_list_of_set {c. \<exists>a. int (unat a) = account \<and> db_balances d (a, c) \<noteq> None})"

definition get_balances :: "jwt_decode \<Rightarrow> headers \<Rightarrow> pool \<Rightarrow> api_error + balance_out list" where
  "get_balances dec hs pg =
     (case auth_user dec hs of
        Inl e \<Rightarrow> Inl e
      | Inr account \<Rightarrow> fetch_all (select_balances (as_i64 account)) pg)"

record order_out =
  oo_order_id :: u64
  oo_pair :: string
  oo_side :: string
  oo_type :: string
  oo_price :: u64
  oo_size :: u64
  oo_filled_qty :: u64
  oo_status :: string

definition order_out_of :: "u64 \<Rightarrow> order_row \<Rightarrow> order_out" where
  "order_out_of i r =
     \<lparr>oo_order_id = i, oo_pair = or_pair r, oo_side = or_side r, oo_type = or_type r, oo_price = or_price r, oo_size = or_size r,
      oo_filled_qty = or_filled_qty r, oo_status = or_status r\<rparr>"

definition select_orders :: "int \<Rightarrow> db \<Rightarrow> order_out list" where
  "select_orders account d =
     List.map_filter (\<lambda>i. map_option (order_out_of i) (db_orders d i))
       (rev (sorted_list_of_set {i. \<exists>r. db_orders d i = Some r \<and> int (unat (or_account r)) = account}))"

definition get_orders :: "jwt_decode \<Rightarrow> headers \<Rightarrow> pool \<Rightarrow> api_error + order_out list" where
  "get_orders dec hs pg =
     (case auth_user dec hs of
        Inl e \<Rightarrow> Inl e
      | Inr account \<Rightarrow> fetch_all (select_orders (as_i64 account)) pg)"

record candles_query =
  cq_interval :: string
  cq_start :: "int option"
  cq_end :: "int option"
  cq_limit :: "int option"

record candle_out =
  co_time :: int
  co_open :: int
  co_high :: int
  co_low :: int
  co_close :: int
  co_volume :: int

definition default_candles_limit :: int where
  "default_candles_limit = 200"

definition max_candles_limit :: int where
  "max_candles_limit = 1000"

definition clamp :: "int \<Rightarrow> int \<Rightarrow> int \<Rightarrow> int" where
  "clamp lo hi x = (if x < lo then lo else if x > hi then hi else x)"

definition candle_out_of :: "int \<Rightarrow> candle_row \<Rightarrow> candle_out" where
  "candle_out_of b r =
     \<lparr>co_time = b, co_open = cd_open r, co_high = cd_high r, co_low = cd_low r, co_close = cd_close r, co_volume = cd_volume r\<rparr>"

definition in_window :: "candles_query \<Rightarrow> int \<Rightarrow> bool" where
  "in_window q b \<longleftrightarrow> (case cq_start q of None \<Rightarrow> True | Some s \<Rightarrow> s \<le> b) \<and> (case cq_end q of None \<Rightarrow> True | Some e \<Rightarrow> b < e)"

text \<open>The inner query orders by bucket descending and stops after \<open>limit\<close> rows; the outer one turns them
  round.\<close>

definition select_candles :: "string \<Rightarrow> int \<Rightarrow> candles_query \<Rightarrow> nat \<Rightarrow> db \<Rightarrow> candle_out list" where
  "select_candles ps w q limit d =
     List.map_filter (\<lambda>b. map_option (candle_out_of b) (db_candles d (ps, w, b)))
       (rev (take limit (rev (sorted_list_of_set {b. db_candles d (ps, w, b) \<noteq> None \<and> in_window q b}))))"

definition candles_limit :: "candles_query \<Rightarrow> nat" where
  "candles_limit q = nat (clamp 1 max_candles_limit (case cq_limit q of None \<Rightarrow> default_candles_limit | Some l \<Rightarrow> l))"

definition get_candles :: "string \<Rightarrow> candles_query \<Rightarrow> pool \<Rightarrow> api_error + candle_out list" where
  "get_candles raw_pair q pg =
     (case pair_try_from raw_pair of
        Inl _ \<Rightarrow> Inl (BadRequest ''invalid pair, expected BASE-QUOTE'')
      | Inr pair \<Rightarrow>
          (case interval_seconds (cq_interval q) of
             None \<Rightarrow> Inl (BadRequest ''invalid interval, expected one of 1s/15m/1h/4h/1d/1w'')
           | Some seconds \<Rightarrow> fetch_all (select_candles (pair_display pair) seconds q (candles_limit q)) pg))"

section \<open>The newest rows of a sorted table\<close>

lemma set_newest:
  assumes "finite (S :: int set)"
  shows "set (rev (take n (rev (sorted_list_of_set S)))) = {b \<in> S. card {b' \<in> S. b < b'} < n}"
proof -
  define xs where "xs = sorted_list_of_set S"
  have xs: "sorted_wrt (<) xs" "set xs = S" using assms by (simp_all add: xs_def)
  have later: "{b' \<in> S. xs ! i < b'} = set (drop (Suc i) xs)" if i: "i < length xs" for i
  proof -
    have "xs = take i xs @ xs ! i # drop (Suc i) xs" using i by (simp add: id_take_nth_drop)
    then have "sorted_wrt (<) (take i xs @ xs ! i # drop (Suc i) xs)" "S = set (take i xs @ xs ! i # drop (Suc i) xs)" using xs by metis+
    then show ?thesis by (auto simp: sorted_wrt_append)
  qed
  have card: "card {b' \<in> S. xs ! i < b'} = length xs - Suc i" if "i < length xs" for i
    using later [OF that] xs(1) by (simp add: distinct_card strict_sorted_iff)
  have newest: "rev (take n (rev xs)) = drop (length xs - n) xs" by (simp add: take_rev)
  have "b \<in> set (drop (length xs - n) xs) \<longleftrightarrow> b \<in> S \<and> card {b' \<in> S. b < b'} < n" for b
  proof
    assume "b \<in> set (drop (length xs - n) xs)"
    then obtain j where j: "j < length xs - (length xs - n)" "b = xs ! (length xs - n + j)" by (auto simp: in_set_conv_nth)
    have "length xs - n + j < length xs" using j(1) by simp
    then show "b \<in> S \<and> card {b' \<in> S. b < b'} < n" using card j xs(2) by (auto simp: less_diff_conv2)
  next
    assume r: "b \<in> S \<and> card {b' \<in> S. b < b'} < n"
    then obtain i where i: "i < length xs" "b = xs ! i" using xs(2) by (metis in_set_conv_nth)
    then have "length xs - Suc i < n" using r card [OF i(1)] by simp
    then have "length xs - n \<le> i" by arith
    then have "b = drop (length xs - n) xs ! (i - (length xs - n))" "i - (length xs - n) < length (drop (length xs - n) xs)" using i by simp_all
    then show "b \<in> set (drop (length xs - n) xs)" by (metis nth_mem)
  qed
  then show ?thesis by (auto simp: newest simp flip: xs_def)
qed

section \<open>Balances\<close>

text \<open>The writer only ever writes the two currencies.\<close>

definition known_currencies :: "db \<Rightarrow> bool" where
  "known_currencies d \<longleftrightarrow> (\<forall>k \<in> dom (db_balances d). \<exists>c. snd k = currency_display c)"

lemma event_balances:
  assumes "apply_event clk i ev d = Inr d'"
  shows "db_balances d' = db_balances d \<or> (\<exists>a c r. db_balances d' = (db_balances d)((a, currency_display c) \<mapsto> r))"
proof (cases ev)
  case (Trade t)
  show ?thesis using assms unfolding Trade by (elim apply_trade_cases) simp_all
next
  case (BalanceChanged a c av rs)
  then have "db_balances d' = (db_balances d)((a, currency_display c) \<mapsto> \<lparr>bal_available = av, bal_reserved = rs, bal_updated_at = db_now clk\<rparr>)"
    using assms by auto
  then show ?thesis by blast
qed (use assms in \<open>auto split: option.splits\<close>)

lemma known_currencies_event:
  assumes "known_currencies d" "apply_event clk i ev d = Inr d'"
  shows "known_currencies d'"
  using event_balances [OF assms(2)] assms(1) unfolding known_currencies_def by (elim disjE exE) simp_all

lemma known_currencies_tagged: "apply_tagged xs d = Inr d' \<Longrightarrow> known_currencies d \<Longrightarrow> known_currencies d'"
  by (induction xs d rule: apply_tagged.induct) (auto split: sum.splits dest: known_currencies_event)

lemma known_currencies_persisted: "fold (persist clk) bs (Inr db_empty) = Inr d \<Longrightarrow> known_currencies d"
  unfolding fold_persist by (erule known_currencies_tagged) (simp add: known_currencies_def db_empty_def)

lemma sorted_currencies: "sorted_list_of_set (currency_display ` {c. P c}) = map currency_display (filter P [SOL, USD])"
proof -
  have "{c. P c} = set (filter P [SOL, USD])" by (rule set_eqI, case_tac x) auto
  then have "currency_display ` {c. P c} = set (map currency_display (filter P [SOL, USD]))" by simp
  moreover have "sorted (map currency_display (filter P [SOL, USD]))" "distinct (map currency_display (filter P [SOL, USD]))"
    by (simp_all add: less_char_def)
  ultimately show ?thesis by (simp only: sorted_list_of_set.idem_if_sorted_distinct)
qed

lemma select_balances_eq:
  assumes "known_currencies d"
  shows "select_balances (int (unat a)) d =
    List.map_filter (\<lambda>c. map_option (balance_out_of (currency_display c)) (db_balances d (a, currency_display c))) [SOL, USD]"
proof -
  let ?known = "\<lambda>c. db_balances d (a, currency_display c) \<noteq> None"
  have "{c. \<exists>x. int (unat x) = int (unat a) \<and> db_balances d (x, c) \<noteq> None} = currency_display ` {c. ?known c}"
  proof (rule set_eqI, rule iffI)
    fix s
    assume "s \<in> {c. \<exists>x. int (unat x) = int (unat a) \<and> db_balances d (x, c) \<noteq> None}"
    then have "(a, s) \<in> dom (db_balances d)" by (auto simp flip: word_uint_eq_iff)
    moreover obtain c where "s = currency_display c" using assms calculation unfolding known_currencies_def by (metis snd_conv)
    ultimately show "s \<in> currency_display ` {c. ?known c}" by blast
  qed blast
  then show ?thesis unfolding select_balances_def by (simp only: sorted_currencies) (auto simp: map_filter_simps split: option.split)
qed

lemma as_i64_small:
  assumes "unat a < 2 ^ 63"
  shows "as_i64 a = int (unat a)"
proof -
  have "int (unat a) < int (2 ^ 63)" using assms by (simp only: of_nat_less_iff)
  then have "uint a < 2 ^ 63" by simp
  moreover have "- (2 ^ 63) \<le> uint a" by (rule order_trans [OF _ unsigned_greater_eq]) simp
  ultimately show ?thesis using signed_take_bit_int_eq_self [of 63 "uint a"] by (simp add: as_i64_def sint_uint)
qed

text \<open>C31: a balance query answers with the engine's ledger. After any run of the engine and a successful
  write of the batches it emitted, an authenticated account (with an id below \<open>2 ^ 63\<close>, as every
  registered one) is shown exactly its available and reserved balance, by currency in alphabetical
  order; a currency is left out only when it has neither.\<close>

theorem balances_query_exact:
  assumes "hashing_ok es" "length es \<le> 10 ^ 14" "engine_run es engine_new = Some (e, outs)"
    and "fold (persist clk) (emitted outs) (Inr db_empty) = Inr d" "auth_user dec hs = Inr a" "unat a < 2 ^ 63"
  shows "\<exists>rows vis. get_balances dec hs (Inr d) = Inr rows \<and>
    map (\<lambda>r. (bo_currency r, unat (bo_available r), unat (bo_reserved r))) rows =
      map (\<lambda>c. (currency_display c, avail (eng_ledger e) a c, resv (eng_ledger e) a c)) (filter vis [SOL, USD]) \<and>
    (\<forall>c. vis c \<or> avail (eng_ledger e) a c = 0 \<and> resv (eng_ledger e) a c = 0)"
proof -
  let ?row = "\<lambda>c. db_balances d (a, currency_display c)" and ?shown = "\<lambda>c. db_balances d (a, currency_display c) \<noteq> None"
  have sel: "get_balances dec hs (Inr d) = Inr (List.map_filter (\<lambda>c. map_option (balance_out_of (currency_display c)) (?row c)) [SOL, USD])"
    using select_balances_eq [OF known_currencies_persisted [OF assms(4)], of a] as_i64_small [OF assms(6)]
    by (simp add: get_balances_def assms(5) fetch_all_def)
  have mir: "case ?row c of
      None \<Rightarrow> avail (eng_ledger e) a c = 0 \<and> resv (eng_ledger e) a c = 0
    | Some row \<Rightarrow> unat (bal_available row) = avail (eng_ledger e) a c \<and> unat (bal_reserved row) = resv (eng_ledger e) a c" for c
    by (rule db_balances_mirror [OF assms(1-4)])
  have "map (\<lambda>r. (bo_currency r, unat (bo_available r), unat (bo_reserved r)))
      (List.map_filter (\<lambda>c. map_option (balance_out_of (currency_display c)) (?row c)) cs) =
    map (\<lambda>c. (currency_display c, avail (eng_ledger e) a c, resv (eng_ledger e) a c)) (filter ?shown cs)" for cs
  proof (induction cs)
    case (Cons c cs)
    then show ?case using mir [of c] by (auto simp: map_filter_simps balance_out_of_def split: option.splits)
  qed (simp add: map_filter_simps)
  moreover have "?shown c \<or> avail (eng_ledger e) a c = 0 \<and> resv (eng_ledger e) a c = 0" for c
    using mir [of c] by (auto split: option.splits)
  ultimately show ?thesis using sel by blast
qed

theorem balances_query_exact_witness:
  "\<exists>d rows. fold (persist (\<lambda>b. noon)) (emitted demo_outs) (Inr db_empty) = Inr d \<and>
     get_balances (\<lambda>t. Inr \<lparr>cl_sub = 8, cl_exp = 9\<rparr>) (bearer ''t'') (Inr d) = Inr rows \<and>
     (''USD'', 414, 36) \<in> set (map (\<lambda>r. (bo_currency r, unat (bo_available r), unat (bo_reserved r))) rows)"
proof -
  let ?dec = "\<lambda>t :: string. Inr \<lparr>cl_sub = 8, cl_exp = 9\<rparr> :: string + claims"
  obtain d where d: "fold (persist (\<lambda>b. noon)) (emitted demo_outs) (Inr db_empty) = Inr d" using demo_persisted by blast
  have auth: "auth_user ?dec (bearer ''t'') = Inr 8"
    using strip_bearer [of "''t''"] by (simp add: auth_user_def bearer_def verify_def del: append.simps)
  obtain rows vis where r: "get_balances ?dec (bearer ''t'') (Inr d) = Inr rows"
    "map (\<lambda>r. (bo_currency r, unat (bo_available r), unat (bo_reserved r))) rows =
      map (\<lambda>c. (currency_display c, avail (eng_ledger demo_e7) 8 c, resv (eng_ledger demo_e7) 8 c)) (filter vis [SOL, USD])"
    "\<forall>c. vis c \<or> avail (eng_ledger demo_e7) 8 c = 0 \<and> resv (eng_ledger demo_e7) 8 c = 0"
    using balances_query_exact [OF demo_hashing demo_run d auth] by auto
  have usd: "avail (eng_ledger demo_e7) 8 USD = 414" "resv (eng_ledger demo_e7) 8 USD = 36" by (simp_all add: demo_state)
  then have "vis USD" using r(3) by (metis zero_neq_numeral)
  then have "(''USD'', 414, 36) \<in> set (map (\<lambda>r. (bo_currency r, unat (bo_available r), unat (bo_reserved r))) rows)"
    unfolding r(2) using usd by simp
  then show ?thesis using d r(1) by blast
qed

section \<open>Candles\<close>

lemma finite_buckets: "finite {b. in_candle ps w b tts \<noteq> []}"
proof (rule finite_subset)
  show "{b. in_candle ps w b tts \<noteq> []} \<subseteq> (\<lambda>(m, t). bucket_of m w) ` set tts"
    by (auto simp: in_candle_def filter_empty_conv image_iff)
qed simp

lemma ohlcv_None [simp]: "ohlcv ts = None \<longleftrightarrow> ts = []"
  by (simp add: ohlcv_def Let_def)

lemma map_filter_times:
  "(\<And>b. b \<in> set bs \<Longrightarrow> f b \<noteq> None) \<Longrightarrow> map co_time (List.map_filter (\<lambda>b. map_option (candle_out_of b) (f b)) bs) = bs"
  by (induction bs) (auto simp: map_filter_simps candle_out_of_def split: option.split)

lemma set_map_filter_option: "set (List.map_filter f xs) = {y. \<exists>x \<in> set xs. f x = Some y}"
  by (induction xs) (auto simp: map_filter_simps split: option.splits)

lemma candles_limit_le: "candles_limit q \<le> 1000"
  by (simp add: candles_limit_def clamp_def max_candles_limit_def nat_le_iff)

text \<open>The trades of a market that fell into a bucket, in the order they were written.\<close>

definition bucket_trades :: "(event_batch \<Rightarrow> clocks) \<Rightarrow> event_batch list \<Rightarrow> pair \<Rightarrow> int \<Rightarrow> int \<Rightarrow> trade list" where
  "bucket_trades clk bs p w b = in_candle (pair_display p) w b (concat (map (timed_trades clk) bs))"



end
