(* ===== verification/Api.thy ===== *)
theory Api
  imports Engine_Replay Auth
begin

text \<open>
  The write side of the API (\<open>src/bin/api/main.rs\<close>): the handlers turn authenticated requests into
  commands, \<open>submit_command\<close> logs a command and waits for its reply, and the result subscriber wakes the
  waiter a reply is for. Handlers, subscriber and engine run concurrently: \<open>api_step\<close> interleaves them.
\<close>

section \<open>Requests\<close>

record place_order_body =
  pob_pair :: pair
  pob_order_type :: order_type
  pob_side :: side
  pob_price :: u64
  pob_size :: u64

record deposit_body =
  dpb_amount :: u64
  dpb_currency :: currency

record withdraw_body =
  wdb_amount :: u64
  wdb_currency :: currency

record list_pair_body =
  lpb_pair :: pair

text \<open>The write routes; a body or path parameter that the framework could not parse is the status of its
  rejection.\<close>

datatype route =
    PostOrders "nat + place_order_body"
  | DeleteOrder "nat + u64"
  | PostDeposits "nat + deposit_body"
  | PostWithdrawals "nat + withdraw_body"
  | PostPairs "nat + list_pair_body"
  | DeletePair string

section \<open>Responses\<close>

datatype content =
    NoContent
  | Placed place_order_response
  | Rejected reject_reason
  | Available u64

type_synonym response = "nat \<times> content"

definition error_response :: "api_error \<Rightarrow> response" where
  "error_response e = (error_status e, NoContent)"

fun response_for :: "command_response \<Rightarrow> response" where
  "response_for (PlaceR (Inr r)) = (200, Placed r)"
| "response_for (PlaceR (Inl e)) = (400, Rejected e)"
| "response_for (CancelR True) = (204, NoContent)"
| "response_for (CancelR False) = error_response NotFound"
| "response_for (DepositR (Inr amount)) = (200, Available amount)"
| "response_for (DepositR (Inl e)) = (400, Rejected e)"
| "response_for (WithdrawR (Inr ())) = (204, NoContent)"
| "response_for (WithdrawR (Inl e)) = (400, Rejected e)"
| "response_for (ListPairR (Inr _)) = (204, NoContent)"
| "response_for (ListPairR (Inl e)) = (400, Rejected e)"
| "response_for (DelistPairR True) = (204, NoContent)"
| "response_for (DelistPairR False) = error_response NotFound"
| "response_for Duplicate = (409, NoContent)"

section \<open>Handlers\<close>

text \<open>What a handler hands to \<open>submit_command\<close>, or the response it gives without logging anything. The
  extractors run in the order of the handlers' parameters.\<close>

type_synonym submission = "account_id \<times> u64 \<times> command"

definition extracted :: "jwt_decode \<Rightarrow> headers \<Rightarrow> nat + 'b \<Rightarrow> (account_id \<Rightarrow> u64 \<Rightarrow> 'b \<Rightarrow> response + submission) \<Rightarrow> response + submission" where
  "extracted dec hs body k =
     (case auth_user dec hs of
        Inl e \<Rightarrow> Inl (error_response e)
      | Inr account \<Rightarrow>
          (case client_order_id hs of
             Inl e \<Rightarrow> Inl (error_response e)
           | Inr client \<Rightarrow>
               (case body of Inl status \<Rightarrow> Inl (status, NoContent) | Inr b \<Rightarrow> k account client b)))"

definition place_order_handler :: "jwt_decode \<Rightarrow> headers \<Rightarrow> nat + place_order_body \<Rightarrow> response + submission" where
  "place_order_handler dec hs body = extracted dec hs body (\<lambda>account client b.
     Inr (account, client, Place \<lparr>req_pair = pob_pair b, req_type = pob_order_type b, req_side = pob_side b,
       req_price = pob_price b, req_size = pob_size b\<rparr>))"

definition cancel_order_handler :: "jwt_decode \<Rightarrow> headers \<Rightarrow> nat + u64 \<Rightarrow> response + submission" where
  "cancel_order_handler dec hs path = extracted dec hs path (\<lambda>account client order_id.
     Inr (account, client, Cancel \<lparr>can_order_id = order_id\<rparr>))"

definition deposit_handler :: "jwt_decode \<Rightarrow> headers \<Rightarrow> nat + deposit_body \<Rightarrow> response + submission" where
  "deposit_handler dec hs body = extracted dec hs body (\<lambda>account client b.
     Inr (account, client, Deposit \<lparr>dep_amount = dpb_amount b, dep_currency = dpb_currency b\<rparr>))"

definition withdraw_handler :: "jwt_decode \<Rightarrow> headers \<Rightarrow> nat + withdraw_body \<Rightarrow> response + submission" where
  "withdraw_handler dec hs body = extracted dec hs body (\<lambda>account client b.
     Inr (account, client, Withdraw \<lparr>wd_amount = wdb_amount b, wd_currency = wdb_currency b\<rparr>))"

definition require_admin :: "account_id \<Rightarrow> account_id \<Rightarrow> api_error + unit" where
  "require_admin admin account = (if account \<noteq> admin then Inl Forbidden else Inr ())"

definition list_pair_handler :: "account_id \<Rightarrow> jwt_decode \<Rightarrow> headers \<Rightarrow> nat + list_pair_body \<Rightarrow> response + submission" where
  "list_pair_handler admin dec hs body = extracted dec hs body (\<lambda>account client b.
     (case require_admin admin account of
        Inl e \<Rightarrow> Inl (error_response e)
      | Inr _ \<Rightarrow> Inr (account, client, ListPair (lpb_pair b))))"

definition delist_pair_handler :: "account_id \<Rightarrow> jwt_decode \<Rightarrow> headers \<Rightarrow> string \<Rightarrow> response + submission" where
  "delist_pair_handler admin dec hs raw_pair = extracted dec hs (Inr raw_pair) (\<lambda>account client raw.
     (case require_admin admin account of
        Inl e \<Rightarrow> Inl (error_response e)
      | Inr _ \<Rightarrow>
          (case pair_try_from raw of
             Inl _ \<Rightarrow> Inl (error_response (BadRequest ''invalid pair, expected BASE-QUOTE''))
           | Inr p \<Rightarrow> Inr (account, client, DelistPair p))))"

fun handle_route :: "account_id \<Rightarrow> jwt_decode \<Rightarrow> headers \<Rightarrow> route \<Rightarrow> response + submission" where
  "handle_route admin dec hs (PostOrders body) = place_order_handler dec hs body"
| "handle_route admin dec hs (DeleteOrder path) = cancel_order_handler dec hs path"
| "handle_route admin dec hs (PostDeposits body) = deposit_handler dec hs body"
| "handle_route admin dec hs (PostWithdrawals body) = withdraw_handler dec hs body"
| "handle_route admin dec hs (PostPairs body) = list_pair_handler admin dec hs body"
| "handle_route admin dec hs (DeletePair raw) = delist_pair_handler admin dec hs raw"

text \<open>Every command a handler submits is of the authenticated account, with the client's idempotency key,
  and the market listings are the admin's.\<close>

definition admin_only :: "command \<Rightarrow> bool" where
  "admin_only cmd \<longleftrightarrow> (case cmd of ListPair _ \<Rightarrow> True | DelistPair _ \<Rightarrow> True | _ \<Rightarrow> False)"

lemma handle_route_authorised:
  assumes "handle_route admin dec hs r = Inr (account, client, cmd)"
  shows "auth_user dec hs = Inr account" "client_order_id hs = Inr client" "admin_only cmd \<Longrightarrow> account = admin"
proof -
  have "auth_user dec hs = Inr account \<and> client_order_id hs = Inr client \<and> (admin_only cmd \<longrightarrow> account = admin)"
    using assms
    by (cases r) (auto simp: place_order_handler_def cancel_order_handler_def deposit_handler_def withdraw_handler_def
        list_pair_handler_def delist_pair_handler_def extracted_def require_admin_def admin_only_def split: sum.splits if_splits)
  then show "auth_user dec hs = Inr account" "client_order_id hs = Inr client" "admin_only cmd \<Longrightarrow> account = admin" by simp_all
qed

end
