(* ===== verification/Api_Service.thy ===== *)
theory Api_Service
  imports Api Runtime
begin

text \<open>
  \<open>submit_command\<close> and \<open>run_result_subscriber\<close> (\<open>src/bin/api/main.rs\<close>) at work with the engine: any number of
  handlers wait for replies at once, the engine consumes the \<open>commands\<close> stream and publishes replies, the
  subscriber wakes the waiters. Every interleaving of their atomic actions is a run of \<open>api_step\<close>.
\<close>

section \<open>State\<close>

text \<open>Where a call of \<open>submit_command\<close> stands: its waiter is registered; Redis has logged the command; the
  \<open>XADD\<close> has returned and the handler waits; the timer has fired; the call has returned.\<close>

datatype phase = Registered | Logged | Waiting | TimedOut | Returned "api_error + command_response"

text \<open>A call, with what its one-shot channel holds.\<close>

record call =
  call_env :: command_envelope
  call_phase :: phase
  call_reply :: "command_response option"

text \<open>The pending waiters, the calls, the \<open>commands\<close> stream, the published replies not yet read, and the engine
  with the entries it has consumed and what it gave for them.\<close>

record api_state =
  as_pending :: "uuid set"
  as_calls :: "uuid \<rightharpoonup> call"
  as_log :: "command_envelope list"
  as_results :: "response_envelope list"
  as_engine :: engine
  as_input :: "log_entry list"
  as_outs :: "engine_out list"

definition api_new :: api_state where
  "api_new = \<lparr>as_pending = {}, as_calls = Map.empty, as_log = [], as_results = [], as_engine = engine_new, as_input = [], as_outs = []\<rparr>"

section \<open>submit_command\<close>

definition set_phase :: "uuid \<Rightarrow> phase \<Rightarrow> api_state \<Rightarrow> api_state" where
  "set_phase i ph s = s\<lparr>as_calls := (as_calls s)(i := map_option (\<lambda>c. c\<lparr>call_phase := ph\<rparr>) (as_calls s i))\<rparr>"

definition forget :: "uuid \<Rightarrow> api_state \<Rightarrow> api_state" where
  "forget i s = s\<lparr>as_pending := as_pending s - {i}\<rparr>"

definition envelope_for :: "uuid \<Rightarrow> submission \<Rightarrow> command_envelope" where
  "envelope_for i sub = (case sub of (account, client, cmd) \<Rightarrow>
     \<lparr>env_correlation_id = i, env_account_id = account, env_client_order_id = client, env_command = cmd\<rparr>)"

text \<open>Serialization first, then the waiter.\<close>

definition register :: "uuid \<Rightarrow> submission \<Rightarrow> string option \<Rightarrow> api_state \<Rightarrow> api_state" where
  "register i sub serialize_error s =
     (case serialize_error of
        Some m \<Rightarrow> s\<lparr>as_calls := (as_calls s)(i \<mapsto> \<lparr>call_env = envelope_for i sub, call_phase = Returned (Inl (Internal m)), call_reply = None\<rparr>)\<rparr>
      | None \<Rightarrow> s\<lparr>as_pending := insert i (as_pending s),
                  as_calls := (as_calls s)(i \<mapsto> \<lparr>call_env = envelope_for i sub, call_phase = Registered, call_reply = None\<rparr>)\<rparr>)"

definition xadd_logged :: "uuid \<Rightarrow> command_envelope \<Rightarrow> api_state \<Rightarrow> api_state" where
  "xadd_logged i env s = set_phase i Logged (s\<lparr>as_log := as_log s @ [env]\<rparr>)"

definition xadd_returned :: "uuid \<Rightarrow> string option \<Rightarrow> api_state \<Rightarrow> api_state" where
  "xadd_returned i failed s =
     (case failed of
        None \<Rightarrow> set_phase i Waiting s
      | Some m \<Rightarrow> set_phase i (Returned (Inl (Internal m))) (forget i s))"

definition await_reply :: "uuid \<Rightarrow> command_response option \<Rightarrow> api_state \<Rightarrow> api_state" where
  "await_reply i reply s =
     (case reply of
        Some r \<Rightarrow> set_phase i (Returned (Inr r)) s
      | None \<Rightarrow> set_phase i TimedOut s)"

definition after_timeout :: "uuid \<Rightarrow> api_state \<Rightarrow> api_state" where
  "after_timeout i s = set_phase i (Returned (Inl Timeout)) (forget i s)"

text \<open>The HTTP response of a handler whose call returned.\<close>

definition respond :: "api_error + command_response \<Rightarrow> response" where
  "respond res = (case res of Inr resp \<Rightarrow> response_for resp | Inl e \<Rightarrow> error_response e)"

section \<open>The result subscriber\<close>

text \<open>Take the waiter and send; a reply nobody waits for is dropped, and one whose receiver is gone is
  lost in the channel.\<close>

definition deliver :: "response_envelope \<Rightarrow> api_state \<Rightarrow> api_state" where
  "deliver msg s =
     (let i = rsp_correlation_id msg
      in if i \<in> as_pending s
         then (forget i s)\<lparr>as_calls := (as_calls s)(i := map_option (\<lambda>c. c\<lparr>call_reply := Some (rsp_response msg)\<rparr>) (as_calls s i))\<rparr>
         else s)"

section \<open>All interleavings\<close>

text \<open>The tokens valid at a time are \<open>dec t\<close>; \<open>Uuid::new_v4\<close> never repeats; the engine takes the next logged
  command, with any hash order, and publishes its response; a published reply reaches the subscriber
  or is lost, as pub/sub allows. The timer can only win while the channel is empty.\<close>

inductive api_step :: "account_id \<Rightarrow> (nat \<Rightarrow> jwt_decode) \<Rightarrow> api_state \<Rightarrow> api_state \<Rightarrow> bool" for admin dec where
  submit: "as_calls s i = None \<Longrightarrow> handle_route admin (dec t) hs r = Inr sub \<Longrightarrow> api_step admin dec s (register i sub bad s)"
| logged: "as_calls s i = Some c \<Longrightarrow> call_phase c = Registered \<Longrightarrow> api_step admin dec s (xadd_logged i (call_env c) s)"
| xadd_ok: "as_calls s i = Some c \<Longrightarrow> call_phase c = Logged \<Longrightarrow> api_step admin dec s (xadd_returned i None s)"
| xadd_err: "as_calls s i = Some c \<Longrightarrow> call_phase c = Registered \<or> call_phase c = Logged \<Longrightarrow>
    api_step admin dec s (xadd_returned i (Some m) s)"
| await: "as_calls s i = Some c \<Longrightarrow> call_phase c = Waiting \<Longrightarrow> api_step admin dec s (await_reply i (call_reply c) s)"
| cleanup: "as_calls s i = Some c \<Longrightarrow> call_phase c = TimedOut \<Longrightarrow> api_step admin dec s (after_timeout i s)"
| engine: "length (as_outs s) < length (as_log s) \<Longrightarrow> env = as_log s ! length (as_outs s) \<Longrightarrow> drains h \<Longrightarrow>
    engine_apply h (env_account_id env) (env_client_order_id env) (env_command env) (as_engine s) = Some (e, r, b) \<Longrightarrow>
    api_step admin dec s (s\<lparr>as_engine := e,
      as_input := as_input s @ [(h, env_account_id env, env_client_order_id env, env_command env)], as_outs := as_outs s @ [(r, b)],
      as_results := as_results s @ [\<lparr>rsp_correlation_id = env_correlation_id env, rsp_response = r\<rparr>]\<rparr>)"
| subscriber: "as_results s = msg # rest \<Longrightarrow> api_step admin dec s (deliver msg (s\<lparr>as_results := rest\<rparr>))"
| lost: "as_results s = msg # rest \<Longrightarrow> api_step admin dec s (s\<lparr>as_results := rest\<rparr>)"

definition api_reachable :: "account_id \<Rightarrow> (nat \<Rightarrow> jwt_decode) \<Rightarrow> api_state \<Rightarrow> bool" where
  "api_reachable admin dec s \<longleftrightarrow> (api_step admin dec)\<^sup>*\<^sup>* api_new s"

section \<open>The invariant\<close>

text \<open>The engine gave \<open>r\<close> for the logged command with correlation id \<open>i\<close>.\<close>

definition answered :: "api_state \<Rightarrow> uuid \<Rightarrow> command_response \<Rightarrow> bool" where
  "answered s i r \<longleftrightarrow> (\<exists>k < length (as_outs s). env_correlation_id (as_log s ! k) = i \<and> fst (as_outs s ! k) = r)"

definition authorised :: "account_id \<Rightarrow> (nat \<Rightarrow> jwt_decode) \<Rightarrow> command_envelope \<Rightarrow> bool" where
  "authorised admin dec env \<longleftrightarrow> (\<exists>t hs r. handle_route admin (dec t) hs r =
     Inr (env_account_id env, env_client_order_id env, env_command env))"

definition call_ok :: "account_id \<Rightarrow> (nat \<Rightarrow> jwt_decode) \<Rightarrow> api_state \<Rightarrow> uuid \<Rightarrow> call \<Rightarrow> bool" where
  "call_ok admin dec s i c \<longleftrightarrow>
     env_correlation_id (call_env c) = i \<and> authorised admin dec (call_env c) \<and>
     (\<forall>r. call_reply c = Some r \<or> call_phase c = Returned (Inr r) \<longrightarrow> answered s i r) \<and>
     (i \<in> as_pending s \<longrightarrow> call_reply c = None) \<and>
     (case call_phase c of Returned _ \<Rightarrow> i \<notin> as_pending s | TimedOut \<Rightarrow> True | _ \<Rightarrow> call_reply c = None \<longrightarrow> i \<in> as_pending s)"

definition consumed :: "api_state \<Rightarrow> bool" where
  "consumed s \<longleftrightarrow> engine_run (as_input s) engine_new = Some (as_engine s, as_outs s) \<and> hashing_ok (as_input s) \<and>
     length (as_outs s) \<le> length (as_log s) \<and>
     map snd (as_input s) = map (\<lambda>env. (env_account_id env, env_client_order_id env, env_command env)) (take (length (as_outs s)) (as_log s))"

definition logged_once :: "api_state \<Rightarrow> bool" where
  "logged_once s \<longleftrightarrow> distinct (map env_correlation_id (as_log s)) \<and>
     (\<forall>env \<in> set (as_log s). \<exists>c. as_calls s (env_correlation_id env) = Some c \<and> call_env c = env \<and> call_phase c \<noteq> Registered)"

definition api_inv :: "account_id \<Rightarrow> (nat \<Rightarrow> jwt_decode) \<Rightarrow> api_state \<Rightarrow> bool" where
  "api_inv admin dec s \<longleftrightarrow> consumed s \<and> logged_once s \<and> as_pending s \<subseteq> dom (as_calls s) \<and>
     (\<forall>msg \<in> set (as_results s). answered s (rsp_correlation_id msg) (rsp_response msg)) \<and>
     (\<forall>i c. as_calls s i = Some c \<longrightarrow> call_ok admin dec s i c)"

lemma call_ok_mono:
  assumes "call_ok admin dec s i c" "\<And>r. answered s i r \<Longrightarrow> answered s' i r" "i \<in> as_pending s' \<longleftrightarrow> i \<in> as_pending s"
  shows "call_ok admin dec s' i c"
  using assms unfolding call_ok_def by (simp split: phase.splits)

lemma api_inv_calls: "api_inv admin dec s \<Longrightarrow> as_calls s i = Some c \<Longrightarrow> call_ok admin dec s i c"
  by (simp add: api_inv_def)

text \<open>A step that changes one call keeps the invariant when the call stays right.\<close>

lemma api_inv_call:
  assumes "api_inv admin dec s" "as_calls s i = Some c"
    and same: "as_log s' = as_log s" "as_outs s' = as_outs s" "as_input s' = as_input s" "as_engine s' = as_engine s"
      "set (as_results s') \<subseteq> set (as_results s)"
    and call: "as_calls s' = (as_calls s)(i \<mapsto> c')" "call_env c' = call_env c" "call_phase c' = Registered \<longrightarrow> call_phase c = Registered"
    and pend: "as_pending s' - {i} = as_pending s - {i}" "call_ok admin dec s' i c'"
  shows "api_inv admin dec s'"
proof -
  have ans: "answered s' = answered s" by (simp add: answered_def fun_eq_iff same)
  have "call_ok admin dec s' j d" if "as_calls s' j = Some d" for j d
  proof (cases "j = i")
    case True
    then show ?thesis using that call(1) pend(2) by simp
  next
    case False
    then have "call_ok admin dec s j d" using that api_inv_calls [OF assms(1)] call(1) by simp
    then show ?thesis by (rule call_ok_mono) (use ans pend(1) False in auto)
  qed
  moreover have "consumed s'" "logged_once s'" using assms(1,2) call by (auto simp: api_inv_def consumed_def logged_once_def same)
  moreover have "as_pending s' \<subseteq> dom (as_calls s')" using assms(1) call(1) pend(1) by (auto simp: api_inv_def)
  moreover have "answered s' (rsp_correlation_id msg) (rsp_response msg)" if "msg \<in> set (as_results s')" for msg
    using assms(1) that same(5) by (auto simp: api_inv_def ans)
  ultimately show ?thesis by (simp add: api_inv_def)
qed

lemma api_inv_phase:
  assumes "api_inv admin dec s" "as_calls s i = Some c" "ph \<noteq> Registered" "s0 = s \<or> s0 = forget i s"
    and "call_ok admin dec s0 i (c\<lparr>call_phase := ph\<rparr>)"
  shows "api_inv admin dec (set_phase i ph s0)"
proof (rule api_inv_call [OF assms(1,2)])
  show "call_ok admin dec (set_phase i ph s0) i (c\<lparr>call_phase := ph\<rparr>)"
    using assms(5) by (simp add: call_ok_def set_phase_def answered_def split: phase.splits)
qed (use assms(2-4) in \<open>auto simp: set_phase_def forget_def\<close>)

lemma api_inv_new: "api_inv admin dec api_new"
  by (simp add: api_inv_def consumed_def logged_once_def api_new_def)

lemma api_inv_register:
  assumes "api_inv admin dec s" "as_calls s i = None" "handle_route admin (dec t) hs r = Inr sub"
  shows "api_inv admin dec (register i sub bad s)"
proof -
  let ?s = "register i sub bad s"
  have same: "as_log ?s = as_log s" "as_outs ?s = as_outs s" "as_input ?s = as_input s" "as_engine ?s = as_engine s" "as_results ?s = as_results s"
    by (simp_all add: register_def split: option.split)
  have ans: "answered ?s = answered s" by (simp add: answered_def fun_eq_iff same)
  obtain c where c: "as_calls ?s = (as_calls s)(i \<mapsto> c)" "call_env c = envelope_for i sub" "call_reply c = None"
    "call_phase c = (case bad of None \<Rightarrow> Registered | Some m \<Rightarrow> Returned (Inl (Internal m)))"
    by (cases bad) (simp_all add: register_def)
  have pend: "as_pending ?s = (if bad = None then insert i (as_pending s) else as_pending s)" "i \<notin> as_pending s"
    using assms(1,2) by (auto simp: register_def api_inv_def split: option.split)
  have env: "env_correlation_id (envelope_for i sub) = i" "authorised admin dec (envelope_for i sub)"
    using assms(3) by (cases sub; force simp: envelope_for_def authorised_def)+
  have "call_ok admin dec ?s j d" if "as_calls ?s j = Some d" for j d
  proof (cases "j = i")
    case True
    then show ?thesis using that c env pend by (cases bad) (auto simp: call_ok_def)
  next
    case False
    then have "call_ok admin dec s j d" using that api_inv_calls [OF assms(1)] c(1) by simp
    then show ?thesis by (rule call_ok_mono) (use ans pend False in auto)
  qed
  moreover have "logged_once ?s" using assms(1,2) by (fastforce simp: api_inv_def logged_once_def same c(1))
  moreover have "consumed ?s" "as_pending ?s \<subseteq> dom (as_calls ?s)" using assms(1) pend(1) c(1) by (auto simp: api_inv_def consumed_def same)
  ultimately show ?thesis using assms(1) by (simp add: api_inv_def same ans)
qed

lemma api_inv_logged:
  assumes "api_inv admin dec s" "as_calls s i = Some c" "call_phase c = Registered"
  shows "api_inv admin dec (xadd_logged i (call_env c) s)"
proof -
  let ?s = "s\<lparr>as_log := as_log s @ [call_env c]\<rparr>" and ?t = "xadd_logged i (call_env c) s"
  have ok: "call_ok admin dec s i c" and env: "env_correlation_id (call_env c) = i" using assms(1,2) by (auto simp: api_inv_def call_ok_def)
  have len: "length (as_outs s) \<le> length (as_log s)" using assms(1) by (simp add: api_inv_def consumed_def)
  have outs: "as_outs ?t = as_outs s" "\<And>k. k < length (as_outs s) \<Longrightarrow> as_log ?t ! k = as_log s ! k"
    using len by (simp_all add: xadd_logged_def set_phase_def nth_append)
  have ans: "answered ?t j r \<longleftrightarrow> answered s j r" for j r
    by (simp add: answered_def outs cong: conj_cong)
  have calls: "as_calls ?t = (as_calls s)(i \<mapsto> c\<lparr>call_phase := Logged\<rparr>)" "as_pending ?t = as_pending s" "as_results ?t = as_results s"
    using assms(2) by (simp_all add: xadd_logged_def set_phase_def)
  have fresh: "i \<notin> env_correlation_id ` set (as_log s)"
  proof
    assume "i \<in> env_correlation_id ` set (as_log s)"
    then obtain c0 where "as_calls s i = Some c0" "call_phase c0 \<noteq> Registered" using assms(1) unfolding api_inv_def logged_once_def by blast
    then show False using assms(2,3) by simp
  qed
  have moved: "call_ok admin dec s i (c\<lparr>call_phase := Logged\<rparr>)" using ok assms(3) by (simp add: call_ok_def)
  have "call_ok admin dec ?t j d" if d: "as_calls ?t j = Some d" for j d
  proof -
    have "call_ok admin dec s j d" using d api_inv_calls [OF assms(1)] moved by (auto simp: calls split: if_splits)
    then show ?thesis by (rule call_ok_mono) (simp_all add: ans calls)
  qed
  moreover have "logged_once ?t" unfolding logged_once_def
  proof (intro conjI ballI)
    have log: "as_log ?t = as_log s @ [call_env c]" by (simp add: xadd_logged_def set_phase_def)
    have once: "logged_once s" using assms(1) by (simp add: api_inv_def)
    then show "distinct (map env_correlation_id (as_log ?t))" using fresh env by (simp add: log logged_once_def)
    fix x
    assume "x \<in> set (as_log ?t)"
    then consider "x = call_env c" | "x \<in> set (as_log s)" using log by auto
    then show "\<exists>d. as_calls ?t (env_correlation_id x) = Some d \<and> call_env d = x \<and> call_phase d \<noteq> Registered"
    proof cases
      case 2
      then have "env_correlation_id x \<noteq> i" using fresh by blast
      then show ?thesis using once 2 by (simp add: calls logged_once_def)
    qed (simp add: calls env)
  qed
  moreover have "consumed ?t" using assms(1) len by (simp add: api_inv_def consumed_def xadd_logged_def set_phase_def)
  moreover have "as_pending ?t \<subseteq> dom (as_calls ?t)" using assms(1) by (auto simp: calls api_inv_def)
  ultimately show ?thesis using assms(1) by (simp add: api_inv_def calls ans)
qed

lemma api_inv_engine:
  assumes "api_inv admin dec s" "length (as_outs s) < length (as_log s)" "env = as_log s ! length (as_outs s)" "drains h"
    and "engine_apply h (env_account_id env) (env_client_order_id env) (env_command env) (as_engine s) = Some (e, r, b)"
  shows "api_inv admin dec (s\<lparr>as_engine := e,
      as_input := as_input s @ [(h, env_account_id env, env_client_order_id env, env_command env)], as_outs := as_outs s @ [(r, b)],
      as_results := as_results s @ [\<lparr>rsp_correlation_id = env_correlation_id env, rsp_response = r\<rparr>]\<rparr>)" (is "api_inv admin dec ?s")
proof -
  have con: "consumed s" using assms(1) by (simp add: api_inv_def)
  have more: "answered s j x \<Longrightarrow> answered ?s j x" for j x
    unfolding answered_def by (elim exE conjE, rule_tac x = k in exI) (simp add: nth_append)
  have new: "answered ?s (env_correlation_id env) r"
    unfolding answered_def by (rule exI [of _ "length (as_outs s)"]) (simp add: assms(3))
  have "call_ok admin dec ?s j d" if "as_calls ?s j = Some d" for j d
    by (rule call_ok_mono [OF api_inv_calls [OF assms(1)]]) (use that more in simp_all)
  moreover have "consumed ?s"
    using con assms(2-5) by (simp add: consumed_def engine_run_append hashing_ok_def drains_def take_Suc_conv_app_nth)
  ultimately show ?thesis using assms(1) more new by (auto simp: api_inv_def logged_once_def)
qed

lemma api_inv_lost:
  assumes "api_inv admin dec s" "as_results s = msg # rest"
  shows "api_inv admin dec (s\<lparr>as_results := rest\<rparr>)" (is "api_inv admin dec ?s")
proof -
  have ans: "answered ?s = answered s" by (simp add: answered_def fun_eq_iff)
  have "call_ok admin dec ?s j d" if "as_calls ?s j = Some d" for j d
    by (rule call_ok_mono [OF api_inv_calls [OF assms(1)]]) (use that ans in simp_all)
  then show ?thesis using assms by (simp add: api_inv_def consumed_def logged_once_def ans)
qed

lemma api_inv_deliver:
  assumes "api_inv admin dec s" "as_results s = msg # rest"
  shows "api_inv admin dec (deliver msg (s\<lparr>as_results := rest\<rparr>))"
proof -
  let ?i = "rsp_correlation_id msg" and ?s = "s\<lparr>as_results := rest\<rparr>"
  have drop: "api_inv admin dec ?s" by (rule api_inv_lost [OF assms])
  show ?thesis
  proof (cases "?i \<in> as_pending s")
    case True
    then obtain c where c: "as_calls s ?i = Some c" using assms(1) by (auto simp: api_inv_def)
    have "answered s ?i (rsp_response msg)" "call_ok admin dec s ?i c" using assms c by (auto simp: api_inv_def)
    then have "call_ok admin dec (deliver msg ?s) ?i (c\<lparr>call_reply := Some (rsp_response msg)\<rparr>)"
      using True by (auto simp: call_ok_def deliver_def Let_def forget_def answered_def split: phase.splits)
    then show ?thesis using True c
      by (intro api_inv_call [OF drop, of ?i c _ "c\<lparr>call_reply := Some (rsp_response msg)\<rparr>"]) (auto simp: deliver_def Let_def forget_def)
  qed (use drop in \<open>simp add: deliver_def Let_def\<close>)
qed

lemma api_inv_step:
  assumes "api_step admin dec s s'" "api_inv admin dec s"
  shows "api_inv admin dec s'"
  using assms
proof (induction rule: api_step.induct)
  case (submit s i t hs r sub bad)
  show ?case by (rule api_inv_register [OF submit(3,1,2)])
next
  case (logged s i c)
  show ?case by (rule api_inv_logged [OF logged(3,1,2)])
next
  case (xadd_ok s i c)
  show ?case unfolding xadd_returned_def option.case
    by (rule api_inv_phase [OF xadd_ok(3,1)]) (use api_inv_calls [OF xadd_ok(3,1)] xadd_ok(2) in \<open>simp_all add: call_ok_def\<close>)
next
  case (xadd_err s i c m)
  show ?case unfolding xadd_returned_def option.case
    by (rule api_inv_phase [OF xadd_err(3,1)]) (use api_inv_calls [OF xadd_err(3,1)] in \<open>auto simp: call_ok_def forget_def answered_def\<close>)
next
  case (await s i c)
  have ok: "call_ok admin dec s i c" by (rule api_inv_calls [OF await(3,1)])
  show ?case
  proof (cases "call_reply c")
    case None
    then show ?thesis unfolding await_reply_def by (simp, intro api_inv_phase [OF await(3,1)]) (use ok in \<open>simp_all add: call_ok_def\<close>)
  next
    case (Some r)
    then show ?thesis unfolding await_reply_def by (simp, intro api_inv_phase [OF await(3,1)]) (use ok in \<open>auto simp: call_ok_def\<close>)
  qed
next
  case (cleanup s i c)
  show ?case unfolding after_timeout_def
    by (rule api_inv_phase [OF cleanup(3,1)]) (use api_inv_calls [OF cleanup(3,1)] in \<open>auto simp: call_ok_def forget_def answered_def\<close>)
next
  case (engine s env h e r b)
  show ?case by (rule api_inv_engine [OF engine(5,1-4)])
next
  case (subscriber s msg rest)
  show ?case by (rule api_inv_deliver [OF subscriber(2,1)])
next
  case (lost s msg rest)
  show ?case by (rule api_inv_lost [OF lost(2,1)])
qed

lemma api_inv_reachable: "api_reachable admin dec s \<Longrightarrow> api_inv admin dec s"
  unfolding api_reachable_def by (induction rule: rtranclp_induct) (auto intro: api_inv_new api_inv_step)

section \<open>A woken call\<close>

text \<open>From the moment its reply is in the channel, a call can end with that reply only, or, while its
  \<open>XADD\<close> is still in flight, with the error of the \<open>XADD\<close>.\<close>

definition woken :: "bool \<Rightarrow> command_response \<Rightarrow> call \<Rightarrow> bool" where
  "woken sent r c \<longleftrightarrow>
     (case call_phase c of
        Registered \<Rightarrow> \<not> sent \<and> call_reply c = Some r
      | Logged \<Rightarrow> \<not> sent \<and> call_reply c = Some r
      | Waiting \<Rightarrow> call_reply c = Some r
      | TimedOut \<Rightarrow> False
      | Returned res \<Rightarrow> res = Inr r \<or> \<not> sent \<and> (\<exists>m. res = Inl (Internal m)))"

lemma woken_not_pending: "call_ok admin dec s i c \<Longrightarrow> woken sent r c \<Longrightarrow> i \<notin> as_pending s"
  by (auto simp: call_ok_def woken_def split: phase.splits)

lemma set_phase_calls: "as_calls (set_phase j ph s) i = (if j = i then map_option (\<lambda>c. c\<lparr>call_phase := ph\<rparr>) (as_calls s i) else as_calls s i)"
  "as_calls (forget j s) = as_calls s"
  by (simp_all add: set_phase_def forget_def)

lemma woken_step:
  assumes "api_step admin dec s s'" "api_inv admin dec s" "as_calls s i = Some c" "woken sent r c"
  shows "\<exists>c'. as_calls s' i = Some c' \<and> woken sent r c'"
proof -
  have ok: "call_ok admin dec s i c" by (rule api_inv_calls [OF assms(2,3)])
  have quiet: "i \<notin> as_pending s" by (rule woken_not_pending [OF ok assms(4)])
  show ?thesis using assms(1)
  proof cases
    case (submit j t hs rt sub bad)
    then have "as_calls s' i = as_calls s i" using assms(3) by (auto simp: register_def split: option.split)
    then show ?thesis using assms(3,4) by simp
  next
    case (subscriber msg rest)
    then have "as_calls s' i = as_calls s i" using quiet by (auto simp: deliver_def Let_def forget_def)
    then show ?thesis using assms(3,4) by simp
  qed (use assms(3,4) in \<open>auto simp: xadd_logged_def xadd_returned_def await_reply_def after_timeout_def set_phase_calls woken_def
      split: option.splits\<close>)
qed

lemma woken_steps:
  assumes "(api_step admin dec)\<^sup>*\<^sup>* s s'" "api_inv admin dec s" "as_calls s i = Some c" "woken sent r c"
  shows "\<exists>c'. as_calls s' i = Some c' \<and> woken sent r c' \<and> api_inv admin dec s'"
  using assms
proof (induction rule: rtranclp_induct)
  case (step s1 s2)
  then obtain c1 where c1: "as_calls s1 i = Some c1" "woken sent r c1" "api_inv admin dec s1" by blast
  show ?case using woken_step [OF step(2) c1(3,1,2)] api_inv_step [OF step(2) c1(3)] by blast
qed blast

lemma count_list_distinct: "distinct xs \<Longrightarrow> x \<in> set xs \<Longrightarrow> count_list xs x = 1"
  by (induction xs) (auto simp: count_list_0_iff)

section \<open>The promises\<close>

text \<open>C38: only authorised commands reach the engine. Whatever requests arrive and however they interleave, each
  command in the \<open>commands\<close> stream was submitted by a request whose valid token names the command's account
  and whose header carries its idempotency key, only the admin's list or delist a market, and no
  correlation id is logged twice.\<close>

theorem only_authorised_commands:
  assumes "api_reachable admin dec s" "env \<in> set (as_log s)"
  shows "(\<exists>t hs. auth_user (dec t) hs = Inr (env_account_id env) \<and> client_order_id hs = Inr (env_client_order_id env)) \<and>
    (env_account_id env = admin \<or> \<not> admin_only (env_command env)) \<and>
    count_list (map env_correlation_id (as_log s)) (env_correlation_id env) = 1"
proof -
  have inv: "api_inv admin dec s" by (rule api_inv_reachable [OF assms(1)])
  then have once: "logged_once s" by (simp add: api_inv_def)
  then obtain c where "as_calls s (env_correlation_id env) = Some c" "call_env c = env" using assms(2) by (auto simp: logged_once_def)
  then have "authorised admin dec env" using api_inv_calls [OF inv] by (auto simp: call_ok_def)
  then obtain t hs rt where h: "handle_route admin (dec t) hs rt = Inr (env_account_id env, env_client_order_id env, env_command env)"
    by (auto simp: authorised_def)
  have "count_list (map env_correlation_id (as_log s)) (env_correlation_id env) = 1"
    using once assms(2) by (intro count_list_distinct) (simp_all add: logged_once_def)
  then show ?thesis using handle_route_authorised [OF h] by blast
qed

text \<open>C38: a client is told what the engine decided. A call that returns a response returns the one the
  engine gave for this call's command, at its place in the stream, when it ran the stream from the
  start; its waiter is gone from the map.\<close>

theorem answers_are_the_engines:
  assumes "api_reachable admin dec s" "as_calls s i = Some c" "call_phase c = Returned (Inr r)"
  shows "i \<notin> as_pending s \<and> engine_run (as_input s) engine_new = Some (as_engine s, as_outs s) \<and>
    (\<exists>k < length (as_outs s). as_log s ! k = call_env c \<and> fst (as_outs s ! k) = r \<and>
       snd (as_input s ! k) = (env_account_id (call_env c), env_client_order_id (call_env c), env_command (call_env c)))"
proof -
  have inv: "api_inv admin dec s" by (rule api_inv_reachable [OF assms(1)])
  have ok: "call_ok admin dec s i c" by (rule api_inv_calls [OF inv assms(2)])
  then obtain k where k: "k < length (as_outs s)" "env_correlation_id (as_log s ! k) = i" "fst (as_outs s ! k) = r"
    using assms(3) by (auto simp: call_ok_def answered_def)
  have con: "consumed s" "logged_once s" using inv by (simp_all add: api_inv_def)
  have log: "as_log s ! k \<in> set (as_log s)" using k(1) con(1) by (simp add: consumed_def)
  then have env: "as_log s ! k = call_env c" using con(2) k(2) assms(2) by (auto simp: logged_once_def)
  have "map snd (as_input s) ! k = (env_account_id (call_env c), env_client_order_id (call_env c), env_command (call_env c))"
    using con(1) k(1) env by (simp add: consumed_def)
  moreover have "length (as_input s) = length (map snd (as_input s))" by simp
  then have "length (as_input s) = length (as_outs s)" using con(1) by (simp add: consumed_def del: length_map) (metis length_map length_take min.absorb2)
  ultimately have "snd (as_input s ! k) = (env_account_id (call_env c), env_client_order_id (call_env c), env_command (call_env c))"
    using k(1) by simp
  then show ?thesis using ok assms(3) con(1) k env by (auto simp: call_ok_def consumed_def)
qed

text \<open>C40: a reply that is published while its call is in flight is not lost. Once the subscriber has read it
  the call cannot time out and cannot get another answer: it ends with this reply, whenever the handler
  runs again, or, when the reply came before the \<open>XADD\<close> returned, with the error of the \<open>XADD\<close>.\<close>

theorem reply_wakes_its_call:
  assumes "api_reachable admin dec s" "as_calls s i = Some c" "call_phase c \<in> {Registered, Logged, Waiting}" "call_reply c = None"
    and "as_results s = \<lparr>rsp_correlation_id = i, rsp_response = r\<rparr> # rest"
    and "(api_step admin dec)\<^sup>*\<^sup>* (deliver \<lparr>rsp_correlation_id = i, rsp_response = r\<rparr> (s\<lparr>as_results := rest\<rparr>)) s'"
  shows "\<exists>c'. as_calls s' i = Some c' \<and> woken (call_phase c = Waiting) r c' \<and>
    (call_phase c' \<noteq> Waiting \<or> api_step admin dec s' (set_phase i (Returned (Inr r)) s'))"
proof -
  let ?msg = "\<lparr>rsp_correlation_id = i, rsp_response = r\<rparr>" and ?c = "c\<lparr>call_reply := Some r\<rparr>"
  have inv: "api_inv admin dec s" by (rule api_inv_reachable [OF assms(1)])
  have "i \<in> as_pending s" using api_inv_calls [OF inv assms(2)] assms(3,4) by (auto simp: call_ok_def)
  then have c: "as_calls (deliver ?msg (s\<lparr>as_results := rest\<rparr>)) i = Some ?c" using assms(2) by (simp add: deliver_def Let_def)
  have "woken (call_phase c = Waiting) r ?c" using assms(3) by (auto simp: woken_def)
  from woken_steps [OF assms(6) api_inv_deliver [OF inv assms(5)] c this] obtain c' where
    c': "as_calls s' i = Some c'" "woken (call_phase c = Waiting) r c'" by blast
  have "api_step admin dec s' (set_phase i (Returned (Inr r)) s')" if "call_phase c' = Waiting"
    using api_step.await [OF c'(1) that, of admin dec] c'(2) that by (simp add: woken_def await_reply_def)
  then show ?thesis using c' by blast
qed

section \<open>The admin lists a market\<close>

definition admin_dec :: jwt_decode where
  "admin_dec t = Inr \<lparr>cl_sub = 1, cl_exp = 9\<rparr>"

definition admin_headers :: headers where
  "admin_headers = [''authorization'' \<mapsto> Some (''Bearer t''), ''x-client-order-id'' \<mapsto> Some ''0'']"

definition admin_env :: command_envelope where
  "admin_env = \<lparr>env_correlation_id = 5, env_account_id = 1, env_client_order_id = 0, env_command = ListPair sol_usd\<rparr>"

definition demo_waiting :: api_state where
  "demo_waiting = xadd_returned 5 None (xadd_logged 5 admin_env (register 5 (1, 0, ListPair sol_usd) None api_new))"

definition demo_published :: api_state where
  "demo_published = demo_waiting\<lparr>as_engine := demo_e1, as_input := [(sorted_hashing, 1, 0, ListPair sol_usd)], as_outs := [demo_outs ! 0],
     as_results := [\<lparr>rsp_correlation_id = 5, rsp_response = fst (demo_outs ! 0)\<rparr>]\<rparr>"

definition demo_delivered :: api_state where
  "demo_delivered = deliver \<lparr>rsp_correlation_id = 5, rsp_response = fst (demo_outs ! 0)\<rparr> (demo_published\<lparr>as_results := []\<rparr>)"

lemmas demo_api_eval = demo_delivered_def demo_published_def demo_waiting_def register_def xadd_logged_def xadd_returned_def set_phase_def
  envelope_for_def api_new_def admin_env_def deliver_def forget_def Let_def

lemma admin_request: "handle_route 1 admin_dec admin_headers (PostPairs (Inr \<lparr>lpb_pair = sol_usd\<rparr>)) = Inr (1, 0, ListPair sol_usd)"
proof -
  have "auth_user admin_dec admin_headers = Inr 1"
    by (simp add: auth_user_def admin_headers_def strip_prefix_def verify_def admin_dec_def)
  moreover have "parse_u64 (trim_text ''0'') = Some 0"
    by (simp add: trim_text_def is_blank_def parse_u64_def parse_digits_def digit_val_def)
  then have "client_order_id admin_headers = Inr 0" by (simp add: client_order_id_def admin_headers_def)
  ultimately show ?thesis by (simp add: list_pair_handler_def extracted_def require_admin_def)
qed

lemma demo_waiting_reachable: "api_reachable 1 (\<lambda>t. admin_dec) demo_waiting"
proof -
  let ?step = "api_step 1 (\<lambda>t. admin_dec)" and ?s1 = "register 5 (1, 0, ListPair sol_usd) None api_new"
  have "?step api_new ?s1" by (rule api_step.submit [OF _ admin_request]) (simp add: api_new_def)
  moreover have "?step ?s1 (xadd_logged 5 (call_env \<lparr>call_env = admin_env, call_phase = Registered, call_reply = None\<rparr>) ?s1)"
    by (rule api_step.logged) (simp_all add: demo_api_eval)
  then have "?step ?s1 (xadd_logged 5 admin_env ?s1)" by simp
  moreover have "?step (xadd_logged 5 admin_env ?s1) demo_waiting" unfolding demo_waiting_def
    by (rule api_step.xadd_ok [where c = "\<lparr>call_env = admin_env, call_phase = Logged, call_reply = None\<rparr>"]) (simp_all add: demo_api_eval)
  ultimately show ?thesis unfolding api_reachable_def by (meson rtranclp.rtrancl_into_rtrancl rtranclp.rtrancl_refl)
qed

lemma demo_published_reachable: "api_reachable 1 (\<lambda>t. admin_dec) demo_published"
proof -
  obtain r b where rb: "demo_outs ! 0 = (r, b)" by (cases "demo_outs ! 0")
  have "api_step 1 (\<lambda>t. admin_dec) demo_waiting (demo_waiting\<lparr>as_engine := demo_e1,
      as_input := as_input demo_waiting @ [(sorted_hashing, env_account_id admin_env, env_client_order_id admin_env, env_command admin_env)],
      as_outs := as_outs demo_waiting @ [(r, b)],
      as_results := as_results demo_waiting @ [\<lparr>rsp_correlation_id = env_correlation_id admin_env, rsp_response = r\<rparr>]\<rparr>)"
  proof (rule api_step.engine)
    show "drains sorted_hashing" using demo_hashing by (simp add: demo_log_def hashing_ok_def drains_def)
    show "engine_apply sorted_hashing (env_account_id admin_env) (env_client_order_id admin_env) (env_command admin_env) (as_engine demo_waiting)
        = Some (demo_e1, r, b)" using demo_step1 rb by (simp add: demo_api_eval)
  qed (simp_all add: demo_api_eval)
  then have "api_step 1 (\<lambda>t. admin_dec) demo_waiting demo_published" using rb by (simp add: demo_api_eval)
  then show ?thesis using demo_waiting_reachable unfolding api_reachable_def by (rule rtranclp.rtrancl_into_rtrancl [rotated])
qed

theorem only_authorised_commands_witness:
  "env_account_id admin_env = 1 \<and> count_list (map env_correlation_id (as_log demo_waiting)) 5 = 1"
  using only_authorised_commands [OF demo_waiting_reachable, of admin_env] by (simp add: demo_api_eval admin_only_def)

theorem reply_wakes_its_call_witness:
  "\<exists>c'. as_calls demo_delivered 5 = Some c' \<and> woken True (fst (demo_outs ! 0)) c'"
proof -
  have "as_calls demo_published 5 = Some \<lparr>call_env = admin_env, call_phase = Waiting, call_reply = None\<rparr>"
    "as_results demo_published = [\<lparr>rsp_correlation_id = 5, rsp_response = fst (demo_outs ! 0)\<rparr>]" by (simp_all add: demo_api_eval)
  from reply_wakes_its_call [OF demo_published_reachable this(1) _ _ this(2), of demo_delivered] show ?thesis
    by (auto simp: demo_delivered_def)
qed

theorem answers_are_the_engines_witness:
  "5 \<notin> as_pending (set_phase 5 (Returned (Inr (fst (demo_outs ! 0)))) demo_delivered)"
proof -
  let ?s = "set_phase 5 (Returned (Inr (fst (demo_outs ! 0)))) demo_delivered"
  let ?step = "api_step 1 (\<lambda>t. admin_dec)"
  have "?step demo_published demo_delivered" unfolding demo_delivered_def
    by (rule api_step.subscriber) (simp add: demo_published_def)
  moreover have "?step demo_delivered (await_reply 5 (call_reply \<lparr>call_env = admin_env, call_phase = Waiting, call_reply = Some (fst (demo_outs ! 0))\<rparr>) demo_delivered)"
    by (rule api_step.await) (simp_all add: demo_api_eval)
  ultimately have "api_reachable 1 (\<lambda>t. admin_dec) ?s" using demo_published_reachable
    
    unfolding api_reachable_def await_reply_def by simp
  from answers_are_the_engines [OF this, of 5 "\<lparr>call_env = admin_env, call_phase = Returned (Inr (fst (demo_outs ! 0))), call_reply = Some (fst (demo_outs ! 0))\<rparr>"]
  show ?thesis by (simp add: demo_api_eval)
qed

end
