(* ===== verification/Bot.thy ===== *)
theory Bot
  imports Api
begin

text \<open>
  \<open>src/bin/bot.rs\<close>: the demo's market maker, a client of the HTTP API. Everything it does is a sequence of
  requests and the replies to them; the replies, the clock and the random seed are parameters. A write
  request is the headers and the route of the API's model, so that what the bot sends is what the API reads.
\<close>

unbundle bit_operations_syntax

section \<open>Constants\<close>

definition ladder_levels :: nat where
  "ladder_levels = 10"

definition spread :: u64 where
  "spread = 1"

definition topup_every :: u64 where
  "topup_every = 25"

text \<open>In seconds.\<close>

definition reauth_every :: nat where
  "reauth_every = 20 * 60 * 60"

section \<open>Random numbers\<close>

definition rng_next :: "u64 \<Rightarrow> u64" where
  "rng_next x =
     (let x1 = x XOR push_bit 13 x;
          x2 = x1 XOR drop_bit 7 x1
      in x2 XOR push_bit 17 x2)"

definition rng_below :: "u64 \<Rightarrow> u64 \<Rightarrow> u64 \<times> u64" where
  "rng_below n x = (let x' = rng_next x in (x', x' mod max n 1))"

section \<open>Requests and replies\<close>

datatype bot_request =
    SignupReq string string
  | LoginReq string string
  | WriteReq headers route
  | OrdersReq headers
  | BookReq string
  | LastCandleReq string

text \<open>The bodies the bot can read; anything else it could not deserialize.\<close>

datatype reply_body =
    TokenBody string
  | PlacedBody u64
  | OrdersBody "(string \<times> string) list"
  | BookBody "u64 list" "u64 list"
  | CandlesBody "int list"
  | Unreadable

datatype reply = TransportError | Reply nat reply_body

type_synonym replies = "nat \<Rightarrow> reply"

record bot =
  bot_next_cid :: u64
  bot_sent :: "bot_request list"

definition is_success :: "nat \<Rightarrow> bool" where
  "is_success status \<longleftrightarrow> 200 \<le> status \<and> status < 300"

text \<open>The \<open>k\<close>-th request gets the \<open>k\<close>-th reply.\<close>

definition send :: "replies \<Rightarrow> bot_request \<Rightarrow> 'a bot_scheme \<Rightarrow> 'a bot_scheme \<times> reply" where
  "send env rq b = (b\<lparr>bot_sent := bot_sent b @ [rq]\<rparr>, env (length (bot_sent b)))"

fun auth_paths :: "replies \<Rightarrow> bot_request list \<Rightarrow> 'a bot_scheme \<Rightarrow> 'a bot_scheme \<times> string option" where
  "auth_paths env [] b = (b, None)"
| "auth_paths env (rq # rqs) b =
     (case send env rq b of
        (b', TransportError) \<Rightarrow> (b', None)
      | (b', Reply status body) \<Rightarrow>
          if is_success status then (b', case body of TokenBody t \<Rightarrow> Some t | _ \<Rightarrow> None)
          else auth_paths env rqs b')"

definition auth :: "replies \<Rightarrow> string \<Rightarrow> string \<Rightarrow> 'a bot_scheme \<Rightarrow> 'a bot_scheme \<times> string option" where
  "auth env email password = auth_paths env [SignupReq email password, LoginReq email password]"

definition cid :: "'a bot_scheme \<Rightarrow> 'a bot_scheme \<times> u64" where
  "cid b = (b\<lparr>bot_next_cid := bot_next_cid b + 1\<rparr>, bot_next_cid b + 1)"

definition bot_headers :: "string \<Rightarrow> u64 \<Rightarrow> headers" where
  "bot_headers token c = (bearer token)(''x-client-order-id'' \<mapsto> Some (dec_of_nat (unat c)))"

text \<open>\<open>Inl\<close> is a transport error, \<open>Inr None\<close> a rejection.\<close>

definition post :: "replies \<Rightarrow> route \<Rightarrow> string \<Rightarrow> 'a bot_scheme \<Rightarrow> 'a bot_scheme \<times> (unit + reply_body option)" where
  "post env rt token b =
     (case cid b of
        (b1, c) \<Rightarrow>
          (case send env (WriteReq (bot_headers token c) rt) b1 of
             (b2, TransportError) \<Rightarrow> (b2, Inl ())
           | (b2, Reply status body) \<Rightarrow> (b2, Inr (if is_success status then Some body else None))))"

definition bot_deposit :: "replies \<Rightarrow> string \<Rightarrow> currency \<Rightarrow> u64 \<Rightarrow> 'a bot_scheme \<Rightarrow> 'a bot_scheme" where
  "bot_deposit env token c amount b = fst (post env (PostDeposits (Inr \<lparr>dpb_amount = amount, dpb_currency = c\<rparr>)) token b)"

definition order_body :: "pair \<Rightarrow> order_type \<Rightarrow> side \<Rightarrow> u64 \<Rightarrow> u64 \<Rightarrow> place_order_body" where
  "order_body p ty s price sz = \<lparr>pob_pair = p, pob_order_type = ty, pob_side = s, pob_price = price, pob_size = sz\<rparr>"

definition place :: "replies \<Rightarrow> pair \<Rightarrow> string \<Rightarrow> order_type \<Rightarrow> side \<Rightarrow> u64 \<Rightarrow> u64 \<Rightarrow> 'a bot_scheme \<Rightarrow> 'a bot_scheme \<times> u64 option" where
  "place env p token ty s price sz b =
     (case post env (PostOrders (Inr (order_body p ty s price sz))) token b of
        (b', Inr (Some (PlacedBody i))) \<Rightarrow> (b', Some i)
      | (b', _) \<Rightarrow> (b', None))"

definition bot_cancel :: "replies \<Rightarrow> string \<Rightarrow> u64 \<Rightarrow> 'a bot_scheme \<Rightarrow> 'a bot_scheme" where
  "bot_cancel env token i b =
     (case cid b of (b1, c) \<Rightarrow> fst (send env (WriteReq (bot_headers token c) (DeleteOrder (Inr i))) b1))"

definition open_orders :: "replies \<Rightarrow> string \<Rightarrow> 'a bot_scheme \<Rightarrow> 'a bot_scheme \<times> u64 list" where
  "open_orders env token b =
     (case send env (OrdersReq (bearer token)) b of
        (b', Reply _ (OrdersBody rows)) \<Rightarrow>
          (b', List.map_filter (\<lambda>(i, st). parse_u64 i) (filter (\<lambda>(i, st). st = ''open'' \<or> st = ''partially_filled'') rows))
      | (b', _) \<Rightarrow> (b', []))"

definition fetch_book :: "replies \<Rightarrow> pair \<Rightarrow> 'a bot_scheme \<Rightarrow> 'a bot_scheme \<times> (u64 list \<times> u64 list) option" where
  "fetch_book env p b =
     (case send env (BookReq (pair_display p)) b of
        (b', Reply _ (BookBody bps aps)) \<Rightarrow> (b', Some (bps, aps))
      | (b', _) \<Rightarrow> (b', None))"

definition seed_price :: "replies \<Rightarrow> pair \<Rightarrow> 'a bot_scheme \<Rightarrow> 'a bot_scheme \<times> u64 option" where
  "seed_price env p b =
     (case send env (LastCandleReq (pair_display p)) b of
        (b', Reply _ (CandlesBody closes)) \<Rightarrow> (b', if closes = [] then None else Some (word_of_int (last closes)))
      | (b', _) \<Rightarrow> (b', None))"

section \<open>The loop\<close>

record credentials =
  cr_maker_email :: string
  cr_taker_email :: string
  cr_password :: string

record market_maker = bot +
  mm_rng :: u64
  mm_maker :: string
  mm_taker :: string
  mm_last_auth :: nat
  mm_mid :: u64
  mm_resting :: "u64 list"
  mm_ticks :: u64
  mm_trend :: int

text \<open>Both tokens are renewed; the timer is reset only when both renewals worked.\<close>

definition reauth :: "replies \<Rightarrow> credentials \<Rightarrow> nat \<Rightarrow> market_maker \<Rightarrow> market_maker" where
  "reauth env cr now s =
     (if now - mm_last_auth s \<ge> reauth_every
      then (case auth env (cr_maker_email cr) (cr_password cr) s of
              (s1, m) \<Rightarrow>
                (let s2 = (case m of None \<Rightarrow> s1 | Some t \<Rightarrow> s1\<lparr>mm_maker := t\<rparr>)
                 in (case auth env (cr_taker_email cr) (cr_password cr) s2 of
                       (s3, t) \<Rightarrow>
                         (let s4 = (case t of None \<Rightarrow> s3 | Some t \<Rightarrow> s3\<lparr>mm_taker := t\<rparr>)
                          in if m \<noteq> None \<and> t \<noteq> None then s4\<lparr>mm_last_auth := now\<rparr> else s4))))
      else s)"

definition deposit_both :: "replies \<Rightarrow> pair \<Rightarrow> u64 \<Rightarrow> u64 \<Rightarrow> string \<Rightarrow> 'a bot_scheme \<Rightarrow> 'a bot_scheme" where
  "deposit_both env p qa ba token b =
     bot_deposit env token (base p) ba (bot_deposit env token (quote p) qa b)"

definition chunk :: "u64 \<Rightarrow> u64" where
  "chunk ceiling = max (ceiling div 5) 1"

definition topup :: "replies \<Rightarrow> pair \<Rightarrow> market_maker \<Rightarrow> market_maker" where
  "topup env p s =
     (if mm_ticks s mod topup_every = 0
      then (let q = chunk (demo_deposit_ceiling (quote p)); b = chunk (demo_deposit_ceiling (base p)); taker = mm_taker s
            in deposit_both env p q b taker (deposit_both env p q b (mm_maker s) s))
      else s)"

definition refresh_mid :: "replies \<Rightarrow> pair \<Rightarrow> market_maker \<Rightarrow> market_maker" where
  "refresh_mid env p s =
     (case fetch_book env p s of
        (s', Some (bps, aps)) \<Rightarrow>
          if bps \<noteq> [] \<and> aps \<noteq> [] then s'\<lparr>mm_mid := (Max (set bps) + Min (set aps)) div 2\<rparr> else s'
      | (s', None) \<Rightarrow> s')"

definition roll_trend :: "market_maker \<Rightarrow> market_maker" where
  "roll_trend s =
     (case rng_below 6 (mm_rng s) of
        (r, x) \<Rightarrow>
          if x = 0
          then (case rng_below 3 r of
                  (r', y) \<Rightarrow> s\<lparr>mm_rng := r', mm_trend := (if y = 0 then -1 else if y = 1 then 1 else 0)\<rparr>)
          else s\<lparr>mm_rng := r\<rparr>)"

definition clamp_mid :: "u64 \<Rightarrow> u64" where
  "clamp_mid m = (if m < 60 then 60 else if m > 160 then 160 else m)"

definition walk :: "market_maker \<Rightarrow> market_maker" where
  "walk s =
     (let up_chance = word_of_int (2 + mm_trend s) :: u64; m = mm_mid s
      in case rng_below 6 (mm_rng s) of
           (r, roll) \<Rightarrow>
             s\<lparr>mm_rng := r,
               mm_mid := clamp_mid (if roll < up_chance then m + 1 else if roll < 4 then saturating_sub m 1 else m)\<rparr>)"

definition push_placed :: "market_maker \<times> u64 option \<Rightarrow> market_maker" where
  "push_placed = (\<lambda>(s, placed). case placed of None \<Rightarrow> s | Some i \<Rightarrow> s\<lparr>mm_resting := mm_resting s @ [i]\<rparr>)"

definition random_size :: "u64 \<Rightarrow> market_maker \<Rightarrow> market_maker \<times> u64" where
  "random_size n s = (case rng_below n (mm_rng s) of (r, x) \<Rightarrow> (s\<lparr>mm_rng := r\<rparr>, 1 + x))"

definition quote_side :: "replies \<Rightarrow> pair \<Rightarrow> side \<Rightarrow> u64 \<Rightarrow> market_maker \<Rightarrow> market_maker" where
  "quote_side env p side price s =
     (case random_size 5 s of (s1, sz) \<Rightarrow> push_placed (place env p (mm_maker s1) Limit side price sz s1))"

definition bid_price :: "u64 \<Rightarrow> nat \<Rightarrow> u64" where
  "bid_price mid i = saturating_sub mid (spread + of_nat i)"

definition ask_price :: "u64 \<Rightarrow> nat \<Rightarrow> u64" where
  "ask_price mid i = mid + spread + of_nat i"

definition quote_level :: "replies \<Rightarrow> pair \<Rightarrow> nat \<Rightarrow> market_maker \<Rightarrow> market_maker" where
  "quote_level env p i s =
     quote_side env p Ask (ask_price (mm_mid s) i) (quote_side env p Bid (bid_price (mm_mid s) i) s)"

text \<open>The new quotes first, then the old ones are pulled.\<close>

definition requote :: "replies \<Rightarrow> pair \<Rightarrow> market_maker \<Rightarrow> market_maker" where
  "requote env p s =
     (let previous = mm_resting s;
          s1 = fold (quote_level env p) [0..<ladder_levels] (s\<lparr>mm_resting := []\<rparr>)
      in fold (bot_cancel env (mm_maker s)) previous s1)"

definition taker_print :: "replies \<Rightarrow> pair \<Rightarrow> market_maker \<Rightarrow> market_maker" where
  "taker_print env p s =
     (let bid_chance = word_of_int (50 + mm_trend s * 25) :: u64
      in case rng_below 100 (mm_rng s) of
           (r, x) \<Rightarrow>
             (case random_size 3 (s\<lparr>mm_rng := r\<rparr>) of
                (s1, sz) \<Rightarrow> fst (place env p (mm_taker s1) Market (if x < bid_chance then Bid else Ask) 0 sz s1)))"

definition taker_prints :: "replies \<Rightarrow> pair \<Rightarrow> market_maker \<Rightarrow> market_maker" where
  "taker_prints env p s =
     (case rng_below 4 (mm_rng s) of
        (r, x) \<Rightarrow> (taker_print env p ^^ unat (2 + x)) (s\<lparr>mm_rng := r\<rparr>))"

definition bot_tick :: "replies \<Rightarrow> credentials \<Rightarrow> pair \<Rightarrow> nat \<Rightarrow> market_maker \<Rightarrow> market_maker" where
  "bot_tick env cr p now s =
     (let s1 = reauth env cr now (s\<lparr>mm_ticks := mm_ticks s + 1\<rparr>);
          s2 = refresh_mid env p (topup env p s1);
          s3 = walk (roll_trend s2)
      in taker_prints env p (requote env p s3))"

section \<open>Startup\<close>

text \<open>Waiting for the API may take forever: \<open>fuel\<close> bounds the attempts.\<close>

fun wait_auth :: "nat \<Rightarrow> replies \<Rightarrow> string \<Rightarrow> string \<Rightarrow> 'a bot_scheme \<Rightarrow> ('a bot_scheme \<times> string) option" where
  "wait_auth 0 env email password b = None"
| "wait_auth (Suc fuel) env email password b =
     (case auth env email password b of
        (b', Some token) \<Rightarrow> Some (b', token)
      | (b', None) \<Rightarrow> wait_auth fuel env email password b')"

definition clear_stale :: "replies \<Rightarrow> pair \<Rightarrow> string \<Rightarrow> 'a bot_scheme \<Rightarrow> 'a bot_scheme" where
  "clear_stale env p token b =
     (case open_orders env token
             (deposit_both env p (demo_deposit_ceiling (quote p)) (demo_deposit_ceiling (base p)) token b) of
        (b', stale) \<Rightarrow> fold (bot_cancel env token) stale b')"

definition bot_new :: "u64 \<Rightarrow> bot" where
  "bot_new now_ms = \<lparr>bot_next_cid = now_ms, bot_sent = []\<rparr>"

text \<open>\<open>None\<close>: still waiting, or the process ended with an error.\<close>

definition startup :: "nat \<Rightarrow> replies \<Rightarrow> credentials \<Rightarrow> pair \<Rightarrow> u64 \<Rightarrow> nat \<Rightarrow> market_maker option" where
  "startup fuel env cr p now_ms now =
     (case wait_auth fuel env (cr_maker_email cr) (cr_password cr) (bot_new now_ms) of
        None \<Rightarrow> None
      | Some (b1, maker) \<Rightarrow>
          (case auth env (cr_taker_email cr) (cr_password cr) b1 of
             (b2, None) \<Rightarrow> None
           | (b2, Some taker) \<Rightarrow>
               (case post env (PostPairs (Inr \<lparr>lpb_pair = p\<rparr>)) maker b2 of
                  (b3, Inl _) \<Rightarrow> None
                | (b3, Inr _) \<Rightarrow>
                    (case seed_price env p (clear_stale env p taker (clear_stale env p maker b3)) of
                       (b4, px) \<Rightarrow>
                         Some (bot.extend b4 (market_maker.fields (now_ms OR 1) maker taker now
                           (case px of None \<Rightarrow> 100 | Some m \<Rightarrow> m) [] 0 0))))))"

definition bot_run :: "replies \<Rightarrow> credentials \<Rightarrow> pair \<Rightarrow> nat list \<Rightarrow> market_maker \<Rightarrow> market_maker" where
  "bot_run env cr p = fold (bot_tick env cr p)"

section \<open>The generator\<close>

lemma xor_push_zero:
  assumes "x XOR push_bit n x = (0 :: u64)" "0 < n"
  shows "x = 0"
proof (rule bit_word_eqI)
  have same: "bit x k \<longleftrightarrow> bit (push_bit (n) x) k" for k
    using arg_cong [OF assms(1), of "\<lambda>y. bit y k"] by (simp add: bit_xor_iff)
  fix k
  assume "k < LENGTH(64)"
  then have "\<not> bit x k"
  proof (induction k rule: less_induct)
    case (less k)
    show ?case
    proof (cases "n \<le> k")
      case True
      then have "\<not> bit x (k - n)" using less assms(2) by simp
      then show ?thesis using same [of k] by (simp add: bit_push_bit_iff)
    qed (use same [of k] in \<open>simp add: bit_push_bit_iff\<close>)
  qed
  then show "bit x k \<longleftrightarrow> bit 0 k" by simp
qed

lemma xor_drop_zero:
  assumes "x XOR drop_bit n x = (0 :: u64)" "0 < n"
  shows "x = 0"
proof (rule bit_word_eqI)
  have same: "bit x k \<longleftrightarrow> bit x (n + k)" for k
    using arg_cong [OF assms(1), of "\<lambda>y. bit y k"] by (simp add: bit_xor_iff bit_drop_bit_eq)
  have "\<not> bit x k" for k
  proof (induction "64 - k" arbitrary: k rule: less_induct)
    case less
    show ?case
    proof (cases "k < 64")
      case True
      then show ?thesis using less [of "n + k"] same [of k] assms(2) by simp
    qed (use bit_imp_le_length [of x k] in auto)
  qed
  then show "bit x k \<longleftrightarrow> bit 0 k" for k by simp
qed

lemma rng_next_nonzero:
  assumes "x \<noteq> 0"
  shows "rng_next x \<noteq> 0"
proof -
  define y where "y = x XOR push_bit 13 x"
  define z where "z = y XOR drop_bit 7 y"
  have "y \<noteq> 0" using xor_push_zero [of x 13] assms by (auto simp: y_def)
  then have "z \<noteq> 0" using xor_drop_zero [of y 7] by (auto simp: z_def)
  then have "z XOR push_bit 17 z \<noteq> 0" using xor_push_zero [of z 17] by auto
  then show ?thesis unfolding rng_next_def Let_def y_def z_def .
qed

lemma rng_below_less: "n \<noteq> 0 \<Longrightarrow> snd (rng_below n x) < n"
  by (simp add: rng_below_def Let_def max_def) (metis word_mod_less_divisor word_neq_0_conv word_le_less_eq word_less_1)

end
