(* ===== verification/Bot_Quotes.thy ===== *)
theory Bot_Quotes
  imports Bot Book_Projection
begin

text \<open>
  The market maker against the engine: what a tick of \<open>src/bin/bot.rs\<close> sends is read by the API as
  orders of the maker, and the engine accepts every one of them and rests it, as long as the market is
  where the maker thinks it is.
\<close>

section \<open>An order that meets nobody\<close>

lemma level_unmatched:
  assumes "\<forall>(p, q) \<in> set ls. \<not> c p"
  shows "level_fills c r ls = []" "level_rest c r ls = ls"
proof -
  have "level_fills c r ls = [] \<and> level_rest c r ls = ls" using assms by (cases ls) auto
  then show "level_fills c r ls = []" "level_rest c r ls = ls" by simp_all
qed

text \<open>No resting order of the other side is at a price the request accepts.\<close>

definition unmatched :: "order_request \<Rightarrow> order_book \<Rightarrow> bool" where
  "unmatched req b \<longleftrightarrow> req_type req = Limit \<and> req_size req \<noteq> 0 \<and>
     (\<forall>m \<in> set (resting b). ord_side m \<noteq> req_side req \<longrightarrow> \<not> crosses Limit (req_side req) (req_price req) (ord_price m))"

lemma unmatched_book:
  assumes "book_inv b" "unmatched req b"
  shows "order_fills req b = []" "order_left req b = req_size req"
    "mset (resting (book_after i a req b)) = add_mset (taker_order i a req) (mset (resting b))"
    "last_trade_price (book_after i a req b) = last_trade_price b"
proof -
  let ?s = "req_side req"
  have ty: "req_type req = Limit" "req_size req \<noteq> 0" using assms(2) by (simp_all add: unmatched_def)
  have "\<not> crosses Limit ?s (req_price req) p" if pq: "(p, q) \<in> set (best_first ?s b)" for p q
  proof -
    have "(p, q) \<in> set (side_levels (other_side ?s) b)" using pq by (cases ?s) (auto simp: best_first_def)
    then have q: "q \<noteq> []" "\<forall>m \<in> set q. ord_side m = other_side ?s \<and> ord_price m = p"
      using book_inv_side [OF assms(1), of "other_side ?s"] by (auto simp: levels_inv_def level_ok_def)
    then obtain m where m: "m \<in> set q" by (cases q) auto
    have "m \<in> set (level_orders (side_levels (other_side ?s) b))"
      using m \<open>(p, q) \<in> set (side_levels (other_side ?s) b)\<close> by (auto simp: set_level_orders)
    then have "m \<in> set (resting b)" using set_resting [of b ?s] by simp
    then show ?thesis using assms(2) q(2) m by (auto simp: unmatched_def)
  qed
  then have no: "\<forall>(p, q) \<in> set (best_first ?s b). \<not> crosses (req_type req) ?s (req_price req) p" using ty by auto
  note lp = level_unmatched [OF no]
  show fills: "order_fills req b = []" by (simp add: order_fills_def lp)
  have rest: "order_rest req b = best_first ?s b" by (simp add: order_rest_def lp)
  show left: "order_left req b = req_size req" using mb.fills_total [of req b] by (simp add: fills word_unat_eq_iff)
  have "rests req b" using ty by (simp add: rests_def left word_neq_0_conv)
  then show "mset (resting (book_after i a req b)) = add_mset (taker_order i a req) (mset (resting b))"
    using mset_resting_after [OF assms(1), of i a req] mset_resting [of b ?s] mset_best_first [of ?s b]
    by (simp add: rest taker_after_def left taker_order_def)
  show "last_trade_price (book_after i a req b) = last_trade_price b"
    by (simp add: book_after_def index_rested_def rest_order_def fills book_after_fills_def last_price_def ty split: side.split)
qed

definition due :: "order_request \<Rightarrow> nat" where
  "due req = (case req_side req of Bid \<Rightarrow> unat (req_price req) * unat (req_size req) | Ask \<Rightarrow> unat (req_size req))"

text \<open>Such an order is accepted when the guards let it pass and the account can pay; it rests behind
  everything that rested before.\<close>

lemma unmatched_order:
  assumes inv: "engine_inv e" "funded e" "unat (next_order_id e) + 1 < 2 ^ 64"
    and guard: "place_guard a req e = None" and un: "unmatched req (book_for e (req_pair req))"
    and pays: "unat (req_price req) * unat (req_size req) < 2 ^ 64" "due req \<le> avail (eng_ledger e) a (pay_currency (req_pair req) (req_side req))"
  obtains e' mr where "place_order d a req e = Some (e', Inr mr)" "mr_trades mr = []" "engine_inv e'" "funded e'"
    "next_order_id e' = next_order_id e + 1" "listed_pairs e' = listed_pairs e" "eng_limits e' = eng_limits e"
    "mset (resting (book_for e' (req_pair req))) =
       add_mset (taker_order (next_order_id e) a req) (mset (resting (book_for e (req_pair req))))"
    "last_trade_price (book_for e' (req_pair req)) = last_trade_price (book_for e (req_pair req))"
    "\<And>c. avail (eng_ledger e') a c + (if c = pay_currency (req_pair req) (req_side req) then due req else 0) = avail (eng_ledger e) a c"
proof -
  let ?p = "req_pair req" and ?b = "book_for e (req_pair req)"
  have ok: "books_ok e" "backed e" using inv(1) by (simp_all add: engine_inv_def)
  note b = book_for_ok(1) [OF ok(1), of ?p]
  note bk = unmatched_book [OF b un]
  have ty: "req_type req = Limit" using un by (simp add: unmatched_def)
  have need: "to_reserve a req e = due req" using ty by (cases "req_side req") (simp_all add: to_reserve_def due_def)
  have "verdict a req e = None" using guard pays ty by (simp add: verdict_def notional_def need)
  then obtain e' where placed: "place_order d a req e = Some (e', Inr (snd (matched d a req e)))"
    using place_order_verdict [OF ok inv(2), of d a req] by auto
  have trades: "mr_trades (snd (matched d a req e)) = []" by (simp add: matched_eq(2) bk(1))
  have acc: "place_accepted d a req e e'" by (rule accepted_facts(1) [OF inv(1,2) placed])
  then obtain l where l: "e' = after_match d a req e l" "total_supply l = total_supply (eng_ledger e)"
    and av: "\<forall>x c. avail l x c + (if x = a \<and> c = pay_currency ?p (req_side req) then mb.needed req ?b else 0) = avail (eng_ledger e) x c +
       credits ?p (mr_trades (snd (matched d a req e))) x c + (if x = a \<and> c = pay_currency ?p (req_side req) then mb.excess req ?b else 0)"
    unfolding place_accepted_def Let_def by blast
  have "engine_inv e'" by (rule place_order_kept [OF inv, of d a req]) (use placed in \<open>simp add: kept_by_def\<close>)
  moreover have "funded e'" using inv(2) l(2) by (simp add: funded_def l(1) after_match_def)
  moreover have "next_order_id e' = next_order_id e + 1 \<and> listed_pairs e' = listed_pairs e \<and> eng_limits e' = eng_limits e"
    by (simp add: l(1) after_match_def)
  moreover have "book_for e' ?p = (book_after (next_order_id e) a req ?b)\<lparr>dirty_levels := {}\<rparr>"
    by (simp add: l(1) book_for_after_match matched_def add_order_eq)
  ultimately have kept: "engine_inv e'" "funded e'" "next_order_id e' = next_order_id e + 1" "listed_pairs e' = listed_pairs e"
    "eng_limits e' = eng_limits e" "book_for e' ?p = (book_after (next_order_id e) a req ?b)\<lparr>dirty_levels := {}\<rparr>" by simp_all
  have "mb.needed req ?b = due req" using need by (simp add: to_reserve_eq)
  moreover have "mb.excess req ?b = 0"
    using ty bk(1,2) by (cases "req_side req") (simp_all add: mb.excess_def mb.improvement_def)
  moreover have "credits ?p [] a c = 0" for c by (simp add: credits_def)
  ultimately have "avail (eng_ledger e') a c + (if c = pay_currency ?p (req_side req) then due req else 0) = avail (eng_ledger e) a c" for c
    using av [rule_format, of a c] by (simp add: trades l(1) after_match_def split: if_splits)
  with kept bk(3,4) show thesis by (intro that [OF placed trades]) simp_all
qed

section \<open>The ladder\<close>

text \<open>A market that is where the maker thinks: nobody bids above the mid or asks below it, and the last trade
  was at most one tick below and two above it.\<close>

definition quiet_at :: "u64 \<Rightarrow> order_book \<Rightarrow> bool" where
  "quiet_at mid b \<longleftrightarrow>
     (\<forall>m \<in> set (resting b). case ord_side m of Bid \<Rightarrow> ord_price m \<le> mid | Ask \<Rightarrow> mid \<le> ord_price m) \<and>
     (case last_trade_price b of None \<Rightarrow> True | Some px \<Rightarrow> unat mid \<le> unat px + 1 \<and> unat px \<le> unat mid + 2)"

definition quote_of :: "pair \<Rightarrow> u64 \<Rightarrow> order_request \<Rightarrow> bool" where
  "quote_of p mid req \<longleftrightarrow> req_pair req = p \<and> req_type req = Limit \<and> 0 < req_size req \<and> req_size req \<le> 5 \<and>
     (\<exists>i < ladder_levels. req_price req = (case req_side req of Bid \<Rightarrow> bid_price mid i | Ask \<Rightarrow> ask_price mid i))"

lemma ladder_prices:
  assumes "60 \<le> mid" "mid \<le> 160" "i < ladder_levels"
  shows "unat (bid_price mid i) = unat mid - 1 - i" "unat (ask_price mid i) = unat mid + 1 + i" "60 \<le> unat mid" "unat mid \<le> 160"
proof -
  have m: "60 \<le> unat mid" "unat mid \<le> 160" using assms(1,2) by (simp_all add: word_le_nat_alt)
  then show "60 \<le> unat mid" "unat mid \<le> 160" by simp_all
  have one: "unat (1 + of_nat i :: u64) = 1 + i" using assms(3) by (simp add: ladder_levels_def unat_word_ariths unat_of_nat)
  then show "unat (bid_price mid i) = unat mid - 1 - i" by (simp add: bid_price_def spread_def unat_saturating_sub)
  have "unat (mid + (1 + of_nat i)) = unat mid + (1 + i)" using one m assms(3) by (simp add: unat_word_ariths ladder_levels_def)
  then show "unat (ask_price mid i) = unat mid + 1 + i" by (simp add: ask_price_def spread_def add.assoc)
qed

lemma quote_facts:
  assumes "60 \<le> mid" "mid \<le> 160" "quote_of p mid req"
  shows "req_side req = Bid \<Longrightarrow> unat mid - 10 \<le> unat (req_price req) \<and> unat (req_price req) < unat mid"
    "req_side req = Ask \<Longrightarrow> unat mid < unat (req_price req) \<and> unat (req_price req) \<le> unat mid + 10"
    "unat (req_size req) \<le> 5" "unat (req_price req) * unat (req_size req) < 2 ^ 64"
    "due req \<le> (case req_side req of Bid \<Rightarrow> 800 | Ask \<Rightarrow> 5)"
proof -
  obtain i where i: "i < ladder_levels" "req_price req = (case req_side req of Bid \<Rightarrow> bid_price mid i | Ask \<Rightarrow> ask_price mid i)"
    using assms(3) by (auto simp: quote_of_def)
  note lp = ladder_prices [OF assms(1,2) i(1)]
  show b: "unat mid - 10 \<le> unat (req_price req) \<and> unat (req_price req) < unat mid" if "req_side req = Bid"
    using lp i that by (simp add: ladder_levels_def)
  show a: "unat mid < unat (req_price req) \<and> unat (req_price req) \<le> unat mid + 10" if "req_side req = Ask"
    using lp i that by (simp add: ladder_levels_def)
  show sz: "unat (req_size req) \<le> 5" using assms(3) by (simp add: quote_of_def word_le_nat_alt)
  have "unat (req_price req) \<le> 170" using a b lp(4) by (cases "req_side req") auto
  then have "unat (req_price req) * unat (req_size req) \<le> 170 * 5" using sz by (intro mult_le_mono)
  then show "unat (req_price req) * unat (req_size req) < 2 ^ 64" by simp
  show "due req \<le> (case req_side req of Bid \<Rightarrow> 800 | Ask \<Rightarrow> 5)"
  proof (cases "req_side req")
    case Bid
    then have "unat (req_price req) * unat (req_size req) \<le> 160 * 5" using b sz lp(4) by (intro mult_le_mono) auto
    then show ?thesis by (simp add: due_def Bid)
  qed (use sz in \<open>simp add: due_def\<close>)
qed

lemma quote_in_band:
  assumes "60 \<le> mid" "mid \<le> 160" "quote_of p mid req" "unat mid \<le> unat px + 1" "unat px \<le> unat mid + 2"
  shows "\<not> (case price_band px 2000 of (low, high) \<Rightarrow> req_price req < low \<or> req_price req > high)"
proof -
  note q = quote_facts [OF assms(1-3)]
  have m: "60 \<le> unat mid" "unat mid \<le> 160" using assms(1,2) by (simp_all add: word_le_nat_alt)
  let ?px = "unat px"
  have px: "59 \<le> ?px" "?px \<le> 162" using m assms(4,5) by simp_all
  have "?px * 2000 div 10000 = ?px div 5" using div_mult_mult2 [of 2000 ?px 5] by simp
  then have d: "unat (max (saturating_mul px 2000 div 10000) 1) = ?px div 5"
    unfolding unat_max_u64 unat_div_u64 unat_saturating_mul using px by (simp add: min_def max_def)
  obtain low high where lh: "price_band px 2000 = (low, high)" "unat low = ?px - ?px div 5" "unat high = ?px + ?px div 5"
    using d px by (simp add: price_band_def Let_def unat_saturating_sub unat_saturating_add)
  have "?px - k \<le> x - 10 \<and> x + 10 \<le> ?px + k" if "60 \<le> x" "x \<le> ?px + 1" "?px \<le> x + 2" "5 * k \<le> ?px" "?px < 5 * k + 5" for x k :: nat
    using that by arith
  from this [of "unat mid" "?px div 5"] have "?px - ?px div 5 \<le> unat mid - 10" "unat mid + 10 \<le> ?px + ?px div 5"
    using m assms(4,5) by simp_all
  then have "unat low \<le> unat mid - 10" "unat mid + 10 \<le> unat high" by (simp_all add: lh)
  then show ?thesis using q(1,2) by (cases "req_side req") (auto simp: lh(1) word_less_nat_alt)
qed

lemma quote_unmatched:
  assumes "60 \<le> mid" "mid \<le> 160" "quote_of p mid req" "quiet_at mid b"
  shows "unmatched req b"
proof -
  note q = quote_facts [OF assms(1-3)]
  have "\<not> crosses Limit (req_side req) (req_price req) (ord_price m)" if "m \<in> set (resting b)" "ord_side m \<noteq> req_side req" for m
    using q(1,2) that assms(4) by (cases "req_side req"; cases "ord_side m") (auto simp: quiet_at_def crosses_def word_le_nat_alt)
  then show ?thesis using assms(3) by (auto simp: unmatched_def quote_of_def)
qed

lemma quote_guard:
  assumes "60 \<le> mid" "mid \<le> 160" "quote_of p mid req" "quiet_at mid (book_for e p)" "books_ok e"
    and "p \<in> listed_pairs e" "is_valid p" "eng_limits e = limits_default"
  shows "place_guard a req e = None"
proof -
  have req: "req_pair req = p" "req_size req \<noteq> 0" "req_type req = Limit" using assms(3) by (auto simp: quote_of_def)
  have "order_fills req (book_for e p) = []"
    by (rule unmatched_book(1) [OF book_for_ok(1) [OF assms(5)] quote_unmatched [OF assms(1-4)]])
  then have "\<not> would_self_trade a req (book_for e p)" by (simp add: would_self_trade_eq [OF req(2)])
  moreover have "\<not> out_of_band limits_default req (book_for e p)"
    using quote_in_band [OF assms(1-3)] assms(4)
    by (auto simp: out_of_band_def limits_default_def req(3) quiet_at_def split: option.splits)
  ultimately show ?thesis using assms(6-8)
    by (auto simp: place_guard_def req(1) book_for_def limits_default_def split: option.split)
qed

text \<open>Orders placed one after another, each accepted without a trade.\<close>

fun rest_all :: "level_key drain \<Rightarrow> account_id \<Rightarrow> order_request list \<Rightarrow> engine \<Rightarrow> engine option" where
  "rest_all d a [] e = Some e"
| "rest_all d a (req # reqs) e =
     (case place_order d a req e of
        Some (e', Inr mr) \<Rightarrow> if mr_trades mr = [] then rest_all d a reqs e' else None
      | _ \<Rightarrow> None)"

definition quotable :: "pair \<Rightarrow> u64 \<Rightarrow> engine \<Rightarrow> bool" where
  "quotable p mid e \<longleftrightarrow> engine_inv e \<and> funded e \<and> p \<in> listed_pairs e \<and> is_valid p \<and> eng_limits e = limits_default \<and>
     quiet_at mid (book_for e p)"

lemma rest_all_quotes:
  assumes "60 \<le> mid" "mid \<le> 160" "\<forall>req \<in> set reqs. quote_of p mid req" "quotable p mid e"
    and "unat (next_order_id e) + length reqs < 2 ^ 64" "800 * length reqs \<le> avail (eng_ledger e) a (quote p)" "5 * length reqs \<le> avail (eng_ledger e) a (base p)"
  shows "\<exists>e'. rest_all d a reqs e = Some e' \<and> quotable p mid e' \<and>
    mset (resting (book_for e' p)) = mset (resting (book_for e p)) +
      mset (map (\<lambda>(k, req). taker_order (next_order_id e + of_nat k) a req) (List.enumerate 0 reqs))"
  using assms(3-7)
proof (induction reqs arbitrary: e)
  case (Cons req reqs)
  have q: "quote_of p mid req" and p: "req_pair req = p" using Cons.prems(1) by (auto simp: quote_of_def)
  have e: "engine_inv e" "funded e" "p \<in> listed_pairs e" "is_valid p" "eng_limits e = limits_default" "quiet_at mid (book_for e p)"
    using Cons.prems(2) by (simp_all add: quotable_def)
  have ok: "books_ok e" using e(1) by (simp add: engine_inv_def)
  note qf = quote_facts [OF assms(1,2) q]
  note guard = quote_guard [OF assms(1,2) q e(6) ok e(3-5), of a]
  have pays: "due req \<le> avail (eng_ledger e) a (pay_currency (req_pair req) (req_side req))"
    using qf(5) Cons.prems(4,5) p by (cases "req_side req") (simp_all add: pay_currency_def)
  have room: "unat (next_order_id e) + 1 < 2 ^ 64" using Cons.prems(3) by simp
  obtain e1 mr where s: "place_order d a req e = Some (e1, Inr mr)" "mr_trades mr = []" "engine_inv e1" "funded e1"
    "next_order_id e1 = next_order_id e + 1" "listed_pairs e1 = listed_pairs e" "eng_limits e1 = eng_limits e"
    "mset (resting (book_for e1 p)) = add_mset (taker_order (next_order_id e) a req) (mset (resting (book_for e p)))"
    "last_trade_price (book_for e1 p) = last_trade_price (book_for e p)"
    "\<And>c. avail (eng_ledger e1) a c + (if c = pay_currency p (req_side req) then due req else 0) = avail (eng_ledger e) a c"
    using unmatched_order [OF e(1,2) room guard quote_unmatched [OF assms(1,2) q, folded p] qf(4) pays] e(6) unfolding p by blast
  have "set (resting (book_for e1 p)) = insert (taker_order (next_order_id e) a req) (set (resting (book_for e p)))"
    using s(8) by (metis set_mset_add_mset_insert set_mset_mset)
  then have "quiet_at mid (book_for e1 p)" using e(6) qf(1,2)
    by (auto simp: quiet_at_def s(9) taker_order_def word_le_nat_alt split: side.split)
  then have q1: "quotable p mid e1" using s(3,4,6,7) e by (simp add: quotable_def)
  have id1: "unat (next_order_id e1) = unat (next_order_id e) + 1" using room by (simp add: s(5) unat_add_exact)
  have "base p \<noteq> quote p" using e(4) by (simp add: is_valid_def)
  then have "800 * length reqs \<le> avail (eng_ledger e1) a (quote p)" "5 * length reqs \<le> avail (eng_ledger e1) a (base p)"
    using s(10) [of "quote p"] s(10) [of "base p"] qf(5) Cons.prems(4,5)
    by (cases "req_side req"; auto simp: pay_currency_def split: if_splits)+
  then obtain e2 where "rest_all d a reqs e1 = Some e2" "quotable p mid e2"
    "mset (resting (book_for e2 p)) = mset (resting (book_for e1 p)) +
      mset (map (\<lambda>(k, req). taker_order (next_order_id e1 + of_nat k) a req) (List.enumerate 0 reqs))"
    using Cons.IH [of e1] Cons.prems(1,3) q1 id1 by auto
  moreover have "map (\<lambda>(k, req). taker_order (next_order_id e1 + of_nat k) a req) (List.enumerate 0 reqs) =
      map (\<lambda>(k, req). taker_order (next_order_id e + of_nat k) a req) (List.enumerate 1 reqs)"
    by (rule nth_equalityI) (simp_all add: nth_enumerate_eq s(5) add.assoc)
  ultimately show ?case using s(1,2,8) by simp
qed simp

section \<open>What the API reads of the bot's requests\<close>

lemma trim_digits: "trim_text (dec_of_nat n) = dec_of_nat n"
proof -
  have no: "\<not> is_blank c" if mem: "c \<in> set (dec_of_nat n)" for c
  proof -
    obtain k where k: "k < 10" "c = digit k" using subsetD [OF dec_of_nat_digits mem] by auto
    then have "(of_char c :: nat) = 48 + k" by (simp add: of_char_digit)
    then show ?thesis by (auto simp: is_blank_def)
  qed
  have drop: "dropWhile is_blank xs = xs" if "\<And>c. c \<in> set xs \<Longrightarrow> \<not> is_blank c" for xs
    using that by (cases xs) auto
  show ?thesis using drop [of "dec_of_nat n"] drop [of "rev (dec_of_nat n)"] no by (simp add: trim_text_def)
qed

lemma bot_headers_read:
  "auth_user dec (bot_headers token c) = auth_user dec (bearer token)" "client_order_id (bot_headers token c) = Inr c"
  by (simp_all add: bot_headers_def auth_user_def client_order_id_def trim_digits)

text \<open>The commands the API makes of a list of requests.\<close>

definition submissions :: "account_id \<Rightarrow> jwt_decode \<Rightarrow> bot_request list \<Rightarrow> submission list" where
  "submissions admin dec rqs =
     List.map_filter (\<lambda>rq. case rq of
        WriteReq hs rt \<Rightarrow> (case handle_route admin dec hs rt of Inl _ \<Rightarrow> None | Inr sub \<Rightarrow> Some sub)
      | _ \<Rightarrow> None) rqs"

lemma submissions_append [simp]: "submissions admin dec (xs @ ys) = submissions admin dec xs @ submissions admin dec ys"
  by (induction xs) (simp_all add: submissions_def map_filter_simps split: option.split)

lemma submissions_Nil [simp]: "submissions admin dec [] = []"
  by (simp add: submissions_def map_filter_simps)

lemma submission_order:
  assumes "auth_user dec (bearer token) = Inr a"
  shows "submissions admin dec [WriteReq (bot_headers token c) (PostOrders (Inr (order_body p ty s price sz)))] =
    [(a, c, Place \<lparr>req_pair = p, req_type = ty, req_side = s, req_price = price, req_size = sz\<rparr>)]"
  using assms by (simp add: submissions_def map_filter_simps place_order_handler_def extracted_def bot_headers_read order_body_def)

text \<open>A function of the bot that only appends requests, stamping every write with the next id, and leaves the
  maker's token and the mid alone.\<close>

definition sends :: "market_maker \<Rightarrow> bot_request list \<Rightarrow> u64 \<Rightarrow> market_maker \<Rightarrow> bool" where
  "sends s rqs c s' \<longleftrightarrow> bot_sent s' = bot_sent s @ rqs \<and> bot_next_cid s' = bot_next_cid s + c \<and>
     mm_mid s' = mm_mid s \<and> mm_maker s' = mm_maker s"

lemma place_sends:
  "bot_sent (fst (place env p token ty sd price sz s)) = bot_sent s @
     [WriteReq (bot_headers token (bot_next_cid s + 1)) (PostOrders (Inr (order_body p ty sd price sz)))]"
  "bot_next_cid (fst (place env p token ty sd price sz s)) = bot_next_cid s + 1"
  "bot.more (fst (place env p token ty sd price sz s)) = bot.more s"
  by (simp_all add: place_def post_def cid_def send_def split: reply.split sum.split option.split reply_body.split)

lemma more_fields: "bot.more s' = bot.more s \<Longrightarrow> mm_mid s' = mm_mid s \<and> mm_maker s' = mm_maker s \<and> mm_rng s' = mm_rng s"
  by (cases s; cases s') simp

lemma quote_side_sends:
  "\<exists>sz. 0 < sz \<and> sz \<le> 5 \<and> sends s [WriteReq (bot_headers (mm_maker s) (bot_next_cid s + 1))
     (PostOrders (Inr (order_body p Limit sd price sz)))] 1 (quote_side env p sd price s)"
proof -
  obtain r x where r: "rng_below 5 (mm_rng s) = (r, x)" by fastforce
  have x: "x < 5" using rng_below_less [of 5 "mm_rng s"] by (simp add: r)
  let ?s1 = "s\<lparr>mm_rng := r\<rparr>"
  obtain s2 i where pl: "place env p (mm_maker s) Limit sd price (1 + x) ?s1 = (s2, i)" by fastforce
  have "unat (1 + x) = 1 + unat x" using x by (simp add: unat_add_exact word_less_nat_alt)
  then have sz: "0 < 1 + x" "1 + x \<le> 5" using x by (simp_all add: word_less_nat_alt word_le_nat_alt)
  have "quote_side env p sd price s = push_placed (s2, i)" by (simp add: quote_side_def random_size_def r pl)
  moreover have "mm_mid (push_placed (s2, i)) = mm_mid s2" "mm_maker (push_placed (s2, i)) = mm_maker s2"
    "bot_sent (push_placed (s2, i)) = bot_sent s2" "bot_next_cid (push_placed (s2, i)) = bot_next_cid s2"
    by (simp_all add: push_placed_def split: option.split)
  ultimately show ?thesis using sz place_sends [of env p "mm_maker s" Limit sd price "1 + x" ?s1] more_fields [of s2 ?s1]
    unfolding pl by (intro exI [of _ "1 + x"]) (simp add: sends_def)
qed

lemma quote_level_sends:
  assumes "auth_user dec (bearer (mm_maker s)) = Inr a"
  shows "\<exists>rqs x y. sends s rqs 2 (quote_level env p i s) \<and> 0 < x \<and> x \<le> 5 \<and> 0 < y \<and> y \<le> 5 \<and>
    submissions admin dec rqs =
      [(a, bot_next_cid s + 1, Place \<lparr>req_pair = p, req_type = Limit, req_side = Bid, req_price = bid_price (mm_mid s) i, req_size = x\<rparr>),
       (a, bot_next_cid s + 2, Place \<lparr>req_pair = p, req_type = Limit, req_side = Ask, req_price = ask_price (mm_mid s) i, req_size = y\<rparr>)]"
proof -
  let ?s1 = "quote_side env p Bid (bid_price (mm_mid s) i) s"
  obtain x where x: "0 < x" "x \<le> 5" and s1: "sends s [WriteReq (bot_headers (mm_maker s) (bot_next_cid s + 1))
      (PostOrders (Inr (order_body p Limit Bid (bid_price (mm_mid s) i) x)))] 1 ?s1" using quote_side_sends by blast
  obtain y where y: "0 < y" "y \<le> 5" and s2: "sends ?s1 [WriteReq (bot_headers (mm_maker ?s1) (bot_next_cid ?s1 + 1))
      (PostOrders (Inr (order_body p Limit Ask (ask_price (mm_mid s) i) y)))] 1 (quote_level env p i s)"
    using quote_side_sends [of ?s1 p Ask "ask_price (mm_mid s) i" env] s1 by (auto simp: quote_level_def sends_def)
  let ?r1 = "WriteReq (bot_headers (mm_maker s) (bot_next_cid s + 1)) (PostOrders (Inr (order_body p Limit Bid (bid_price (mm_mid s) i) x)))"
  let ?r2 = "WriteReq (bot_headers (mm_maker s) (bot_next_cid s + 2)) (PostOrders (Inr (order_body p Limit Ask (ask_price (mm_mid s) i) y)))"
  have "sends s ([?r1] @ [?r2]) 2 (quote_level env p i s)" using s1 s2 by (simp add: sends_def add.assoc)
  moreover have "submissions admin dec ([?r1] @ [?r2]) =
      [(a, bot_next_cid s + 1, Place \<lparr>req_pair = p, req_type = Limit, req_side = Bid, req_price = bid_price (mm_mid s) i, req_size = x\<rparr>),
       (a, bot_next_cid s + 2, Place \<lparr>req_pair = p, req_type = Limit, req_side = Ask, req_price = ask_price (mm_mid s) i, req_size = y\<rparr>)]"
    unfolding submissions_append submission_order [OF assms] by simp
  ultimately show ?thesis using x y by blast
qed

text \<open>The whole ladder: the orders it consists of, in order, with consecutive ids.\<close>

definition ladder_shape :: "u64 \<Rightarrow> nat \<Rightarrow> (side \<times> u64) list" where
  "ladder_shape mid n = concat (map (\<lambda>i. [(Bid, bid_price mid i), (Ask, ask_price mid i)]) [0..<n])"

lemma length_ladder [simp]: "length (ladder_shape mid n) = 2 * n"
  by (induction n) (simp_all add: ladder_shape_def)

definition quotes_of :: "pair \<Rightarrow> (side \<times> u64) list \<Rightarrow> order_request list \<Rightarrow> bool" where
  "quotes_of p shape reqs \<longleftrightarrow> map (\<lambda>r. (req_side r, req_price r)) reqs = shape \<and>
     (\<forall>r \<in> set reqs. req_pair r = p \<and> req_type r = Limit \<and> 0 < req_size r \<and> req_size r \<le> 5)"

lemma ladder_sends:
  assumes "auth_user dec (bearer (mm_maker s)) = Inr a"
  shows "\<exists>rqs reqs. sends s rqs (of_nat (2 * n)) (fold (quote_level env p) [0..<n] s) \<and>
    submissions admin dec rqs = map (\<lambda>(k, r). (a, bot_next_cid s + 1 + of_nat k, Place r)) (List.enumerate 0 reqs) \<and>
    quotes_of p (ladder_shape (mm_mid s) n) reqs"
proof (induction n)
  case 0
  show ?case by (intro exI [of _ "[]"]) (simp add: sends_def quotes_of_def ladder_shape_def)
next
  case (Suc n)
  let ?s = "fold (quote_level env p) [0..<n] s"
  obtain rqs reqs where ih: "sends s rqs (of_nat (2 * n)) ?s"
    "submissions admin dec rqs = map (\<lambda>(k, r). (a, bot_next_cid s + 1 + of_nat k, Place r)) (List.enumerate 0 reqs)"
    "quotes_of p (ladder_shape (mm_mid s) n) reqs" using Suc by blast
  have s: "mm_maker ?s = mm_maker s" "mm_mid ?s = mm_mid s" "bot_next_cid ?s = bot_next_cid s + of_nat (2 * n)"
    using ih(1) by (simp_all add: sends_def)
  obtain rqs' x y where st: "sends ?s rqs' 2 (quote_level env p n ?s)" "0 < x" "x \<le> 5" "0 < y" "y \<le> 5"
    "submissions admin dec rqs' =
      [(a, bot_next_cid ?s + 1, Place \<lparr>req_pair = p, req_type = Limit, req_side = Bid, req_price = bid_price (mm_mid s) n, req_size = x\<rparr>),
       (a, bot_next_cid ?s + 2, Place \<lparr>req_pair = p, req_type = Limit, req_side = Ask, req_price = ask_price (mm_mid s) n, req_size = y\<rparr>)]"
    using quote_level_sends [of dec ?s a env p n admin] assms s(1,2) by auto
  let ?new = "[\<lparr>req_pair = p, req_type = Limit, req_side = Bid, req_price = bid_price (mm_mid s) n, req_size = x\<rparr>,
    \<lparr>req_pair = p, req_type = Limit, req_side = Ask, req_price = ask_price (mm_mid s) n, req_size = y\<rparr>] :: order_request list"
  have "length reqs = length (map (\<lambda>r. (req_side r, req_price r)) reqs)" by simp
  also have "\<dots> = 2 * n" using ih(3) by (simp add: quotes_of_def)
  finally have len: "length reqs = 2 * n" .
  have "sends s (rqs @ rqs') (of_nat (2 * Suc n)) (fold (quote_level env p) [0..<Suc n] s)"
    using ih(1) st(1) by (simp add: sends_def algebra_simps)
  moreover have "submissions admin dec (rqs @ rqs') =
      map (\<lambda>(k, r). (a, bot_next_cid s + 1 + of_nat k, Place r)) (List.enumerate 0 (reqs @ ?new))"
    unfolding submissions_append ih(2) st(6) s(3) by (simp add: enumerate_append_eq len algebra_simps)
  moreover have "quotes_of p (ladder_shape (mm_mid s) (Suc n)) (reqs @ ?new)"
    using ih(3) st(2-5) by (auto simp: quotes_of_def ladder_shape_def)
  ultimately show ?case by blast
qed

lemma cancels_send:
  "\<exists>rqs. bot_sent (fold (bot_cancel env token) ids s) = bot_sent s @ rqs \<and>
     (\<forall>rq \<in> set rqs. \<exists>hs i. rq = WriteReq hs (DeleteOrder (Inr i)) \<and> i \<in> set ids) \<and> length rqs = length ids"
proof (induction ids arbitrary: s)
  case (Cons i ids)
  let ?rq = "WriteReq (bot_headers token (bot_next_cid s + 1)) (DeleteOrder (Inr i))"
  have one: "bot_sent (bot_cancel env token i s) = bot_sent s @ [?rq]" by (simp add: bot_cancel_def cid_def send_def)
  obtain rqs where "bot_sent (fold (bot_cancel env token) ids (bot_cancel env token i s)) = bot_sent s @ [?rq] @ rqs"
    "\<forall>rq \<in> set rqs. \<exists>hs j. rq = WriteReq hs (DeleteOrder (Inr j)) \<and> j \<in> set ids" "length rqs = length ids"
    using Cons [of "bot_cancel env token i s"] unfolding one by auto
  then show ?case by (intro exI [of _ "?rq # rqs"]) auto
qed simp

lemma clamp_mid_range: "60 \<le> clamp_mid m" "clamp_mid m \<le> 160"
  by (simp_all add: clamp_mid_def not_less)

lemma walk_mid: "60 \<le> mm_mid (walk s)" "mm_mid (walk s) \<le> 160" "mm_maker (walk s) = mm_maker s"
  by (simp_all add: walk_def Let_def clamp_mid_range split: prod.split)

section \<open>The promise\<close>


text \<open>A fresh market and a maker with the full deposits.\<close>

definition opening_log :: "log_entry list" where
  "opening_log =
     [(sorted_hashing, 1, 0, ListPair sol_usd),
      (sorted_hashing, 7, 0, Deposit \<lparr>dep_amount = 100000, dep_currency = USD\<rparr>),
      (sorted_hashing, 7, 1, Deposit \<lparr>dep_amount = 1000, dep_currency = SOL\<rparr>)]"

lemma opening_run:
  "\<exists>e outs. engine_run opening_log engine_new = Some (e, outs) \<and> listed_pairs e = {sol_usd} \<and> eng_limits e = limits_default \<and>
     books e sol_usd = None \<and> next_order_id e = 0 \<and> avail (eng_ledger e) 7 USD = 100000 \<and> avail (eng_ledger e) 7 SOL = 1000"
  by (simp add: opening_log_def run_eval avail_def)

definition demo_maker :: market_maker where
  "demo_maker = \<lparr>bot_next_cid = 1000, bot_sent = [], mm_rng = 1, mm_maker = ''m'', mm_taker = ''t'', mm_last_auth = 0, mm_mid = 100,
     mm_resting = [], mm_ticks = 1, mm_trend = 0\<rparr>"


section \<open>Where the quotes are not accepted\<close>

text \<open>The best quotes are two ticks apart, twice the spread the constant names.\<close>

lemma ladder_gap: "60 \<le> mid \<Longrightarrow> mid \<le> 160 \<Longrightarrow> unat (ask_price mid 0) = unat (bid_price mid 0) + 2 * unat spread"
  using ladder_prices [of mid 0] by (simp add: ladder_levels_def spread_def)

text \<open>A mid of 61 after a sale at 59, the best bid of a mid of 60: the outermost ask is out of the price band.\<close>

lemma edge_ask_out_of_band:
  "bid_price 60 0 = 59 \<and>
   (case price_band 59 2000 of (low, high) \<Rightarrow> ask_price 61 9 > high)"
  by (simp add: bid_price_def ask_price_def spread_def price_band_def saturating_mul_def saturating_sub_def saturating_add_def)

text \<open>Once the market has traded above 213 all quotes are out of band, whatever the book shows: the mid is clamped
  to 160.\<close>

lemma quotes_dead_above:
  assumes "213 < unat px" "unat px < 10 ^ 15" "i < ladder_levels"
  shows "case price_band px 2000 of (low, high) \<Rightarrow> bid_price (mm_mid (walk s)) i < low \<and> ask_price (mm_mid (walk s)) i < low"
proof -
  let ?px = "unat px"
  note lp = ladder_prices [OF walk_mid(1,2) assms(3), of s]
  have "?px * 2000 div 10000 = ?px div 5" using div_mult_mult2 [of 2000 ?px 5] by simp
  then have d: "unat (max (saturating_mul px 2000 div 10000) 1) = ?px div 5"
    unfolding unat_max_u64 unat_div_u64 unat_saturating_mul using assms(1,2) by (simp add: min_def max_def)
  obtain low high where lh: "price_band px 2000 = (low, high)" "unat low = ?px - ?px div 5"
    using d by (simp add: price_band_def Let_def unat_saturating_sub)
  have "170 < x - k" if "213 < x" "5 * k \<le> x" for x k :: nat using that by arith
  from this [of ?px "?px div 5"] have "170 < unat low" using assms(1) by (simp add: lh(2))
  moreover have "i \<le> 9" using assms(3) by (simp add: ladder_levels_def)
  ultimately show ?thesis using lp by (simp add: lh(1) word_less_nat_alt)
qed

end
