(* ===== verification/Startup.thy ===== *)
theory Startup
  imports Engine_Service Book_Tail Retention "HOL-Library.Sublist"
begin

text \<open>
  How the three server processes start (\<open>main\<close> in \<open>src/bin/engine.rs\<close>, \<open>src/bin/db_writer.rs\<close> and
  \<open>src/bin/api/main.rs\<close>) and how the database writer schedules its retention sweeps. The connections, the reply to
  \<open>XGROUP CREATE\<close> and the clock are parameters; every \<open>?\<close> of the code is a branch that ends the process with its
  error.
\<close>

section \<open>Settings\<close>

definition env_or :: "(string \<rightharpoonup> string) \<Rightarrow> string \<Rightarrow> string \<Rightarrow> string" where
  "env_or env key dflt = (case env key of None \<Rightarrow> dflt | Some v \<Rightarrow> v)"

definition snapshot_every :: u64 where
  "snapshot_every = 5000"

definition book_snapshot_every :: u64 where
  "book_snapshot_every = 5000"

definition retention_interval :: nat where
  "retention_interval = 3600"

text \<open>The reply to \<open>XGROUP CREATE\<close>: a group that exists already is not an error.\<close>

definition group_created :: "string + unit \<Rightarrow> string + unit" where
  "group_created created =
     (case created of Inr u \<Rightarrow> Inr u | Inl e \<Rightarrow> if sublist ''BUSYGROUP'' e then Inr () else Inl e)"

section \<open>The engine\<close>

text \<open>What \<open>main\<close> passes to \<open>run_engine\<close>; \<open>connect\<close> opens the two connections to the given address.\<close>

definition engine_main ::
    "(string \<rightharpoonup> string) \<Rightarrow> (string \<Rightarrow> string + unit) \<Rightarrow> string + unit \<Rightarrow> string + engine \<times> snapshot_config option" where
  "engine_main env connect created =
     (case connect (env_or env ''REDIS_URL'' ''redis://127.0.0.1:6379'') of
        Inl e \<Rightarrow> Inl e
      | Inr _ \<Rightarrow>
          (case group_created created of
             Inl e \<Rightarrow> Inl e
           | Inr _ \<Rightarrow> Inr (engine_new, config_from_env env ''ENGINE_SNAPSHOT_PATH'' ''ENGINE_SNAPSHOT_EVERY'' snapshot_every)))"

section \<open>The database writer\<close>

definition writer_main ::
    "(string \<rightharpoonup> string) \<Rightarrow> (string \<Rightarrow> string + unit) \<Rightarrow> (string \<Rightarrow> string + unit) \<Rightarrow> string + unit \<Rightarrow> string + u64 \<times> retention" where
  "writer_main env pg_connect connect created =
     (case env ''DATABASE_URL'' of
        None \<Rightarrow> Inl ''environment variable not found''
      | Some url \<Rightarrow>
          (case pg_connect url of
             Inl e \<Rightarrow> Inl e
           | Inr _ \<Rightarrow>
               (case connect (env_or env ''REDIS_URL'' ''redis://127.0.0.1:6379'') of
                  Inl e \<Rightarrow> Inl e
                | Inr _ \<Rightarrow> (case group_created created of Inl e \<Rightarrow> Inl e | Inr _ \<Rightarrow> Inr (0, retention_from_env env)))))"

text \<open>The top of the loop at time \<open>now\<close>, in seconds (the code reads its clock twice in a row, taken as one reading
  here): whether to sweep, and when to sweep next. A sweep leaves the tables in some state and may report an error,
  which is only printed.\<close>

definition sweep_due :: "nat \<Rightarrow> nat \<Rightarrow> bool \<times> nat" where
  "sweep_due now next_sweep = (if next_sweep \<le> now then (True, now + retention_interval) else (False, next_sweep))"

definition sweep_tick :: "(db \<Rightarrow> db \<times> string option) \<Rightarrow> nat \<Rightarrow> nat \<Rightarrow> db \<Rightarrow> db \<times> nat" where
  "sweep_tick attempt now next_sweep d =
     (case sweep_due now next_sweep of (due, after) \<Rightarrow> (if due then fst (attempt d) else d, after))"

text \<open>The times at which a loop that comes by at the given times sweeps.\<close>

fun sweep_times :: "nat list \<Rightarrow> nat \<Rightarrow> nat list" where
  "sweep_times [] next_sweep = []"
| "sweep_times (now # ts) next_sweep =
     (case sweep_due now next_sweep of (due, after) \<Rightarrow> (if due then [now] else []) @ sweep_times ts after)"

lemma sweep_times_Cons [simp]:
  "sweep_times (now # ts) next_sweep =
     (if next_sweep \<le> now then now # sweep_times ts (now + retention_interval) else sweep_times ts next_sweep)"
  by (simp add: sweep_due_def)

declare sweep_times.simps(2) [simp del]

lemma sweep_times_after: "t \<in> set (sweep_times ts next_sweep) \<Longrightarrow> next_sweep \<le> t \<and> t \<in> set ts"
  by (induction ts arbitrary: next_sweep) (fastforce simp: retention_interval_def split: if_splits)+

text \<open>Sweeps are at least an hour apart, and whenever the loop comes by, the last sweep is less than an hour old.\<close>

lemma sweeps_are_hourly:
  "sorted ts \<Longrightarrow> sorted_wrt (\<lambda>s t. s + retention_interval \<le> t) (sweep_times ts next_sweep)"
  by (induction ts arbitrary: next_sweep) (auto dest: sweep_times_after)

lemma sweeps_are_not_starved:
  assumes "sorted ts" "t \<in> set ts" "next_sweep \<le> t"
  shows "\<exists>s \<in> set (sweep_times ts next_sweep). s \<le> t \<and> t < s + retention_interval"
  using assms
proof (induction ts arbitrary: next_sweep)
  case (Cons now ts)
  consider "next_sweep \<le> now" "t < now + retention_interval" | "next_sweep \<le> now" "now + retention_interval \<le> t" | "now < next_sweep"
    by linarith
  then show ?case
  proof cases
    case 1
    then show ?thesis using Cons.prems by auto
  next
    case 2
    then have "t \<in> set ts" using Cons.prems(2) by (auto simp: retention_interval_def)
    then show ?thesis using Cons.IH [of "now + retention_interval"] Cons.prems(1) 2 by auto
  next
    case 3
    then show ?thesis using Cons.IH [of next_sweep] Cons.prems by auto
  qed
qed simp

section \<open>The API\<close>

record app_state =
  app_books :: book_state
  app_keys :: string
  app_admin_account_id :: u64

text \<open>The state the server is started with and the entry from which \<open>tail\<close> continues: the projection is complete
  before the first request. An error of any step ends the process.\<close>

definition api_main ::
    "(string \<rightharpoonup> string) \<Rightarrow> (string \<Rightarrow> string + unit) \<Rightarrow> (string \<Rightarrow> string + unit) \<Rightarrow> (string \<Rightarrow> event_batch option) \<Rightarrow>
     (string \<Rightarrow> book_state snapshot option) \<Rightarrow> (string \<Rightarrow> stream_entry list) \<Rightarrow> files \<Rightarrow> string + app_state \<times> string" where
  "api_main env connect pg_connect dec from_slice xrange fs =
     (case connect (env_or env ''REDIS_URL'' ''redis://127.0.0.1:6379/'') of
        Inl e \<Rightarrow> Inl e
      | Inr _ \<Rightarrow>
     (case env ''DATABASE_URL'' of
        None \<Rightarrow> Inl ''environment variable not found''
      | Some url \<Rightarrow>
     (case pg_connect url of
        Inl e \<Rightarrow> Inl e
      | Inr _ \<Rightarrow>
     (case env ''ADMIN_ACCOUNT_ID'' of
        None \<Rightarrow> Inl ''environment variable not found''
      | Some v \<Rightarrow>
     (case parse_u64 v of
        None \<Rightarrow> Inl ''invalid account id''
      | Some admin \<Rightarrow>
     (case env ''JWT_SECRET'' of
        None \<Rightarrow> Inl ''environment variable not found''
      | Some secret \<Rightarrow>
          (let cfg = config_from_env env ''BOOK_SNAPSHOT_PATH'' ''BOOK_SNAPSHOT_EVERY'' book_snapshot_every;
               (store, last_id) = bootstrap dec from_slice cfg xrange fs book_store_new
           in Inr (\<lparr>app_books = store, app_keys = secret, app_admin_account_id = admin\<rparr>, last_id))))))))"

text \<open>Without an administrator the API does not start, and what it serves from the start is the whole log.\<close>

lemma api_needs_admin: "env ''ADMIN_ACCOUNT_ID'' = None \<Longrightarrow> \<exists>e. api_main env connect pg_connect dec from_slice xrange fs = Inl e"
  by (simp add: api_main_def split: sum.split option.split)

lemma api_serves_whole_log:
  assumes "api_main env connect pg_connect dec from_slice xrange fs = Inr (app, last_id)"
    and "env ''BOOK_SNAPSHOT_PATH'' = None" "serves xrange log 0"
  shows "app_books app = fold apply_batch (stream_batches dec log) book_store_new"
proof -
  have cfg: "config_from_env env ''BOOK_SNAPSHOT_PATH'' ''BOOK_SNAPSHOT_EVERY'' book_snapshot_every = None"
    using assms(2) by (simp add: config_from_env_def)
  have "app_books app = fst (bootstrap dec from_slice None xrange fs book_store_new)"
    using assms(1) unfolding api_main_def cfg by (auto split: sum.splits option.splits prod.splits)
  then show ?thesis using assms(3) by (simp add: bootstrap_state serves_def resume_from_def bk.start_state_def fold_project)
qed

section \<open>A snapshot that is ignored\<close>

text \<open>An unreadable snapshot, or one of another version, does not stop a boot; but the stream behind it was trimmed on
  the strength of it, and the engine comes up without what only the snapshot had. Two deposits of an account,
  the first trimmed away: the log gives the account 520, the boot 20.\<close>

definition second_env :: command_envelope where
  "second_env = \<lparr>env_correlation_id = 2, env_account_id = 8, env_client_order_id = 1,
     env_command = Deposit \<lparr>dep_amount = 20, dep_currency = USD\<rparr>\<rparr>"

definition upgraded_codec :: codec where
  "upgraded_codec =
     \<lparr>dec_command = [''deposit'' \<mapsto> deposit_env, ''second'' \<mapsto> second_env],
      enc_batch = (\<lambda>b. Some ''batch''), enc_response = (\<lambda>r. Some ''response''),
      enc_state = (\<lambda>sn. None), dec_state = (\<lambda>bytes. Some \<lparr>sn_version = 2, sn_last_id = ''2-0'', sn_state = deposited\<rparr>)\<rparr>"

definition two_deposits :: "stream_entry list" where
  "two_deposits = [(''1-0'', Some ''deposit''), (''2-0'', Some ''second'')]"

lemma ignored_snapshot_loses_history:
  assumes "serves xrange two_deposits 1"
  shows "(\<exists>e outs. engine_run (log_commands upgraded_codec two_deposits) engine_new = Some (e, outs) \<and> avail (eng_ledger e) 8 USD = 520)"
    and "\<exists>e. recover upgraded_codec (Some \<lparr>cfg_path = ''eng'', cfg_every = 1\<rparr>) (\<lambda>_. sorted_hashing) xrange [''eng'' \<mapsto> bytes] engine_new =
      Some (e, Some ''2-0'') \<and> avail (eng_ledger e) 8 USD = 20"
proof -
  have x: "xrange ''-'' = [(''2-0'', Some ''second'')]" using assms by (simp add: serves_def two_deposits_def)
  show "\<exists>e outs. engine_run (log_commands upgraded_codec two_deposits) engine_new = Some (e, outs) \<and> avail (eng_ledger e) 8 USD = 520"
    by (simp add: two_deposits_def log_commands_def entry_command_def upgraded_codec_def deposit_env_def second_env_def run_eval avail_def)
  show "\<exists>e. recover upgraded_codec (Some \<lparr>cfg_path = ''eng'', cfg_every = 1\<rparr>) (\<lambda>_. sorted_hashing) xrange [''eng'' \<mapsto> bytes] engine_new =
      Some (e, Some ''2-0'') \<and> avail (eng_ledger e) 8 USD = 20"
    by (simp add: recover_def load_def snapshot_version_def restore_def resume_from_def x entry_command_def upgraded_codec_def
        second_env_def run_eval avail_def)
qed

end
