(* ===== verification/Book_Tests.thy ===== *)
theory Book_Tests
  imports Engine_Examples "HOL-Library.Monad_Syntax"
begin

text \<open>
  The unit tests of \<open>src/book.rs\<close>, with the helpers of \<open>src/test_util.rs\<close>, run on the model. Each test is a value of type
  \<open>bool option\<close>: \<open>None\<close> when an \<open>unwrap\<close> in it panics, and otherwise whether its assertions hold. That
  they all evaluate to \<open>Some True\<close> checks the definitions of \<open>Order_Book\<close> against what the authors of the code expect of
  it. The hash set of dirty levels is iterated in ascending order.
\<close>

section \<open>Helpers\<close>

definition test_pair :: pair where
  "test_pair = \<lparr>base = SOL, quote = USD\<rparr>"

record test_book =
  tb_book :: order_book
  tb_next_id :: u64

definition new_book :: test_book where
  "new_book = \<lparr>tb_book = order_book_new, tb_next_id = 0\<rparr>"

definition place_full :: "order_type \<Rightarrow> side \<Rightarrow> u64 \<Rightarrow> u64 \<Rightarrow> test_book \<Rightarrow> test_book \<times> match_response" where
  "place_full ty s price sz tb =
     (case add_order sorted_list_of_set (tb_next_id tb) 1
             \<lparr>req_pair = test_pair, req_type = ty, req_side = s, req_price = price, req_size = sz\<rparr> (tb_book tb) of
        (b, mr) \<Rightarrow> (\<lparr>tb_book = b, tb_next_id = tb_next_id tb + 1\<rparr>, mr))"

text \<open>The test's \<open>place\<close>: the id and the filled quantity.\<close>

definition place_one :: "order_type \<Rightarrow> side \<Rightarrow> u64 \<Rightarrow> u64 \<Rightarrow> test_book \<Rightarrow> test_book \<times> u64 \<times> u64" where
  "place_one ty s price sz tb =
     (case place_full ty s price sz tb of (tb', mr) \<Rightarrow> (tb', mr_order_id mr, \<Sum>t \<leftarrow> mr_trades mr. trd_qty t))"

definition cancel_one :: "account_id \<Rightarrow> u64 \<Rightarrow> test_book \<Rightarrow> (test_book \<times> order \<times> book_delta list) option" where
  "cancel_one a i tb =
     (case book_cancel_order sorted_list_of_set a i (tb_book tb) of
        None \<Rightarrow> None
      | Some (b, ord, deltas) \<Rightarrow> Some (tb\<lparr>tb_book := b\<rparr>, ord, deltas))"

abbreviation bid_level :: "test_book \<Rightarrow> u64 \<Rightarrow> order list option" where
  "bid_level tb p \<equiv> bt_get (bids (tb_book tb)) p"

abbreviation ask_level :: "test_book \<Rightarrow> u64 \<Rightarrow> order list option" where
  "ask_level tb p \<equiv> bt_get (asks (tb_book tb)) p"

text \<open>Evaluate the first step of a test before the rest of it.\<close>

lemma bind_weak_cong: "m = m' \<Longrightarrow> Option.bind m f = Option.bind m' f"
  by simp

lemmas eval_cong = let_weak_cong bind_weak_cong prod.case_cong_weak

lemmas test_eval = run_eval test_pair_def new_book_def place_full_def place_one_def cancel_one_def

section \<open>Matching\<close>

definition test_insert_limit_orders_no_match :: "bool option" where
  "test_insert_limit_orders_no_match = do {
     let (book, bid_id, filled_bid) = place_one Limit Bid 100 10 new_book;
     let (book, ask_id, filled_ask) = place_one Limit Ask 110 15 book;
     bid_queue \<leftarrow> bid_level book 100;
     ask_queue \<leftarrow> ask_level book 110;
     Some (filled_bid = 0 \<and> filled_ask = 0 \<and> length bid_queue = 1 \<and> length ask_queue = 1 \<and> ord_id (bid_queue ! 0) = bid_id)
   }"

lemma passes_insert_limit_orders_no_match: "test_insert_limit_orders_no_match = Some True"
  by (simp add: test_insert_limit_orders_no_match_def test_eval cong: eval_cong)

definition test_exact_match_and_cleanup :: "bool option" where
  "test_exact_match_and_cleanup = do {
     let (book, ask_id, _) = place_one Limit Ask 100 10 new_book;
     let (book, bid_id, filled) = place_one Limit Bid 100 10 book;
     Some (filled = 10 \<and> ask_level book 100 = None)
   }"

lemma passes_exact_match_and_cleanup: "test_exact_match_and_cleanup = Some True"
  by (simp add: test_exact_match_and_cleanup_def test_eval cong: eval_cong)

definition test_partial_fill_incoming_smaller :: "bool option" where
  "test_partial_fill_incoming_smaller = do {
     let (book, ask_id, _) = place_one Limit Ask 100 20 new_book;
     let (book, bid_id, filled) = place_one Limit Bid 100 5 book;
     q \<leftarrow> ask_level book 100;
     Some (filled = 5 \<and> ord_remaining (q ! 0) = 15)
   }"

lemma passes_partial_fill_incoming_smaller: "test_partial_fill_incoming_smaller = Some True"
  by (simp add: test_partial_fill_incoming_smaller_def test_eval cong: eval_cong)

definition test_partial_fill_incoming_larger :: "bool option" where
  "test_partial_fill_incoming_larger = do {
     let (book, ask_id, _) = place_one Limit Ask 100 10 new_book;
     let (book, bid_id, filled) = place_one Limit Bid 100 25 book;
     q \<leftarrow> bid_level book 100;
     Some (filled = 10 \<and> ask_level book 100 = None \<and> ord_remaining (q ! 0) = 15)
   }"

lemma passes_partial_fill_incoming_larger: "test_partial_fill_incoming_larger = Some True"
  by (simp add: test_partial_fill_incoming_larger_def test_eval cong: eval_cong)

definition test_time_priority_fifo :: "bool option" where
  "test_time_priority_fifo = do {
     let (book, ask1, _) = place_one Limit Ask 100 10 new_book;
     let (book, ask2, _) = place_one Limit Ask 100 10 book;
     let (book, ask3, _) = place_one Limit Ask 100 10 book;
     let (book, bid_id, filled) = place_one Limit Bid 100 15 book;
     ask_queue \<leftarrow> ask_level book 100;
     Some (filled = 15 \<and> length ask_queue = 2 \<and> ord_remaining (ask_queue ! 0) = 5 \<and> ord_remaining (ask_queue ! 1) = 10)
   }"

lemma passes_time_priority_fifo: "test_time_priority_fifo = Some True"
  by (simp add: test_time_priority_fifo_def test_eval cong: eval_cong)

definition test_market_order_sweep :: "bool option" where
  "test_market_order_sweep = do {
     let (book, _, _) = place_one Limit Ask 100 10 new_book;
     let (book, _, _) = place_one Limit Ask 105 10 book;
     let (book, _, _) = place_one Limit Ask 110 10 book;
     let (book, _, filled) = place_one Market Bid 0 25 book;
     q \<leftarrow> ask_level book 110;
     Some (filled = 25 \<and> ask_level book 100 = None \<and> ask_level book 105 = None \<and> ord_remaining (q ! 0) = 5)
   }"

lemma passes_market_order_sweep: "test_market_order_sweep = Some True"
  by (simp add: test_market_order_sweep_def test_eval cong: eval_cong)

definition test_market_order_exhausts_book :: "bool option" where
  "test_market_order_exhausts_book = do {
     let (book, _, _) = place_one Limit Ask 100 10 new_book;
     let (book, _, filled) = place_one Market Bid 0 50 book;
     Some (filled = 10 \<and> asks (tb_book book) = [] \<and> bids (tb_book book) = [])
   }"

lemma passes_market_order_exhausts_book: "test_market_order_exhausts_book = Some True"
  by (simp add: test_market_order_exhausts_book_def test_eval cong: eval_cong)

section \<open>Cancels\<close>

definition test_cancel_single_order :: "bool option" where
  "test_cancel_single_order = do {
     let (book, bid_id, _) = place_one Limit Bid 100 10 new_book;
     q \<leftarrow> bid_level book 100;
     let one = length q;
     (book, _) \<leftarrow> cancel_one 1 bid_id book;
     Some (one = 1 \<and> bid_level book 100 = None \<and> bids (tb_book book) = [])
   }"

lemma passes_cancel_single_order: "test_cancel_single_order = Some True"
  by (simp add: test_cancel_single_order_def test_eval cong: eval_cong)

definition test_cancel_middle_of_queue :: "bool option" where
  "test_cancel_middle_of_queue = do {
     let (book, id1, _) = place_one Limit Ask 200 10 new_book;
     let (book, id2, _) = place_one Limit Ask 200 15 book;
     let (book, id3, _) = place_one Limit Ask 200 20 book;
     before \<leftarrow> ask_level book 200;
     (book, _) \<leftarrow> cancel_one 1 id2 book;
     queue \<leftarrow> ask_level book 200;
     Some (length before = 3 \<and> length queue = 2 \<and> ord_id (queue ! 0) = id1 \<and> ord_id (queue ! 1) = id3)
   }"

lemma passes_cancel_middle_of_queue: "test_cancel_middle_of_queue = Some True"
  by (simp add: test_cancel_middle_of_queue_def test_eval cong: eval_cong)

definition test_cancel_non_existent_order :: "bool option" where
  "test_cancel_non_existent_order = do {
     let (book, _, _) = place_one Limit Ask 150 10 new_book;
     let cancelled = cancel_one 1 (- 1) book;
     q \<leftarrow> ask_level book 150;
     Some (cancelled = None \<and> length q = 1 \<and> ord_size (q ! 0) = 10)
   }"

lemma passes_cancel_non_existent_order: "test_cancel_non_existent_order = Some True"
  by (simp add: test_cancel_non_existent_order_def test_eval cong: eval_cong)

definition test_cancel_partially_filled_order :: "bool option" where
  "test_cancel_partially_filled_order = do {
     let (book, ask_id, _) = place_one Limit Ask 100 20 new_book;
     let (book, bid_id, filled) = place_one Limit Bid 100 5 book;
     q \<leftarrow> ask_level book 100;
     (book, _) \<leftarrow> cancel_one 1 ask_id book;
     Some (filled = 5 \<and> ord_remaining (q ! 0) = 15 \<and> asks (tb_book book) = [] \<and> bids (tb_book book) = [])
   }"

lemma passes_cancel_partially_filled_order: "test_cancel_partially_filled_order = Some True"
  by (simp add: test_cancel_partially_filled_order_def test_eval cong: eval_cong)

definition test_cancel_by_non_owner_is_rejected :: "bool option" where
  "test_cancel_by_non_owner_is_rejected = do {
     let (book, bid_id, _) = place_one Limit Bid 100 10 new_book;
     let stranger = cancel_one 2 bid_id book;
     q \<leftarrow> bid_level book 100;
     (book, _) \<leftarrow> cancel_one 1 bid_id book;
     Some (stranger = None \<and> length q = 1 \<and> bids (tb_book book) = [])
   }"

lemma passes_cancel_by_non_owner_is_rejected: "test_cancel_by_non_owner_is_rejected = Some True"
  by (simp add: test_cancel_by_non_owner_is_rejected_def test_eval cong: eval_cong)

section \<open>Trades\<close>

definition test_trade_details_single_match :: "bool option" where
  "test_trade_details_single_match = do {
     let (book, maker_id, _) = place_one Limit Ask 100 10 new_book;
     let (book, res) = place_full Limit Bid 100 10 book;
     let t = mr_trades res ! 0;
     Some (length (mr_trades res) = 1 \<and> trd_qty t = 10 \<and> trd_price t = 100 \<and> trd_maker_id t = maker_id \<and> trd_taker_id t = mr_order_id res \<and> trd_taker_side t = Bid)
   }"

lemma passes_trade_details_single_match: "test_trade_details_single_match = Some True"
  by (simp add: test_trade_details_single_match_def test_eval cong: eval_cong)

definition test_execution_price_is_maker_price :: "bool option" where
  "test_execution_price_is_maker_price = do {
     let (book, maker_id, _) = place_one Limit Ask 95 10 new_book;
     let (book, res) = place_full Limit Bid 100 10 book;
     Some (length (mr_trades res) = 1 \<and> trd_price (mr_trades res ! 0) = 95 \<and> trd_maker_id (mr_trades res ! 0) = maker_id)
   }"

lemma passes_execution_price_is_maker_price: "test_execution_price_is_maker_price = Some True"
  by (simp add: test_execution_price_is_maker_price_def test_eval cong: eval_cong)

definition test_market_sweep_trade_prices :: "bool option" where
  "test_market_sweep_trade_prices = do {
     let (book, m1, _) = place_one Limit Ask 100 10 new_book;
     let (book, m2, _) = place_one Limit Ask 105 10 book;
     let (book, m3, _) = place_one Limit Ask 110 10 book;
     let (book, res) = place_full Market Bid 0 25 book;
     let ts = mr_trades res;
     Some (length ts = 3 \<and> map trd_price ts = [100, 105, 110] \<and> map trd_qty ts = [10, 10, 5] \<and> map trd_maker_id ts = [m1, m2, m3] \<and> (\<Sum>t \<leftarrow> ts. trd_qty t * trd_price t) = 10 * 100 + 10 * 105 + 5 * 110)
   }"

lemma passes_market_sweep_trade_prices: "test_market_sweep_trade_prices = Some True"
  by (simp add: test_market_sweep_trade_prices_def test_eval cong: eval_cong)

definition test_taker_side_reflects_aggressor :: "bool option" where
  "test_taker_side_reflects_aggressor = do {
     let (book, _, _) = place_one Limit Bid 100 10 new_book;
     let (book, res) = place_full Limit Ask 100 5 book;
     Some (length (mr_trades res) = 1 \<and> trd_taker_side (mr_trades res ! 0) = Ask \<and> trd_price (mr_trades res ! 0) = 100)
   }"

lemma passes_taker_side_reflects_aggressor: "test_taker_side_reflects_aggressor = Some True"
  by (simp add: test_taker_side_reflects_aggressor_def test_eval cong: eval_cong)

section \<open>Book deltas\<close>

definition test_resting_order_produces_one_book_delta :: "bool option" where
  "test_resting_order_produces_one_book_delta = do {
     let (book, res) = place_full Limit Bid 100 10 new_book;
     Some (mr_book_deltas res = [(Bid, 100, 10)])
   }"

lemma passes_resting_order_produces_one_book_delta: "test_resting_order_produces_one_book_delta = Some True"
  by (simp add: test_resting_order_produces_one_book_delta_def test_eval cong: eval_cong)

definition test_sweep_across_same_level_dedups_to_one_delta :: "bool option" where
  "test_sweep_across_same_level_dedups_to_one_delta = do {
     let (book, _) = place_full Limit Ask 100 5 new_book;
     let (book, _) = place_full Limit Ask 100 5 book;
     let (book, res) = place_full Limit Bid 100 6 book;
     Some (mr_book_deltas res = [(Ask, 100, 4)])
   }"

lemma passes_sweep_across_same_level_dedups_to_one_delta: "test_sweep_across_same_level_dedups_to_one_delta = Some True"
  by (simp add: test_sweep_across_same_level_dedups_to_one_delta_def test_eval cong: eval_cong)

definition test_partial_fill_reports_remaining_aggregate :: "bool option" where
  "test_partial_fill_reports_remaining_aggregate = do {
     let (book, _) = place_full Limit Ask 100 10 new_book;
     let (book, res) = place_full Limit Bid 100 4 book;
     Some (mr_book_deltas res = [(Ask, 100, 6)])
   }"

lemma passes_partial_fill_reports_remaining_aggregate: "test_partial_fill_reports_remaining_aggregate = Some True"
  by (simp add: test_partial_fill_reports_remaining_aggregate_def test_eval cong: eval_cong)

definition test_full_fill_reports_zero_qty :: "bool option" where
  "test_full_fill_reports_zero_qty = do {
     let (book, _) = place_full Limit Ask 100 10 new_book;
     let (book, res) = place_full Limit Bid 100 10 book;
     Some (mr_book_deltas res = [(Ask, 100, 0)] \<and> ask_level book 100 = None)
   }"

lemma passes_full_fill_reports_zero_qty: "test_full_fill_reports_zero_qty = Some True"
  by (simp add: test_full_fill_reports_zero_qty_def test_eval cong: eval_cong)

definition test_cancel_last_order_at_level_reports_zero :: "bool option" where
  "test_cancel_last_order_at_level_reports_zero = do {
     let (book, _) = place_full Limit Ask 100 10 new_book;
     (_, _, deltas) \<leftarrow> cancel_one 1 0 book;
     Some (deltas = [(Ask, 100, 0)])
   }"

lemma passes_cancel_last_order_at_level_reports_zero: "test_cancel_last_order_at_level_reports_zero = Some True"
  by (simp add: test_cancel_last_order_at_level_reports_zero_def test_eval cong: eval_cong)

definition test_cancel_one_of_several_reports_remaining_aggregate :: "bool option" where
  "test_cancel_one_of_several_reports_remaining_aggregate = do {
     let (book, _) = place_full Limit Ask 100 5 new_book;
     let (book, _) = place_full Limit Ask 100 5 book;
     (_, _, deltas) \<leftarrow> cancel_one 1 0 book;
     Some (deltas = [(Ask, 100, 5)])
   }"

lemma passes_cancel_one_of_several_reports_remaining_aggregate: "test_cancel_one_of_several_reports_remaining_aggregate = Some True"
  by (simp add: test_cancel_one_of_several_reports_remaining_aggregate_def test_eval cong: eval_cong)

definition test_unrelated_command_emits_no_stale_delta :: "bool option" where
  "test_unrelated_command_emits_no_stale_delta = do {
     let (book, _) = place_full Limit Ask 100 10 new_book;
     let (book, res) = place_full Limit Bid 50 3 book;
     Some (mr_book_deltas res = [(Bid, 50, 3)])
   }"

lemma passes_unrelated_command_emits_no_stale_delta: "test_unrelated_command_emits_no_stale_delta = Some True"
  by (simp add: test_unrelated_command_emits_no_stale_delta_def test_eval cong: eval_cong)

end
