(* ===== verification/Engine_Tests.thy ===== *)
theory Engine_Tests
  imports Book_Tests Candle Snapshot "HOL-Library.Char_ord" "HOL-Library.List_Lexorder"
begin

text \<open>
  The unit tests of \<open>src/engine.rs\<close> on the model, in the form of \<open>Book_Tests\<close>: settlement, numbering, listings and the
  abuse guards; and those of \<open>src/candle.rs\<close> and \<open>src/snapshot.rs\<close>. The module
  \<open>snapshot_tests\<close> and \<open>test_dedup_window_evicts_oldest_client_order_id\<close> are in \<open>Codec_Tests\<close>.
\<close>

section \<open>Helpers\<close>

definition other_pair :: pair where
  "other_pair = \<lparr>base = USD, quote = SOL\<rparr>"

definition listed :: "pair \<Rightarrow> engine \<Rightarrow> engine" where
  "listed p e = e\<lparr>listed_pairs := insert p (listed_pairs e)\<rparr>"

definition test_engine :: engine where
  "test_engine = listed test_pair engine_new"

definition bal :: "engine \<Rightarrow> account_id \<Rightarrow> currency \<Rightarrow> u64 \<times> u64" where
  "bal e a c =
     (case balances (eng_ledger e) a of
        None \<Rightarrow> (0, 0)
      | Some m \<Rightarrow> (case m c of None \<Rightarrow> (0, 0) | Some b \<Rightarrow> (available b, reserved b)))"

definition total :: "engine \<Rightarrow> currency \<Rightarrow> u64" where
  "total e c = (\<Sum>a \<in> dom (balances (eng_ledger e)). fst (bal e a c) + snd (bal e a c))"

text \<open>\<open>engine.ledger.deposit(..)\<close>, past the guards.\<close>

definition fund :: "currency \<Rightarrow> account_id \<Rightarrow> u64 \<Rightarrow> engine \<Rightarrow> engine" where
  "fund c a x e = e\<lparr>eng_ledger := fst (ledger_deposit c a x (eng_ledger e))\<rparr>"

definition submit_pair ::
    "account_id \<Rightarrow> pair \<Rightarrow> side \<Rightarrow> order_type \<Rightarrow> u64 \<Rightarrow> u64 \<Rightarrow> engine \<Rightarrow> (engine \<times> (reject_reason + match_response)) option" where
  "submit_pair a p s ty price sz e =
     place_order sorted_list_of_set a \<lparr>req_pair = p, req_type = ty, req_side = s, req_price = price, req_size = sz\<rparr> e"

definition submit ::
    "account_id \<Rightarrow> side \<Rightarrow> order_type \<Rightarrow> u64 \<Rightarrow> u64 \<Rightarrow> engine \<Rightarrow> (engine \<times> (reject_reason + match_response)) option" where
  "submit a s ty price sz e = submit_pair a test_pair s ty price sz e"

text \<open>\<open>unwrap\<close> of the result of a placement.\<close>

definition accepted :: "(engine \<times> (reject_reason + match_response)) option \<Rightarrow> (engine \<times> match_response) option" where
  "accepted r = (case r of Some (e, Inr mr) \<Rightarrow> Some (e, mr) | _ \<Rightarrow> None)"

definition cancelled :: "account_id \<Rightarrow> u64 \<Rightarrow> engine \<Rightarrow> (engine \<times> pair \<times> order \<times> book_delta list) option" where
  "cancelled a i e =
     (case engine_cancel_order sorted_list_of_set a \<lparr>can_order_id = i\<rparr> e of
        (e', None) \<Rightarrow> None
      | (e', Some x) \<Rightarrow> Some (e', x))"

definition find_update :: "match_response \<Rightarrow> u64 \<Rightarrow> order_update option" where
  "find_update mr i = find (\<lambda>u. upd_order_id u = i) (mr_updates mr)"

definition step :: "account_id \<Rightarrow> u64 \<Rightarrow> command \<Rightarrow> engine \<Rightarrow> (engine \<times> command_response \<times> event_batch option) option" where
  "step a i cmd e = engine_apply sorted_hashing a i cmd e"

definition guarded_deposit :: "account_id \<Rightarrow> currency \<Rightarrow> u64 \<Rightarrow> engine \<Rightarrow> engine \<times> (reject_reason + u64)" where
  "guarded_deposit a c x e = engine_deposit a \<lparr>dep_amount = x, dep_currency = c\<rparr> e"

text \<open>\<open>seed_price\<close> of the guard tests: two crossing orders of different accounts; its assertion is that the price was
  set.\<close>

definition seed_trade :: "u64 \<Rightarrow> engine \<Rightarrow> engine option" where
  "seed_trade price e = do {
     let (e, _) = guarded_deposit 1 USD (price * 2) e;
     let (e, _) = guarded_deposit 2 SOL 2 e;
     (e, _) \<leftarrow> accepted (submit 2 Ask Limit price 1 e);
     (e, _) \<leftarrow> accepted (submit 1 Bid Limit price 1 e);
     b \<leftarrow> books e test_pair;
     if last_trade_price b = Some price then Some e else None
   }"

fun is_OrderAccepted :: "event \<Rightarrow> bool" where
  "is_OrderAccepted (OrderAccepted _ _ _ _ _ _ _) = True"
| "is_OrderAccepted _ = False"

fun is_BalanceChanged :: "event \<Rightarrow> bool" where
  "is_BalanceChanged (BalanceChanged _ _ _ _) = True"
| "is_BalanceChanged _ = False"

fun is_Trade :: "event \<Rightarrow> bool" where
  "is_Trade (Trade _) = True"
| "is_Trade _ = False"

fun is_OrderUpdated :: "event \<Rightarrow> bool" where
  "is_OrderUpdated (OrderUpdated _ _ _ _ _ _) = True"
| "is_OrderUpdated _ = False"

lemmas engine_test_eval = test_eval other_pair_def listed_def test_engine_def bal_def total_def fund_def submit_pair_def submit_def accepted_def
  cancelled_def find_update_def step_def guarded_deposit_def seed_trade_def limits_none_def no_deposit_ceiling_def price_band_def
  saturating_mul_def saturating_add_def

section \<open>Settlement\<close>

definition test_buy_rejected_when_broke :: "bool option" where
  "test_buy_rejected_when_broke = do {
     let e = test_engine;
     (e, res) \<leftarrow> submit 1 Bid Limit 100 10 e;
     Some (res = Inl InsufficientFunds \<and> bal e 1 USD = (0, 0))
   }"

lemma passes_buy_rejected_when_broke: "test_buy_rejected_when_broke = Some True"
  by (simp add: test_buy_rejected_when_broke_def engine_test_eval cong: eval_cong)

definition test_buy_taker_settles :: "bool option" where
  "test_buy_taker_settles = do {
     let e = test_engine;
     let e = fund SOL 2 10 e;
     (e, _) \<leftarrow> accepted (submit 2 Ask Limit 100 10 e);
     let e = fund USD 1 1000 e;
     (e, _) \<leftarrow> accepted (submit 1 Bid Limit 100 10 e);
     Some (bal e 1 USD = (0, 0) \<and> bal e 1 SOL = (10, 0) \<and> bal e 2 USD = (1000, 0) \<and> bal e 2 SOL = (0, 0))
   }"

lemma passes_buy_taker_settles: "test_buy_taker_settles = Some True"
  by (simp add: test_buy_taker_settles_def engine_test_eval cong: eval_cong)

definition test_sell_taker_settles :: "bool option" where
  "test_sell_taker_settles = do {
     let e = test_engine;
     let e = fund USD 1 1000 e;
     (e, _) \<leftarrow> accepted (submit 1 Bid Limit 100 10 e);
     let e = fund SOL 2 10 e;
     (e, _) \<leftarrow> accepted (submit 2 Ask Limit 100 10 e);
     Some (bal e 2 SOL = (0, 0) \<and> bal e 2 USD = (1000, 0) \<and> bal e 1 USD = (0, 0) \<and> bal e 1 SOL = (10, 0))
   }"

lemma passes_sell_taker_settles: "test_sell_taker_settles = Some True"
  by (simp add: test_sell_taker_settles_def engine_test_eval cong: eval_cong)

definition test_price_improvement_refund :: "bool option" where
  "test_price_improvement_refund = do {
     let e = test_engine;
     let e = fund SOL 2 10 e;
     (e, _) \<leftarrow> accepted (submit 2 Ask Limit 95 10 e);
     let e = fund USD 1 1000 e;
     (e, _) \<leftarrow> accepted (submit 1 Bid Limit 100 10 e);
     Some (bal e 1 USD = (50, 0) \<and> bal e 1 SOL = (10, 0) \<and> bal e 2 USD = (950, 0))
   }"

lemma passes_price_improvement_refund: "test_price_improvement_refund = Some True"
  by (simp add: test_price_improvement_refund_def engine_test_eval cong: eval_cong)

definition test_orders_in_different_pairs_do_not_match :: "bool option" where
  "test_orders_in_different_pairs_do_not_match = do {
     let e = test_engine;
     let e = listed other_pair e;
     let e = fund SOL 2 10 e;
     (e, _) \<leftarrow> accepted (submit_pair 2 test_pair Ask Limit 100 10 e);
     let e = fund SOL 1 1000 e;
     (e, res) \<leftarrow> accepted (submit_pair 1 other_pair Bid Limit 100 10 e);
     b1 \<leftarrow> books e test_pair;
     b2 \<leftarrow> books e other_pair;
     q1 \<leftarrow> bt_get (asks b1) 100;
     q2 \<leftarrow> bt_get (bids b2) 100;
     Some (mr_trades res = [] \<and> card (dom (books e)) = 2 \<and> length q1 = 1 \<and> length q2 = 1)
   }"

lemma passes_orders_in_different_pairs_do_not_match: "test_orders_in_different_pairs_do_not_match = Some True"
  by (simp add: test_orders_in_different_pairs_do_not_match_def engine_test_eval cong: eval_cong)

definition test_order_ids_unique_across_pairs :: "bool option" where
  "test_order_ids_unique_across_pairs = do {
     let e = test_engine;
     let e = listed other_pair e;
     let e = fund SOL 1 100 e;
     let e = fund USD 1 100 e;
     (e, a) \<leftarrow> accepted (submit_pair 1 test_pair Ask Limit 100 1 e);
     (e, b) \<leftarrow> accepted (submit_pair 1 other_pair Ask Limit 100 1 e);
     Some (mr_order_id a \<noteq> mr_order_id b)
   }"

lemma passes_order_ids_unique_across_pairs: "test_order_ids_unique_across_pairs = Some True"
  by (simp add: test_order_ids_unique_across_pairs_def engine_test_eval cong: eval_cong)

definition test_cancel_routes_to_correct_pair :: "bool option" where
  "test_cancel_routes_to_correct_pair = do {
     let e = test_engine;
     let e = listed other_pair e;
     let e = fund SOL 1 1000 e;
     (e, res) \<leftarrow> accepted (submit_pair 1 other_pair Bid Limit 10 5 e);
     let before = bal e 1 SOL;
     (e, _) \<leftarrow> cancelled 1 (mr_order_id res) e;
     Some (before = (950, 50) \<and> bal e 1 SOL = (1000, 0))
   }"

lemma passes_cancel_routes_to_correct_pair: "test_cancel_routes_to_correct_pair = Some True"
  by (simp add: test_cancel_routes_to_correct_pair_def engine_test_eval cong: eval_cong)

definition test_same_base_and_quote_rejected :: "bool option" where
  "test_same_base_and_quote_rejected = do {
     let e = test_engine;
     let e = fund SOL 1 100 e;
     (e, res) \<leftarrow> submit_pair 1 \<lparr>base = SOL, quote = SOL\<rparr> Ask Limit 10 1 e;
     Some (res = Inl InvalidPair)
   }"

lemma passes_same_base_and_quote_rejected: "test_same_base_and_quote_rejected = Some True"
  by (simp add: test_same_base_and_quote_rejected_def engine_test_eval cong: eval_cong)

definition test_cancel_releases_reserve :: "bool option" where
  "test_cancel_releases_reserve = do {
     let e = test_engine;
     let e = fund USD 1 1000 e;
     (e, res) \<leftarrow> accepted (submit 1 Bid Limit 100 10 e);
     let before = bal e 1 USD;
     (e, _) \<leftarrow> cancelled 1 (mr_order_id res) e;
     Some (before = (0, 1000) \<and> bal e 1 USD = (1000, 0))
   }"

lemma passes_cancel_releases_reserve: "test_cancel_releases_reserve = Some True"
  by (simp add: test_cancel_releases_reserve_def engine_test_eval cong: eval_cong)

definition test_partial_fill_updates_are_cumulative :: "bool option" where
  "test_partial_fill_updates_are_cumulative = do {
     let e = test_engine;
     let e = fund SOL 2 20 e;
     (e, maker) \<leftarrow> accepted (submit 2 Ask Limit 100 20 e);
     let e = fund USD 1 1000 e;
     (e, taker) \<leftarrow> accepted (submit 1 Bid Limit 100 6 e);
     m \<leftarrow> find_update taker (mr_order_id maker);
     t \<leftarrow> find_update taker (mr_order_id taker);
     (e, taker2) \<leftarrow> accepted (submit 1 Bid Limit 100 4 e);
     m2 \<leftarrow> find_update taker2 (mr_order_id maker);
     Some ((upd_filled_qty m, upd_remaining_size m) = (6, 14) \<and> upd_status m = PartiallyFilled \<and> (upd_filled_qty t, upd_remaining_size t) = (6, 0) \<and> upd_status t = Filled &
       (upd_filled_qty m2, upd_remaining_size m2) = (10, 10))
   }"

lemma passes_partial_fill_updates_are_cumulative: "test_partial_fill_updates_are_cumulative = Some True"
  by (simp add: test_partial_fill_updates_are_cumulative_def engine_test_eval cong: eval_cong)

definition test_untouched_resting_order_emits_no_update :: "bool option" where
  "test_untouched_resting_order_emits_no_update = do {
     let e = test_engine;
     let e = fund SOL 1 10 e;
     (e, res) \<leftarrow> accepted (submit 1 Ask Limit 100 10 e);
     Some (mr_updates res = [])
   }"

lemma passes_untouched_resting_order_emits_no_update: "test_untouched_resting_order_emits_no_update = Some True"
  by (simp add: test_untouched_resting_order_emits_no_update_def engine_test_eval cong: eval_cong)

definition test_market_leftover_is_cancelled_and_reserve_released :: "bool option" where
  "test_market_leftover_is_cancelled_and_reserve_released = do {
     let e = test_engine;
     let e = fund USD 2 1000 e;
     (e, _) \<leftarrow> accepted (submit 2 Bid Limit 100 4 e);
     let e = fund SOL 1 10 e;
     (e, res) \<leftarrow> accepted (submit 1 Ask Market 0 10 e);
     t \<leftarrow> find_update res (mr_order_id res);
     Some ((upd_filled_qty t, upd_remaining_size t) = (4, 6) \<and> upd_status t = Cancelled \<and> bal e 1 SOL = (6, 0) \<and> bal e 1 USD = (400, 0))
   }"

lemma passes_market_leftover_is_cancelled_and_reserve_released: "test_market_leftover_is_cancelled_and_reserve_released = Some True"
  by (simp add: test_market_leftover_is_cancelled_and_reserve_released_def engine_test_eval cong: eval_cong)

definition test_cancel_reports_partial_fill_then_cancelled :: "bool option" where
  "test_cancel_reports_partial_fill_then_cancelled = do {
     let e = test_engine;
     let e = fund SOL 1 10 e;
     (e, rested) \<leftarrow> accepted (submit 1 Ask Limit 100 10 e);
     let e = fund USD 2 1000 e;
     (e, _) \<leftarrow> accepted (submit 2 Bid Limit 100 3 e);
     (e, _, ord, _) \<leftarrow> cancelled 1 (mr_order_id rested) e;
     Some (ord_size ord - ord_remaining ord = 3 \<and> ord_remaining ord = 7 \<and> bal e 1 SOL = (7, 0))
   }"

lemma passes_cancel_reports_partial_fill_then_cancelled: "test_cancel_reports_partial_fill_then_cancelled = Some True"
  by (simp add: test_cancel_reports_partial_fill_then_cancelled_def engine_test_eval cong: eval_cong)

definition test_order_value_overflow_rejected :: "bool option" where
  "test_order_value_overflow_rejected = do {
     let e = test_engine;
     (e, res) \<leftarrow> submit 1 Bid Limit (- 1) 2 e;
     Some (res = Inl InvalidAmount \<and> bal e 1 USD = (0, 0))
   }"

lemma passes_order_value_overflow_rejected: "test_order_value_overflow_rejected = Some True"
  by (simp add: test_order_value_overflow_rejected_def engine_test_eval cong: eval_cong)

definition test_withdraw_any_currency :: "bool option" where
  "test_withdraw_any_currency = do {
     let e = test_engine;
     let e = fund SOL 1 10 e;
     let (l, r1) = ledger_withdraw 1 SOL 4 (eng_ledger e);
     let after = bal (e\<lparr>eng_ledger := l\<rparr>) 1 SOL;
     let (l, r2) = ledger_withdraw 1 SOL 100 l;
     let (l, r3) = ledger_withdraw 1 USD 1 l;
     Some (r1 = Inr () \<and> after = (6, 0) \<and> r2 = Inl InsufficientFunds \<and> r3 = Inl InsufficientFunds)
   }"

lemma passes_withdraw_any_currency: "test_withdraw_any_currency = Some True"
  by (simp add: test_withdraw_any_currency_def engine_test_eval cong: eval_cong)

definition test_market_buy_single_level :: "bool option" where
  "test_market_buy_single_level = do {
     let e = test_engine;
     let e = fund SOL 2 10 e;
     (e, _) \<leftarrow> accepted (submit 2 Ask Limit 100 10 e);
     let e = fund USD 1 1000 e;
     (e, res) \<leftarrow> accepted (submit 1 Bid Market 0 10 e);
     Some ((\<Sum>t \<leftarrow> mr_trades res. trd_qty t) = 10 \<and> bal e 1 USD = (0, 0) \<and> bal e 1 SOL = (10, 0) \<and> bal e 2 USD = (1000, 0))
   }"

lemma passes_market_buy_single_level: "test_market_buy_single_level = Some True"
  by (simp add: test_market_buy_single_level_def engine_test_eval cong: eval_cong)

definition test_market_buy_sweeps_multiple_levels :: "bool option" where
  "test_market_buy_sweeps_multiple_levels = do {
     let e = test_engine;
     let e = fund SOL 2 10 e;
     (e, _) \<leftarrow> accepted (submit 2 Ask Limit 100 5 e);
     (e, _) \<leftarrow> accepted (submit 2 Ask Limit 110 5 e);
     let e = fund USD 1 (5 * 100 + 5 * 110) e;
     (e, _) \<leftarrow> accepted (submit 1 Bid Market 0 10 e);
     Some (bal e 1 USD = (0, 0) \<and> bal e 1 SOL = (10, 0))
   }"

lemma passes_market_buy_sweeps_multiple_levels: "test_market_buy_sweeps_multiple_levels = Some True"
  by (simp add: test_market_buy_sweeps_multiple_levels_def engine_test_eval cong: eval_cong)

definition test_market_buy_insufficient_funds_rejected :: "bool option" where
  "test_market_buy_insufficient_funds_rejected = do {
     let e = test_engine;
     let e = fund SOL 2 10 e;
     (e, _) \<leftarrow> accepted (submit 2 Ask Limit 100 10 e);
     let e = fund USD 1 999 e;
     (e, res) \<leftarrow> submit 1 Bid Market 0 10 e;
     Some (res = Inl InsufficientFunds \<and> bal e 1 USD = (999, 0))
   }"

lemma passes_market_buy_insufficient_funds_rejected: "test_market_buy_insufficient_funds_rejected = Some True"
  by (simp add: test_market_buy_insufficient_funds_rejected_def engine_test_eval cong: eval_cong)

definition test_market_buy_partial_fill_no_stuck_reserve :: "bool option" where
  "test_market_buy_partial_fill_no_stuck_reserve = do {
     let e = test_engine;
     let e = fund SOL 2 5 e;
     (e, _) \<leftarrow> accepted (submit 2 Ask Limit 100 5 e);
     let e = fund USD 1 500 e;
     (e, res) \<leftarrow> accepted (submit 1 Bid Market 0 10 e);
     t \<leftarrow> find_update res (mr_order_id res);
     Some (mr_taker_remaining res = 5 \<and> upd_status t = Cancelled \<and> bal e 1 USD = (0, 0) \<and> bal e 1 SOL = (5, 0))
   }"

lemma passes_market_buy_partial_fill_no_stuck_reserve: "test_market_buy_partial_fill_no_stuck_reserve = Some True"
  by (simp add: test_market_buy_partial_fill_no_stuck_reserve_def engine_test_eval cong: eval_cong)

definition test_market_buy_empty_book :: "bool option" where
  "test_market_buy_empty_book = do {
     let e = test_engine;
     (e, res) \<leftarrow> accepted (submit 1 Bid Market 0 10 e);
     Some (mr_trades res = [] \<and> bal e 1 USD = (0, 0))
   }"

lemma passes_market_buy_empty_book: "test_market_buy_empty_book = Some True"
  by (simp add: test_market_buy_empty_book_def engine_test_eval cong: eval_cong)

definition test_conservation_across_trade :: "bool option" where
  "test_conservation_across_trade = do {
     let e = test_engine;
     let e = fund SOL 2 10 e;
     let e = fund USD 1 1000 e;
     (e, _) \<leftarrow> accepted (submit 2 Ask Limit 100 10 e);
     (e, _) \<leftarrow> accepted (submit 1 Bid Limit 100 10 e);
     Some (total e USD = 1000 \<and> total e SOL = 10)
   }"

lemma passes_conservation_across_trade: "test_conservation_across_trade = Some True"
  by (simp add: test_conservation_across_trade_def engine_test_eval cong: eval_cong)

section \<open>Numbering and batches\<close>

definition test_seq_increments_only_for_batches_with_events :: "bool option" where
  "test_seq_increments_only_for_batches_with_events = do {
     let e = engine_new;
     (e, _, batch1) \<leftarrow> step 1 1 (Deposit \<lparr>dep_amount = 100, dep_currency = USD\<rparr>) e;
     (e, _, batch2) \<leftarrow> step 1 2 (Deposit \<lparr>dep_amount = 50, dep_currency = USD\<rparr>) e;
     b1 \<leftarrow> batch1;
     b2 \<leftarrow> batch2;
     Some (batch_seq b1 = 0 \<and> batch_seq b2 = 1 \<and> next_seq e = 2)
   }"

lemma passes_seq_increments_only_for_batches_with_events: "test_seq_increments_only_for_batches_with_events = Some True"
  by (simp add: test_seq_increments_only_for_batches_with_events_def engine_test_eval cong: eval_cong)

definition test_noop_command_consumes_no_seq :: "bool option" where
  "test_noop_command_consumes_no_seq = do {
     let e = engine_new;
     (e, _, batch1) \<leftarrow> step 1 1 (Deposit \<lparr>dep_amount = 100, dep_currency = USD\<rparr>) e;
     b1 \<leftarrow> batch1;
     (e, resp, batch2) \<leftarrow> step 1 1 (Deposit \<lparr>dep_amount = 100, dep_currency = USD\<rparr>) e;
     let seq = next_seq e;
     (e, _, batch3) \<leftarrow> step 1 2 (Deposit \<lparr>dep_amount = 50, dep_currency = USD\<rparr>) e;
     b3 \<leftarrow> batch3;
     Some (batch_seq b1 = 0 \<and> resp = Duplicate \<and> batch2 = None \<and> seq = 1 \<and> batch_seq b3 = 1)
   }"

lemma passes_noop_command_consumes_no_seq: "test_noop_command_consumes_no_seq = Some True"
  by (simp add: test_noop_command_consumes_no_seq_def engine_test_eval cong: eval_cong)

definition test_resting_order_gets_one_batch :: "bool option" where
  "test_resting_order_gets_one_batch = do {
     let e = engine_new;
     let e = listed test_pair e;
     (e, _) \<leftarrow> step 1 1 (Deposit \<lparr>dep_amount = 10, dep_currency = SOL\<rparr>) e;
     (e, _, batch) \<leftarrow> step 1 2 (Place \<lparr>req_pair = test_pair, req_type = Limit, req_side = Ask, req_price = 100, req_size = 10\<rparr>) e;
     b \<leftarrow> batch;
     let evs = batch_events b;
     Some ((\<exists>ev \<in> set evs. is_OrderAccepted ev) \<and> (\<exists>ev \<in> set evs. is_BalanceChanged ev) \<and> (\<forall>ev \<in> set evs. \<not> is_Trade ev) \<and> (\<forall>ev \<in> set evs. \<not> is_OrderUpdated ev))
   }"

lemma passes_resting_order_gets_one_batch: "test_resting_order_gets_one_batch = Some True"
  by (simp add: test_resting_order_gets_one_batch_def engine_test_eval cong: eval_cong)

definition test_crossing_order_batches_accept_trade_and_both_updates_together :: "bool option" where
  "test_crossing_order_batches_accept_trade_and_both_updates_together = do {
     let e = engine_new;
     let e = listed test_pair e;
     (e, _) \<leftarrow> step 2 1 (Deposit \<lparr>dep_amount = 10, dep_currency = SOL\<rparr>) e;
     (e, _) \<leftarrow> step 2 2 (Place \<lparr>req_pair = test_pair, req_type = Limit, req_side = Ask, req_price = 100, req_size = 10\<rparr>) e;
     (e, _) \<leftarrow> step 1 3 (Deposit \<lparr>dep_amount = 1000, dep_currency = USD\<rparr>) e;
     (e, _, batch) \<leftarrow> step 1 4 (Place \<lparr>req_pair = test_pair, req_type = Limit, req_side = Bid, req_price = 100, req_size = 10\<rparr>) e;
     b \<leftarrow> batch;
     let evs = batch_events b;
     Some ((\<exists>ev \<in> set evs. is_OrderAccepted ev) \<and> (\<exists>ev \<in> set evs. is_Trade ev) \<and> length (filter is_OrderUpdated evs) = 2)
   }"

lemma passes_crossing_order_batches_accept_trade_and_both_updates_together: "test_crossing_order_batches_accept_trade_and_both_updates_together = Some True"
  by (simp add: test_crossing_order_batches_accept_trade_and_both_updates_together_def engine_test_eval cong: eval_cong)

section \<open>Listing\<close>

definition test_unlisted_pair_rejected :: "bool option" where
  "test_unlisted_pair_rejected = do {
     let e = engine_new;
     let e = fund SOL 1 1 e;
     (e, res) \<leftarrow> submit 1 Ask Limit 100 1 e;
     Some (res = Inl InvalidPair)
   }"

lemma passes_unlisted_pair_rejected: "test_unlisted_pair_rejected = Some True"
  by (simp add: test_unlisted_pair_rejected_def engine_test_eval cong: eval_cong)

definition test_listed_pair_accepted :: "bool option" where
  "test_listed_pair_accepted = do {
     let e = engine_new;
     (e, resp1, _) \<leftarrow> step 1 1 (ListPair test_pair) e;
     let e = fund SOL 1 1 e;
     (e, resp2, _) \<leftarrow> step 1 2 (Place \<lparr>req_pair = test_pair, req_type = Limit, req_side = Ask, req_price = 100, req_size = 1\<rparr>) e;
     Some (resp1 = ListPairR (Inr True) \<and> (\<exists>r. resp2 = PlaceR (Inr r)))
   }"

lemma passes_listed_pair_accepted: "test_listed_pair_accepted = Some True"
  by (simp add: test_listed_pair_accepted_def engine_test_eval cong: eval_cong)

definition test_relisting_is_idempotent :: "bool option" where
  "test_relisting_is_idempotent = do {
     let e = engine_new;
     (e, _) \<leftarrow> step 1 1 (ListPair test_pair) e;
     (e, resp, _) \<leftarrow> step 1 2 (ListPair test_pair) e;
     Some (resp = ListPairR (Inr False))
   }"

lemma passes_relisting_is_idempotent: "test_relisting_is_idempotent = Some True"
  by (simp add: test_relisting_is_idempotent_def engine_test_eval cong: eval_cong)

definition test_listing_invalid_pair_rejected :: "bool option" where
  "test_listing_invalid_pair_rejected = do {
     let e = engine_new;
     (e, resp, _) \<leftarrow> step 1 1 (ListPair \<lparr>base = SOL, quote = SOL\<rparr>) e;
     Some (resp = ListPairR (Inl InvalidPair))
   }"

lemma passes_listing_invalid_pair_rejected: "test_listing_invalid_pair_rejected = Some True"
  by (simp add: test_listing_invalid_pair_rejected_def engine_test_eval cong: eval_cong)

definition test_delisted_pair_rejected_again :: "bool option" where
  "test_delisted_pair_rejected_again = do {
     let e = engine_new;
     (e, _) \<leftarrow> step 1 1 (ListPair test_pair) e;
     (e, resp1, _) \<leftarrow> step 1 2 (DelistPair test_pair) e;
     let e = fund SOL 1 1 e;
     (e, resp2, _) \<leftarrow> step 1 3 (Place \<lparr>req_pair = test_pair, req_type = Limit, req_side = Ask, req_price = 100, req_size = 1\<rparr>) e;
     Some (resp1 = DelistPairR True \<and> resp2 = PlaceR (Inl InvalidPair))
   }"

lemma passes_delisted_pair_rejected_again: "test_delisted_pair_rejected_again = Some True"
  by (simp add: test_delisted_pair_rejected_again_def engine_test_eval cong: eval_cong)

definition test_delisting_unlisted_pair_reports_false :: "bool option" where
  "test_delisting_unlisted_pair_reports_false = do {
     let e = engine_new;
     (e, resp, _) \<leftarrow> step 1 1 (DelistPair test_pair) e;
     Some (resp = DelistPairR False)
   }"

lemma passes_delisting_unlisted_pair_reports_false: "test_delisting_unlisted_pair_reports_false = Some True"
  by (simp add: test_delisting_unlisted_pair_reports_false_def engine_test_eval cong: eval_cong)

section \<open>Abuse guards\<close>

definition test_deposit_up_to_ceiling_allowed :: "bool option" where
  "test_deposit_up_to_ceiling_allowed = do {
     let e = test_engine;
     let ceiling = deposit_ceiling (eng_limits e) USD;
     let (e, r) = guarded_deposit 1 USD ceiling e;
     Some (r = Inr ceiling)
   }"

lemma passes_deposit_up_to_ceiling_allowed: "test_deposit_up_to_ceiling_allowed = Some True"
  by (simp add: test_deposit_up_to_ceiling_allowed_def engine_test_eval cong: eval_cong)

definition test_deposit_past_ceiling_rejected :: "bool option" where
  "test_deposit_past_ceiling_rejected = do {
     let e = test_engine;
     let ceiling = deposit_ceiling (eng_limits e) USD;
     let (e, r) = guarded_deposit 1 USD (ceiling + 1) e;
     Some (r = Inl DepositLimitExceeded)
   }"

lemma passes_deposit_past_ceiling_rejected: "test_deposit_past_ceiling_rejected = Some True"
  by (simp add: test_deposit_past_ceiling_rejected_def engine_test_eval cong: eval_cong)

definition test_repeated_deposits_cannot_exceed_ceiling :: "bool option" where
  "test_repeated_deposits_cannot_exceed_ceiling = do {
     let e = test_engine;
     let ceiling = deposit_ceiling (eng_limits e) USD;
     let (e, r1) = guarded_deposit 1 USD ceiling e;
     let (e, r2) = guarded_deposit 1 USD 1 e;
     Some ((\<exists>x. r1 = Inr x) \<and> r2 = Inl DepositLimitExceeded)
   }"

lemma passes_repeated_deposits_cannot_exceed_ceiling: "test_repeated_deposits_cannot_exceed_ceiling = Some True"
  by (simp add: test_repeated_deposits_cannot_exceed_ceiling_def engine_test_eval cong: eval_cong)

definition test_reserved_funds_count_toward_ceiling :: "bool option" where
  "test_reserved_funds_count_toward_ceiling = do {
     let e = test_engine;
     let ceiling = deposit_ceiling (eng_limits e) SOL;
     let (e, r1) = guarded_deposit 1 SOL ceiling e;
     (e, _) \<leftarrow> accepted (submit 1 Ask Limit 100 ceiling e);
     let held_back = fst (bal e 1 SOL);
     let (e, r2) = guarded_deposit 1 SOL 1 e;
     Some ((\<exists>x. r1 = Inr x) \<and> held_back = 0 \<and> r2 = Inl DepositLimitExceeded)
   }"

lemma passes_reserved_funds_count_toward_ceiling: "test_reserved_funds_count_toward_ceiling = Some True"
  by (simp add: test_reserved_funds_count_toward_ceiling_def engine_test_eval cong: eval_cong)

definition test_can_top_back_up_after_spending :: "bool option" where
  "test_can_top_back_up_after_spending = do {
     let e = test_engine;
     let ceiling = deposit_ceiling (eng_limits e) USD;
     let (e, r1) = guarded_deposit 1 USD ceiling e;
     let (l, w) = ledger_withdraw 1 USD 500 (eng_ledger e);
     let (e, r2) = guarded_deposit 1 USD 500 (e\<lparr>eng_ledger := l\<rparr>);
     Some ((\<exists>x. r1 = Inr x) \<and> w = Inr () \<and> r2 = Inr ceiling)
   }"

lemma passes_can_top_back_up_after_spending: "test_can_top_back_up_after_spending = Some True"
  by (simp add: test_can_top_back_up_after_spending_def engine_test_eval cong: eval_cong)

definition test_no_band_before_first_trade :: "bool option" where
  "test_no_band_before_first_trade = do {
     let e = test_engine;
     let (e, r) = guarded_deposit 1 SOL 10 e;
     (e, res) \<leftarrow> submit 1 Ask Limit 99999 1 e;
     Some ((\<exists>x. r = Inr x) \<and> (\<exists>x. res = Inr x))
   }"

lemma passes_no_band_before_first_trade: "test_no_band_before_first_trade = Some True"
  by (simp add: test_no_band_before_first_trade_def engine_test_eval cong: eval_cong)

definition test_order_inside_band_accepted :: "bool option" where
  "test_order_inside_band_accepted = do {
     let e = test_engine;
     e \<leftarrow> seed_trade 100 e;
     let (e, r) = guarded_deposit 3 SOL 10 e;
     (e, res) \<leftarrow> submit 3 Ask Limit 119 1 e;
     Some ((\<exists>x. r = Inr x) \<and> (\<exists>x. res = Inr x))
   }"

lemma passes_order_inside_band_accepted: "test_order_inside_band_accepted = Some True"
  by (simp add: test_order_inside_band_accepted_def engine_test_eval cong: eval_cong)

definition test_order_outside_band_rejected :: "bool option" where
  "test_order_outside_band_rejected = do {
     let e = test_engine;
     e \<leftarrow> seed_trade 100 e;
     let (e, r) = guarded_deposit 3 SOL 10 e;
     (e, res) \<leftarrow> submit 3 Ask Limit 121 1 e;
     Some ((\<exists>x. r = Inr x) \<and> res = Inl PriceOutOfBand)
   }"

lemma passes_order_outside_band_rejected: "test_order_outside_band_rejected = Some True"
  by (simp add: test_order_outside_band_rejected_def engine_test_eval cong: eval_cong)

definition test_lowball_bid_rejected_by_band :: "bool option" where
  "test_lowball_bid_rejected_by_band = do {
     let e = test_engine;
     e \<leftarrow> seed_trade 100 e;
     let (e, r) = guarded_deposit 3 USD 1000 e;
     (e, res) \<leftarrow> submit 3 Bid Limit 1 1 e;
     Some ((\<exists>x. r = Inr x) \<and> res = Inl PriceOutOfBand)
   }"

lemma passes_lowball_bid_rejected_by_band: "test_lowball_bid_rejected_by_band = Some True"
  by (simp add: test_lowball_bid_rejected_by_band_def engine_test_eval cong: eval_cong)

definition test_band_rejection_reserves_nothing :: "bool option" where
  "test_band_rejection_reserves_nothing = do {
     let e = test_engine;
     e \<leftarrow> seed_trade 100 e;
     let (e, r) = guarded_deposit 3 USD 1000 e;
     (e, res) \<leftarrow> submit 3 Bid Limit 1 1 e;
     Some ((\<exists>x. r = Inr x) \<and> (\<exists>x. res = Inl x) \<and> bal e 3 USD = (1000, 0))
   }"

lemma passes_band_rejection_reserves_nothing: "test_band_rejection_reserves_nothing = Some True"
  by (simp add: test_band_rejection_reserves_nothing_def engine_test_eval cong: eval_cong)

definition test_self_trade_rejected :: "bool option" where
  "test_self_trade_rejected = do {
     let e = test_engine;
     let (e, r1) = guarded_deposit 1 SOL 10 e;
     let (e, r2) = guarded_deposit 1 USD 1000 e;
     (e, _) \<leftarrow> accepted (submit 1 Ask Limit 100 5 e);
     (e, res) \<leftarrow> submit 1 Bid Limit 100 5 e;
     Some ((\<exists>x. r1 = Inr x) \<and> (\<exists>x. r2 = Inr x) \<and> res = Inl SelfTrade)
   }"

lemma passes_self_trade_rejected: "test_self_trade_rejected = Some True"
  by (simp add: test_self_trade_rejected_def engine_test_eval cong: eval_cong)

definition test_own_resting_order_not_crossed_is_fine :: "bool option" where
  "test_own_resting_order_not_crossed_is_fine = do {
     let e = test_engine;
     let (e, r1) = guarded_deposit 1 SOL 10 e;
     let (e, r2) = guarded_deposit 1 USD 1000 e;
     (e, _) \<leftarrow> accepted (submit 1 Ask Limit 100 5 e);
     (e, res) \<leftarrow> submit 1 Bid Limit 90 5 e;
     Some ((\<exists>x. r1 = Inr x) \<and> (\<exists>x. r2 = Inr x) \<and> (\<exists>x. res = Inr x))
   }"

lemma passes_own_resting_order_not_crossed_is_fine: "test_own_resting_order_not_crossed_is_fine = Some True"
  by (simp add: test_own_resting_order_not_crossed_is_fine_def engine_test_eval cong: eval_cong)

definition test_market_order_self_trade_rejected :: "bool option" where
  "test_market_order_self_trade_rejected = do {
     let e = test_engine;
     let (e, r1) = guarded_deposit 1 SOL 10 e;
     let (e, r2) = guarded_deposit 1 USD 1000 e;
     (e, _) \<leftarrow> accepted (submit 1 Ask Limit 100 5 e);
     (e, res) \<leftarrow> submit 1 Bid Market 0 1 e;
     Some ((\<exists>x. r1 = Inr x) \<and> (\<exists>x. r2 = Inr x) \<and> res = Inl SelfTrade)
   }"

lemma passes_market_order_self_trade_rejected: "test_market_order_self_trade_rejected = Some True"
  by (simp add: test_market_order_self_trade_rejected_def engine_test_eval cong: eval_cong)

definition test_self_trade_detected_behind_another_account :: "bool option" where
  "test_self_trade_detected_behind_another_account = do {
     let e = test_engine;
     let (e, r0) = guarded_deposit 2 SOL 10 e;
     let (e, r1) = guarded_deposit 1 SOL 10 e;
     let (e, r2) = guarded_deposit 1 USD 1000 e;
     (e, _) \<leftarrow> accepted (submit 2 Ask Limit 100 1 e);
     (e, _) \<leftarrow> accepted (submit 1 Ask Limit 101 5 e);
     (e, res) \<leftarrow> submit 1 Bid Limit 101 4 e;
     Some ((\<exists>x. r0 = Inr x) \<and> (\<exists>x. r1 = Inr x) \<and> (\<exists>x. r2 = Inr x) \<and> res = Inl SelfTrade)
   }"

lemma passes_self_trade_detected_behind_another_account: "test_self_trade_detected_behind_another_account = Some True"
  by (simp add: test_self_trade_detected_behind_another_account_def engine_test_eval cong: eval_cong)

definition test_no_self_trade_when_filled_before_reaching_own_order :: "bool option" where
  "test_no_self_trade_when_filled_before_reaching_own_order = do {
     let e = test_engine;
     let (e, r0) = guarded_deposit 2 SOL 10 e;
     let (e, r1) = guarded_deposit 1 SOL 10 e;
     let (e, r2) = guarded_deposit 1 USD 1000 e;
     (e, _) \<leftarrow> accepted (submit 2 Ask Limit 100 5 e);
     (e, _) \<leftarrow> accepted (submit 1 Ask Limit 101 5 e);
     (e, res) \<leftarrow> submit 1 Bid Limit 101 5 e;
     Some ((\<exists>x. r0 = Inr x) \<and> (\<exists>x. r1 = Inr x) \<and> (\<exists>x. r2 = Inr x) \<and> (\<exists>x. res = Inr x))
   }"

lemma passes_no_self_trade_when_filled_before_reaching_own_order: "test_no_self_trade_when_filled_before_reaching_own_order = Some True"
  by (simp add: test_no_self_trade_when_filled_before_reaching_own_order_def engine_test_eval cong: eval_cong)

definition test_limits_none_disables_every_guard :: "bool option" where
  "test_limits_none_disables_every_guard = do {
     let e = test_engine\<lparr>eng_limits := limits_none\<rparr>;
     let (e, r1) = guarded_deposit 1 USD (- 1 div 4) e;
     let (e, r2) = guarded_deposit 1 SOL (- 1 div 4) e;
     (e, _) \<leftarrow> accepted (submit 1 Ask Limit 100 5 e);
     (e, res) \<leftarrow> submit 1 Bid Limit 100 5 e;
     Some ((\<exists>x. r1 = Inr x) \<and> (\<exists>x. r2 = Inr x) \<and> (\<exists>x. res = Inr x))
   }"

lemma passes_limits_none_disables_every_guard: "test_limits_none_disables_every_guard = Some True"
  by (simp add: test_limits_none_disables_every_guard_def engine_test_eval cong: eval_cong)

section \<open>Candle widths and stream ids\<close>

definition test_every_label_maps_to_a_maintained_width :: bool where
  "test_every_label_maps_to_a_maintained_width \<longleftrightarrow>
     list_all (\<lambda>label. case interval_seconds label of None \<Rightarrow> False | Some secs \<Rightarrow> secs \<in> set interval_widths)
       [''1s'', ''15m'', ''1h'', ''4h'', ''1d'', ''1w''] \<and>
     length interval_widths = 6"

lemma passes_every_label_maps_to_a_maintained_width: "test_every_label_maps_to_a_maintained_width"
  by (simp add: test_every_label_maps_to_a_maintained_width_def interval_seconds_def interval_widths_def)

definition test_unknown_label_is_rejected :: bool where
  "test_unknown_label_is_rejected \<longleftrightarrow> interval_seconds ''1m'' = None \<and> interval_seconds [] = None"

lemma passes_unknown_label_is_rejected: "test_unknown_label_is_rejected"
  by (simp add: test_unknown_label_is_rejected_def interval_seconds_def)

definition test_picks_the_earlier_id :: bool where
  "test_picks_the_earlier_id \<longleftrightarrow> earlier ''100-0'' ''200-0'' = ''100-0'' \<and> earlier ''200-0'' ''100-0'' = ''100-0''"

lemma passes_picks_the_earlier_id: "test_picks_the_earlier_id"
  by (simp add: test_picks_the_earlier_id_def earlier_def parse_id_def parse_u64_def parse_digits_def digit_val_def)

definition test_compares_the_sequence_part :: bool where
  "test_compares_the_sequence_part \<longleftrightarrow> earlier ''100-5'' ''100-2'' = ''100-2'' \<and> earlier ''100-2'' ''100-5'' = ''100-2''"

lemma passes_compares_the_sequence_part: "test_compares_the_sequence_part"
  by (simp add: test_compares_the_sequence_part_def earlier_def parse_id_def parse_u64_def parse_digits_def digit_val_def)

definition test_equal_ids_are_their_own_earlier :: bool where
  "test_equal_ids_are_their_own_earlier \<longleftrightarrow> earlier ''100-1'' ''100-1'' = ''100-1''"

lemma passes_equal_ids_are_their_own_earlier: "test_equal_ids_are_their_own_earlier"
  by (simp add: test_equal_ids_are_their_own_earlier_def earlier_def parse_id_def parse_u64_def parse_digits_def digit_val_def)

definition test_survives_a_millisecond_digit_rollover :: bool where
  "test_survives_a_millisecond_digit_rollover \<longleftrightarrow>
     (let before = ''9999999999999-0''; after = ''10000000000000-0''
      in before > after \<and> earlier before after = before \<and> earlier after before = before)"

lemma passes_survives_a_millisecond_digit_rollover: "test_survives_a_millisecond_digit_rollover"
  by (simp add: test_survives_a_millisecond_digit_rollover_def earlier_def parse_id_def parse_u64_def parse_digits_def digit_val_def)

definition test_unparseable_id_falls_back_to_first :: bool where
  "test_unparseable_id_falls_back_to_first \<longleftrightarrow> earlier ''100-0'' ''garbage'' = ''100-0''"

lemma passes_unparseable_id_falls_back_to_first: "test_unparseable_id_falls_back_to_first"
  by (simp add: test_unparseable_id_falls_back_to_first_def earlier_def parse_id_def parse_u64_def parse_digits_def digit_val_def)

end
