(* ===== verification/Codec_Tests.thy ===== *)
theory Codec_Tests
  imports Engine_Codec Engine_Tests
begin

text \<open>
  The unit tests whose subject is the JSON encoding (\<open>wire_tests\<close> of \<open>src/command.rs\<close>, \<open>snapshot_tests\<close> of
  \<open>src/engine.rs\<close>), in the form of \<open>Book_Tests\<close>, for every text form and every iteration order of the hash containers; and the
  test of the idempotency window, a thousand commands, by the correspondence of the window with the history of accepted keys.
\<close>

section \<open>Messages\<close>

definition test_envelope :: command_envelope where
  "test_envelope =
     \<lparr>env_correlation_id = 0, env_account_id = 7, env_client_order_id = 42,
      env_command = Place \<lparr>req_pair = test_pair, req_type = Limit, req_side = Bid, req_price = 100, req_size = 10\<rparr>\<rparr>"

definition test_place_command_round_trips :: "text_forms \<Rightarrow> bool option" where
  "test_place_command_round_trips tf = do {
     let json = tf_print tf (ser_command_envelope (tf_text tf) test_envelope);
     back \<leftarrow> Option.bind (tf_parse tf json) (de_command_envelope (tf_of_text tf));
     Some (env_correlation_id back = 0 \<and> env_account_id back = 7 \<and> env_client_order_id back = 42 \<and>
       (case env_command back of Place req \<Rightarrow> req_side req = Bid \<and> req_price req = 100 \<and> req_size req = 10 | _ \<Rightarrow> False))
   }"

lemma passes_place_command_round_trips: "text_ok tf \<Longrightarrow> test_place_command_round_trips tf = Some True"
  by (simp add: test_place_command_round_trips_def text_ok_def envelopes_back) (simp add: test_envelope_def)

definition test_reject_response_round_trips :: "text_forms \<Rightarrow> bool option" where
  "test_reject_response_round_trips tf = do {
     let json = tf_print tf (ser_command_response (PlaceR (Inl InsufficientFunds)));
     back \<leftarrow> Option.bind (tf_parse tf json) de_command_response;
     Some (back = PlaceR (Inl InsufficientFunds))
   }"

lemma passes_reject_response_round_trips: "text_ok tf \<Longrightarrow> test_reject_response_round_trips tf = Some True"
  by (simp add: test_reject_response_round_trips_def text_ok_def command_response_json.de_ser del: ser_command_response.simps)

section \<open>Snapshots\<close>

definition script_rung :: "nat \<Rightarrow> (account_id \<times> u64 \<times> command) list" where
  "script_rung i =
     [(2, of_nat (4 + 2 * i), Place \<lparr>req_pair = test_pair, req_type = Limit, req_side = Ask, req_price = 100 + of_nat i, req_size = 3\<rparr>),
      (1, of_nat (5 + 2 * i), Place \<lparr>req_pair = test_pair, req_type = Limit, req_side = Bid, req_price = 90 + of_nat i, req_size = 2\<rparr>)]"

definition script :: "(account_id \<times> u64 \<times> command) list" where
  "script =
     [(1, 1, ListPair test_pair),
      (1, 2, Deposit \<lparr>dep_amount = 50000, dep_currency = USD\<rparr>),
      (2, 3, Deposit \<lparr>dep_amount = 500, dep_currency = SOL\<rparr>)] @
     concat (map script_rung [0..<8]) @
     [(1, 20, Place \<lparr>req_pair = test_pair, req_type = Limit, req_side = Bid, req_price = 104, req_size = 5\<rparr>)]"

fun run_script :: "(account_id \<times> u64 \<times> command) list \<Rightarrow> engine \<Rightarrow> engine option" where
  "run_script [] e = Some e"
| "run_script ((account, cid, cmd) # cmds) e = do {
     cmd \<leftarrow> de_command (ser_command cmd);
     (e, _) \<leftarrow> step account cid cmd e;
     run_script cmds e
   }"

definition round_trip :: "text_forms \<Rightarrow> hash_orders \<Rightarrow> engine \<Rightarrow> engine option" where
  "round_trip tf ho e = Option.bind (tf_parse tf (tf_print tf (ser_engine ho e))) de_engine"

text \<open>The serialized engine with the elements of its hash containers in a fixed order; the code sorts the sets by their text, and
  the maps are sorted by \<open>serde_json\<close>.\<close>

definition state :: "engine \<Rightarrow> json" where
  "state e = ser_engine demo_orders e"

text \<open>What the runs of the script end in, as far as the tests look.\<close>

definition script_log :: "(account_id \<times> u64 \<times> command) list \<Rightarrow> log_entry list" where
  "script_log cmds = map (\<lambda>x. (sorted_hashing, x)) cmds"

lemma run_script_run: "run_script cmds e = map_option fst (engine_run (script_log cmds) e)"
proof (induction cmds arbitrary: e)
  case (Cons x cmds)
  obtain a i cmd where x: "x = (a, i, cmd)" by (cases x)
  show ?case
    by (cases "engine_apply sorted_hashing a i cmd e") (auto simp: x script_log_def step_def command_json.de_ser Cons.IH split: option.split)
qed (simp add: script_log_def)

lemma script_log_ok: "hashing_ok (script_log cmds)" "length (script_log cmds) = length cmds"
  by (auto simp: hashing_ok_def script_log_def sorted_hashing_def)

lemma round_trip_back: "text_ok tf \<Longrightarrow> orders_ok ho \<Longrightarrow> engine_value e \<Longrightarrow> round_trip tf ho e = Some (serde_skip e)"
  by (simp add: round_trip_def text_ok_def engine_back)

lemma round_trip_run:
  assumes "text_ok tf" "orders_ok ho" "run_script cmds engine_new = Some e" "length cmds \<le> 10 ^ 14"
  shows "round_trip tf ho e = Some e"
proof -
  have len: "length (script_log cmds) \<le> 10 ^ 14" using assms(4) by (simp add: script_log_ok)
  obtain e' outs where r: "engine_run (script_log cmds) engine_new = Some (e', outs)" "settled e'" "eng_limits e' = limits_default"
    by (rule run_from_new [OF script_log_ok(1) len])
  then have "e' = e" using assms(3) by (simp add: run_script_run)
  then show ?thesis using r assms(1,2) round_trip_back [of tf ho e] serde_skip_settled [of e]
    by (simp add: settled_def engine_value_inv)
qed

text \<open>No limit stops the script, as long as its two deposits are allowed: there is no last price until its last order.\<close>

lemma out_of_band_first: "last_trade_price b = None \<Longrightarrow> out_of_band lim req b = False"
  by (simp add: out_of_band_def split: option.split)

lemma script_end:
  assumes "\<not> f USD < 50000" "\<not> f SOL < 500"
  shows "\<exists>e b. run_script script (engine_new\<lparr>eng_limits := \<lparr>deposit_ceiling = f, price_band_bps = x, prevent_self_trade = y\<rparr>\<rparr>) = Some e \<and>
    books e test_pair = Some b \<and> dom (books e) = {test_pair} \<and> book_value b \<and> last_trade_price b = Some 101"
  using assms
  by (simp add: script_def script_rung_def upt_rec command_json.de_ser engine_test_eval out_of_band_first book_value_def
      del: ser_command.simps out_of_band_def cong: eval_cong)

lemma script_end_of:
  assumes "lim \<in> {limits_default, limits_none}"
  obtains e b where "run_script script (engine_new\<lparr>eng_limits := lim\<rparr>) = Some e" "books e test_pair = Some b" "last_trade_price b = Some 101"
    "engine_value e"
proof -
  have "\<not> deposit_ceiling lim USD < 50000" "\<not> deposit_ceiling lim SOL < 500"
    using assms by (auto simp: limits_default_def limits_none_def no_deposit_ceiling_def)
  moreover have "\<lparr>deposit_ceiling = deposit_ceiling lim, price_band_bps = price_band_bps lim, prevent_self_trade = prevent_self_trade lim\<rparr> = lim"
    by simp
  ultimately obtain e b where e: "run_script script (engine_new\<lparr>eng_limits := lim\<rparr>) = Some e" "books e test_pair = Some b" "dom (books e) = {test_pair}"
    "book_value b" "last_trade_price b = Some 101"
    using script_end [of "deposit_ceiling lim" "price_band_bps lim" "prevent_self_trade lim"] by metis
  have "book_value b'" if "books e p = Some b'" for p b'
  proof -
    have "p = test_pair" using that e(3) by (auto simp: dom_def)
    then show ?thesis using that e(2,4) by simp
  qed
  then show thesis using that e by (simp add: engine_value_def)
qed

lemma script_end_default:
  obtains e b where "run_script script engine_new = Some e" "books e test_pair = Some b" "last_trade_price b = Some 101" "engine_value e"
proof -
  have "engine_new\<lparr>eng_limits := limits_default\<rparr> = engine_new" by (simp add: engine_new_def)
  then show thesis using script_end_of [of limits_default] that by auto
qed

definition test_engine_survives_json_round_trip :: "text_forms \<Rightarrow> hash_orders \<Rightarrow> bool option" where
  "test_engine_survives_json_round_trip tf ho = do {
     e \<leftarrow> run_script script engine_new;
     b \<leftarrow> books e test_pair;
     back \<leftarrow> round_trip tf ho e;
     Some (last_trade_price b \<noteq> None \<and> state e = state back)
   }"

lemma script_length: "length script \<le> 10 ^ 14"
  by (simp add: script_def script_rung_def upt_rec)

lemma passes_engine_survives_json_round_trip:
  assumes "text_ok tf" "orders_ok ho"
  shows "test_engine_survives_json_round_trip tf ho = Some True"
proof -
  obtain e b where "run_script script engine_new = Some e" "books e test_pair = Some b" "last_trade_price b = Some 101"
    by (rule script_end_default)
  then show ?thesis using round_trip_run [OF assms _ script_length] by (simp add: test_engine_survives_json_round_trip_def)
qed

definition test_resume_from_snapshot_matches_full_replay :: "text_forms \<Rightarrow> hash_orders \<Rightarrow> bool option" where
  "test_resume_from_snapshot_matches_full_replay tf ho = do {
     let split = length script div 2;
     full \<leftarrow> run_script script engine_new;
     resumed \<leftarrow> run_script (take split script) engine_new;
     resumed \<leftarrow> round_trip tf ho resumed;
     resumed \<leftarrow> run_script (drop split script) resumed;
     Some (state full = state resumed)
   }"

lemma run_script_append: "run_script (xs @ ys) e = Option.bind (run_script xs e) (run_script ys)"
  by (auto simp: run_script_run script_log_def engine_run_append split: option.split)

lemma passes_resume_from_snapshot_matches_full_replay:
  assumes "text_ok tf" "orders_ok ho"
  shows "test_resume_from_snapshot_matches_full_replay tf ho = Some True"
proof -
  let ?pre = "take (length script div 2) script" and ?post = "drop (length script div 2) script"
  obtain full where full: "run_script script engine_new = Some full" by (rule script_end_default)
  then have "Option.bind (run_script ?pre engine_new) (run_script ?post) = Some full"
    using run_script_append [of ?pre ?post engine_new] by simp
  then obtain half where half: "run_script ?pre engine_new = Some half" "run_script ?post half = Some full"
    by (auto simp: bind_eq_Some_conv)
  have "length ?pre \<le> 10 ^ 14" using script_length by simp
  then show ?thesis
    using round_trip_run [OF assms half(1)] full half by (simp add: test_resume_from_snapshot_matches_full_replay_def Let_def)
qed

definition test_scratch_fields_are_not_persisted :: "text_forms \<Rightarrow> hash_orders \<Rightarrow> bool option" where
  "test_scratch_fields_are_not_persisted tf ho = do {
     e \<leftarrow> run_script script engine_new;
     let e = e\<lparr>eng_ledger := mark_dirty 1 USD (eng_ledger e)\<rparr>;
     b \<leftarrow> books e test_pair;
     let e = e\<lparr>books := (books e)(test_pair \<mapsto> b\<lparr>dirty_levels := insert (Bid, 100) (dirty_levels b)\<rparr>)\<rparr>;
     restored \<leftarrow> round_trip tf ho e;
     b \<leftarrow> books restored test_pair;
     Some (ledger_dirty (eng_ledger restored) = {} \<and> dirty_levels b = {})
   }"

lemma passes_scratch_fields_are_not_persisted:
  assumes "text_ok tf" "orders_ok ho"
  shows "test_scratch_fields_are_not_persisted tf ho = Some True"
proof -
  obtain e b where e: "run_script script engine_new = Some e" "books e test_pair = Some b" "engine_value e"
    by (rule script_end_default)
  let ?e = "e\<lparr>eng_ledger := mark_dirty 1 USD (eng_ledger e),
      books := (books e)(test_pair \<mapsto> b\<lparr>dirty_levels := insert (Bid, 100) (dirty_levels b)\<rparr>)\<rparr>"
  have "engine_value ?e" using e by (auto simp: engine_value_def book_value_def)
  then have "round_trip tf ho ?e = Some (serde_skip ?e)" by (rule round_trip_back [OF assms])
  then show ?thesis using e by (simp add: test_scratch_fields_are_not_persisted_def Let_def mark_dirty_def serde_skip_def)
qed

definition test_limits_come_from_config_not_snapshot :: "text_forms \<Rightarrow> hash_orders \<Rightarrow> bool option" where
  "test_limits_come_from_config_not_snapshot tf ho = do {
     e \<leftarrow> run_script script (engine_new\<lparr>eng_limits := limits_none\<rparr>);
     back \<leftarrow> round_trip tf ho e;
     Some (price_band_bps (eng_limits back) \<noteq> None)
   }"

lemma passes_limits_come_from_config_not_snapshot:
  assumes "text_ok tf" "orders_ok ho"
  shows "test_limits_come_from_config_not_snapshot tf ho = Some True"
proof -
  obtain e where "run_script script (engine_new\<lparr>eng_limits := limits_none\<rparr>) = Some e" "engine_value e"
    using script_end_of [of limits_none] by auto
  then show ?thesis using round_trip_back [OF assms, of e]
    by (simp add: test_limits_come_from_config_not_snapshot_def serde_skip_def limits_default_def)
qed

definition test_save_load_file_round_trip :: "text_forms \<Rightarrow> hash_orders \<Rightarrow> string \<Rightarrow> files \<Rightarrow> bool option" where
  "test_save_load_file_round_trip tf ho path fs = do {
     e \<leftarrow> run_script script engine_new;
     let (ops, saved) = save_ops (enc_state (json_codec tf ho)) path ''1234-0'' e;
     loaded \<leftarrow> load (dec_state (json_codec tf ho)) path (fold fs_step ops fs);
     Some (saved \<and> sn_last_id loaded = ''1234-0'' \<and> state e = state (sn_state loaded))
   }"

lemma passes_save_load_file_round_trip:
  assumes "text_ok tf" "orders_ok ho" "with_extension ''tmp'' path \<noteq> path"
  shows "test_save_load_file_round_trip tf ho path fs = Some True"
proof -
  let ?c = "json_codec tf ho"
  obtain e where e: "run_script script engine_new = Some e" "engine_value e" by (rule script_end_default)
  have r: "round_trip tf ho e = Some e" by (rule round_trip_run [OF assms(1,2) e(1) script_length])
  then have skip: "serde_skip e = e" using round_trip_back [OF assms(1,2) e(2)] by simp
  obtain ops where ops: "save_ops (enc_state ?c) path ''1234-0'' e = (ops, True)"
    using e(2) by (simp add: save_ops_def json_codec_def Let_def)
  then obtain bytes where b: "enc_state ?c \<lparr>sn_version = snapshot_version, sn_last_id = ''1234-0'', sn_state = e\<rparr> = Some bytes"
    "fold fs_step ops fs path = Some bytes" using save_ops_last [OF ops assms(3), of fs] by auto
  have "codec_ok ?c None" by (rule json_codec_ok [OF assms(1,2) demo_paths])
  then have "dec_state ?c bytes = Some \<lparr>sn_version = snapshot_version, sn_last_id = ''1234-0'', sn_state = e\<rparr>"
    using b(1) skip by (auto simp: codec_ok_def serde_roundtrip_def)
  then show ?thesis using e(1) ops b(2) by (simp add: test_save_load_file_round_trip_def load_def)
qed

definition test_missing_snapshot_loads_as_none :: "text_forms \<Rightarrow> hash_orders \<Rightarrow> bool" where
  "test_missing_snapshot_loads_as_none tf ho \<longleftrightarrow>
     load (dec_state (json_codec tf ho)) ''/tmp/engine-snap-does-not-exist.json'' Map.empty = None"

lemma passes_missing_snapshot_loads_as_none: "test_missing_snapshot_loads_as_none tf ho"
  by (simp add: test_missing_snapshot_loads_as_none_def load_def)

definition test_corrupt_snapshot_loads_as_none :: "text_forms \<Rightarrow> hash_orders \<Rightarrow> string \<Rightarrow> bool" where
  "test_corrupt_snapshot_loads_as_none tf ho path \<longleftrightarrow>
     load (dec_state (json_codec tf ho)) path [path \<mapsto> ''{not json''] = None"

lemma passes_corrupt_snapshot_loads_as_none:
  "tf_parse tf ''{not json'' = None \<Longrightarrow> test_corrupt_snapshot_loads_as_none tf ho path"
  by (simp add: test_corrupt_snapshot_loads_as_none_def load_def json_codec_def)

section \<open>The idempotency window\<close>

fun is_deposit_response :: "command_response \<Rightarrow> bool" where
  "is_deposit_response (DepositR _) = True"
| "is_deposit_response _ = False"

definition window_deposit :: "nat \<Rightarrow> log_entry" where
  "window_deposit i = (sorted_hashing, 1, of_nat i, Deposit \<lparr>dep_amount = 1, dep_currency = USD\<rparr>)"

definition test_dedup_window_evicts_oldest_client_order_id :: "bool option" where
  "test_dedup_window_evicts_oldest_client_order_id = do {
     (e, outs) \<leftarrow> engine_run (map window_deposit [1..<Suc dedup_window]) engine_new;
     (e, outs1) \<leftarrow> engine_run [window_deposit 1, window_deposit (Suc dedup_window), window_deposit 1] e;
     Some ((\<forall>out \<in> set outs. is_deposit_response (fst out)) \<and>
       map (\<lambda>out. is_deposit_response (fst out)) outs1 = [False, True, True] \<and> fst (hd outs1) = Duplicate)
   }"


lemma deposit_responses:
  assumes "engine_run (map (\<lambda>i. (sorted_hashing, a, i, Deposit req)) is) e = Some (e', outs)"
  shows "map (\<lambda>out. is_deposit_response (fst out)) outs = insert_all (\<lambda>s a i. dedup_insert a i s) (map (Pair a) is) (eng_dedup e) \<and>
    (\<forall>out \<in> set outs. is_deposit_response (fst out) \<or> fst out = Duplicate)"
  using assms
proof (induction "is" arbitrary: e outs)
  case (Cons i "is")
  obtain dd new where dd: "dedup_insert a i (eng_dedup e) = (dd, new)" by fastforce
  from Cons.prems obtain e1 resp batch outs1 where
    s: "engine_apply sorted_hashing a i (Deposit req) e = Some (e1, resp, batch)"
      "engine_run (map (\<lambda>i. (sorted_hashing, a, i, Deposit req)) is) e1 = Some (e', outs1)" "outs = (resp, batch) # outs1"
    by (auto split: option.splits prod.splits)
  have "eng_dedup e1 = dd \<and> is_deposit_response resp = new \<and> (is_deposit_response resp \<or> resp = Duplicate)"
  proof (cases new)
    case True
    then show ?thesis using s(1) dd
      by (auto simp: engine_apply_def engine_deposit_def finish_batch_def take_dirty_def Let_def split: option.splits if_splits prod.splits)
  next
    case False
    then have "dd = eng_dedup e" using dd by (auto simp: dedup_insert_def Let_def split: if_splits)
    then show ?thesis using False s(1) dd by (auto simp: engine_apply_def)
  qed
  then show ?case using Cons.IH [OF s(2)] s(3) dd by auto
qed simp

lemma fresh_keys:
  "distinct (hist a @ is) \<Longrightarrow> insert_all (\<lambda>s a i. history_insert a i s) (map (Pair a) is @ ks) hist =
   replicate (length is) True @ insert_all (\<lambda>s a i. history_insert a i s) ks (hist(a := hist a @ is))"
proof (induction "is" arbitrary: hist)
  case (Cons i "is")
  have "i \<notin> set (last_n dedup_window (hist a))" using Cons.prems by (auto simp: last_n_def dest: in_set_dropD)
  then have h: "history_insert a i hist = (hist(a := hist a @ [i]), True)" by (simp add: history_insert_def)
  have "distinct ((hist(a := hist a @ [i])) a @ is)" using Cons.prems by simp
  note Cons.IH [of "hist(a := hist a @ [i])", OF this]
  then show ?case by (simp add: h del: fun_upd_apply) simp
qed simp

lemma window_key_inj: "i < 2 ^ 64 \<Longrightarrow> j < 2 ^ 64 \<Longrightarrow> (of_nat i :: u64) = of_nat j \<longleftrightarrow> i = j"
proof -
  have "unat (of_nat n :: u64) = n" if "n < 2 ^ 64" for n
    using unat_of_nat [of n, where 'a = 64] that by simp
  then show "i < 2 ^ 64 \<Longrightarrow> j < 2 ^ 64 \<Longrightarrow> (of_nat i :: u64) = of_nat j \<longleftrightarrow> i = j" by metis
qed

definition window_ids :: "u64 list" where
  "window_ids = map of_nat [1..<Suc dedup_window]"

lemma window_ids: "distinct (window_ids @ [of_nat (Suc dedup_window)])" "length window_ids = dedup_window" "window_ids = 1 # tl window_ids"
proof -
  have "window_ids @ [of_nat (Suc dedup_window)] = map of_nat [1..<Suc (Suc dedup_window)]" by (simp add: window_ids_def)
  also have "distinct \<dots>"
  proof -
    have "Suc (Suc dedup_window) < 2 ^ 64" by (simp add: dedup_window_def)
    then have "inj_on (of_nat :: nat \<Rightarrow> u64) (set [1..<Suc (Suc dedup_window)])"
      by (intro inj_onI, subst (asm) window_key_inj) (simp_all only: set_upt atLeastLessThan_iff, linarith+)
    then show ?thesis by (simp only: distinct_map distinct_upt simp_thms)
  qed
  finally show "distinct (window_ids @ [of_nat (Suc dedup_window)])" .
  show "length window_ids = dedup_window" by (simp add: window_ids_def)
  show "window_ids = 1 # tl window_ids" unfolding window_ids_def dedup_window_def upt_rec [of 1] by (simp del: upt_Suc)
qed

text \<open>The decisions on the keys of the test, by the history of accepted keys.\<close>

lemma window_decisions:
  "insert_all (\<lambda>s a i. dedup_insert a i s) (map (Pair 1) (window_ids @ [1, of_nat (Suc dedup_window), 1])) dedup_new =
   replicate dedup_window True @ [False, True, True]"
proof -
  let ?next = "of_nat (Suc dedup_window) :: u64" and ?h = "(\<lambda>_. [])(1 := window_ids)"
  have "insert_all (\<lambda>s a i. history_insert a i s) (map (Pair 1) window_ids @ map (Pair 1) [1, ?next, 1]) (\<lambda>_. []) =
      replicate dedup_window True @ insert_all (\<lambda>s a i. history_insert a i s) (map (Pair 1) [1, ?next, 1]) ?h"
    using fresh_keys [of "\<lambda>_. []" 1 window_ids "map (Pair 1) [1, ?next, 1]"] window_ids(1,2) by simp
  moreover have "1 \<in> set (last_n dedup_window window_ids)" "?next \<notin> set (last_n dedup_window window_ids)"
    using window_ids by (simp_all add: last_n_def) (metis list.set_intros(1))
  moreover have "1 \<notin> set (last_n dedup_window (window_ids @ [?next]))"
  proof -
    have "last_n dedup_window (window_ids @ [?next]) = tl (window_ids @ [?next])"
      using window_ids(2) by (intro last_n_full) (simp_all add: dedup_window_def)
    then show ?thesis using window_ids(1,3) by (metis append_Cons distinct.simps(2) list.sel(3))
  qed
  ultimately show ?thesis using insert_all_window [OF window_of_new] by (simp add: history_insert_def)
qed

lemma engine_run_split:
  assumes "engine_run (es @ fs) e = Some (e2, outs)"
  obtains e1 outs1 outs2 where "engine_run es e = Some (e1, outs1)" "engine_run fs e1 = Some (e2, outs2)" "outs = outs1 @ outs2"
  using assms by (auto simp: engine_run_append split: option.splits)

lemma passes_dedup_window_evicts_oldest_client_order_id: "test_dedup_window_evicts_oldest_client_order_id = Some True"
proof -
  let ?ids = "window_ids @ [1, of_nat (Suc dedup_window), 1]" and ?req = "\<lparr>dep_amount = 1, dep_currency = USD\<rparr>"
  let ?log = "\<lambda>is. map (\<lambda>i. (sorted_hashing, 1, i, Deposit ?req)) is"
  have "hashing_ok (?log ?ids)" by (auto simp: hashing_ok_def sorted_hashing_def)
  moreover have "length (?log ?ids) \<le> 10 ^ 14" by (simp add: window_ids(2) dedup_window_def)
  ultimately obtain e outs where run: "engine_run (?log ?ids) engine_new = Some (e, outs)" by (rule run_from_new)
  have "engine_run (?log window_ids @ ?log [1, of_nat (Suc dedup_window), 1]) engine_new = Some (e, outs)"
    using run by (simp only: map_append)
  then obtain e1 outs1 outs2 where r: "engine_run (?log window_ids) engine_new = Some (e1, outs1)"
    "engine_run (?log [1, of_nat (Suc dedup_window), 1]) e1 = Some (e, outs2)" "outs = outs1 @ outs2"
    by (rule engine_run_split)
  let ?dep = "\<lambda>out. is_deposit_response (fst out)"
  have new: "eng_dedup engine_new = dedup_new" by (simp add: engine_new_def)
  note all = deposit_responses [OF run, unfolded new window_decisions] and first = deposit_responses [OF r(1), THEN conjunct1]
  have "hashing_ok (?log window_ids)" "length (?log window_ids) \<le> 10 ^ 14"
    by (auto simp: hashing_ok_def sorted_hashing_def window_ids(2) dedup_window_def)
  then have "length outs1 = dedup_window" using run_from_new_facts(4) [OF _ _ r(1)] by (simp add: window_ids(2))
  moreover from all have "map ?dep (outs1 @ outs2) = replicate dedup_window True @ [False, True, True]" unfolding r(3) by (rule conjunct1)
  ultimately have d: "map ?dep outs1 = replicate dedup_window True" "map ?dep outs2 = [False, True, True]"
    by (simp_all add: append_eq_append_conv)
  then obtain x y z where o2: "outs2 = [x, y, z]" "\<not> ?dep x" "?dep y" "?dep z" by (auto simp: map_eq_Cons_conv)
  have "fst x = Duplicate" using conjunct2 [OF all] o2 by (auto simp: r(3))
  moreover have "\<forall>out \<in> set outs1. ?dep out" 
  proof
    fix out assume "out \<in> set outs1"
    then have "?dep out \<in> set (map ?dep outs1)" by simp
    then show "?dep out" unfolding d(1) by (simp only: set_replicate_conv_if split: if_splits) simp_all
  qed
  moreover have "map window_deposit [1..<Suc dedup_window] = ?log window_ids"
    "[window_deposit 1, window_deposit (Suc dedup_window), window_deposit 1] = ?log [1, of_nat (Suc dedup_window), 1]"
    by (simp_all add: window_ids_def window_deposit_def comp_def del: upt_Suc)
  ultimately show ?thesis
    unfolding test_dedup_window_evicts_oldest_client_order_id_def using o2
    by (simp only: r(1,2) Option.bind.bind_lunit prod.case) simp
qed

end
