(* ===== verification/Auth_Tests.thy ===== *)
theory Auth_Tests
  imports Auth "HOL-Library.Monad_Syntax"
begin

text \<open>
  The unit tests of \<open>src/bin/api/auth.rs\<close>, in the form of \<open>Book_Tests\<close>: what they expect of the code follows from the
  documented behaviour of the JWT and \<open>argon2\<close> libraries, for every instance of it.
\<close>

text \<open>\<open>unwrap\<close> of a result.\<close>

definition unwrapped :: "'e + 'a \<Rightarrow> 'a option" where
  "unwrapped r = (case r of Inl _ \<Rightarrow> None | Inr x \<Rightarrow> Some x)"

lemma unwrapped_simps [simp]: "unwrapped (Inr x) = Some x" "unwrapped (Inl e) = None"
  by (simp_all add: unwrapped_def)

section \<open>Tokens\<close>

definition test_sign_then_verify_round_trips :: "jwt_encode \<Rightarrow> jwt_decode \<Rightarrow> u64 \<Rightarrow> bool option" where
  "test_sign_then_verify_round_trips enc dec now = do {
     token \<leftarrow> unwrapped (sign enc now 42);
     c \<leftarrow> unwrapped (verify dec token);
     Some (cl_sub c = 42)
   }"

lemma passes_sign_then_verify_round_trips:
  assumes "jwt_ok enc dec" "\<And>c. \<exists>token. enc c = Inr token" "unat now + 86400 < 2 ^ 64" "t \<le> unat now + 86460"
  shows "test_sign_then_verify_round_trips enc (dec t) now = Some True"
proof -
  obtain token where tok: "enc \<lparr>cl_sub = 42, cl_exp = now + token_ttl_secs\<rparr> = Inr token" using assms(2) by blast
  have "unat (now + token_ttl_secs) = unat now + 86400" using assms(3) by (simp add: token_ttl_secs_def unat_add_exact)
  then have "dec t token = Inr \<lparr>cl_sub = 42, cl_exp = now + token_ttl_secs\<rparr>" using assms(1,4) tok by (simp add: jwt_ok_def)
  then show ?thesis by (simp add: test_sign_then_verify_round_trips_def sign_def verify_def tok)
qed

text \<open>The decoder of another key refuses the tokens of this one.\<close>

definition test_verify_rejects_wrong_key :: "jwt_encode \<Rightarrow> jwt_decode \<Rightarrow> u64 \<Rightarrow> bool option" where
  "test_verify_rejects_wrong_key enc wrong now = do {
     token \<leftarrow> unwrapped (sign enc now 42);
     Some (unwrapped (verify wrong token) = None)
   }"

lemma passes_verify_rejects_wrong_key:
  assumes "\<And>c. \<exists>token m. enc c = Inr token \<and> wrong token = Inl m"
  shows "test_verify_rejects_wrong_key enc wrong now = Some True"
proof -
  obtain token m where "enc \<lparr>cl_sub = 42, cl_exp = now + token_ttl_secs\<rparr> = Inr token" "wrong token = Inl m" using assms by blast
  then show ?thesis by (simp add: test_verify_rejects_wrong_key_def sign_def verify_def)
qed

definition test_verify_rejects_expired_token :: "jwt_encode \<Rightarrow> jwt_decode \<Rightarrow> bool option" where
  "test_verify_rejects_expired_token enc dec = do {
     token \<leftarrow> unwrapped (enc \<lparr>cl_sub = 7, cl_exp = 1\<rparr>);
     Some (unwrapped (verify dec token) = None)
   }"

lemma passes_verify_rejects_expired_token:
  assumes "jwt_ok enc dec" "\<And>c. \<exists>token. enc c = Inr token" "61 < t"
  shows "test_verify_rejects_expired_token enc (dec t) = Some True"
proof -
  obtain token where tok: "enc \<lparr>cl_sub = 7, cl_exp = 1\<rparr> = Inr token" using assms(2) by blast
  then have "dec t token = Inl ''ExpiredSignature''" using assms(1,3) by (simp add: jwt_ok_def)
  then show ?thesis by (simp add: test_verify_rejects_expired_token_def verify_def tok)
qed

section \<open>Passwords\<close>

definition test_password_verifies_correct_and_rejects_wrong :: "'h argon \<Rightarrow> string \<Rightarrow> bool option" where
  "test_password_verifies_correct_and_rejects_wrong ar salt = do {
     hash \<leftarrow> unwrapped (hash_password ar salt ''correct horse'');
     correct \<leftarrow> unwrapped (verify_password ar ''correct horse'' hash);
     wrong \<leftarrow> unwrapped (verify_password ar ''wrong password'' hash);
     Some (correct \<and> \<not> wrong)
   }"

lemma passes_password_verifies_correct_and_rejects_wrong:
  assumes "hasher_ok ar" "\<And>salt pw. \<exists>h. ar_hash ar salt pw = Inr h"
  shows "test_password_verifies_correct_and_rejects_wrong ar salt = Some True"
proof -
  obtain h where "ar_hash ar salt ''correct horse'' = Inr h" using assms(2) by blast
  then have h: "hash_password ar salt ''correct horse'' = Inr (ar_text ar h)" by (simp add: hash_password_def)
  show ?thesis by (simp add: test_password_verifies_correct_and_rejects_wrong_def h hash_then_verify [OF assms(1) h])
qed

text \<open>Each hash is made with a salt of its own; hashes with different salts differ.\<close>

definition test_same_password_hashes_differently_salted :: "'h argon \<Rightarrow> string \<Rightarrow> string \<Rightarrow> bool option" where
  "test_same_password_hashes_differently_salted ar salt1 salt2 = do {
     h1 \<leftarrow> unwrapped (hash_password ar salt1 ''pw'');
     h2 \<leftarrow> unwrapped (hash_password ar salt2 ''pw'');
     Some (h1 \<noteq> h2)
   }"

lemma passes_same_password_hashes_differently_salted:
  assumes "\<And>s1 s2 pw. s1 \<noteq> s2 \<Longrightarrow> \<exists>h1 h2. ar_hash ar s1 pw = Inr h1 \<and> ar_hash ar s2 pw = Inr h2 \<and> ar_text ar h1 \<noteq> ar_text ar h2"
    and "salt1 \<noteq> salt2"
  shows "test_same_password_hashes_differently_salted ar salt1 salt2 = Some True"
  using assms(1) [OF assms(2), of "''pw''"] by (auto simp: test_same_password_hashes_differently_salted_def hash_password_def)

end
