(* ===== verification/Spec2Isabelle.thy ===== *)
theory Spec2Isabelle
  imports Engine_Replay Engine_Codec Book_Json Db_Service Retention Market_Data Api_Reads Api_Service Bot_Quotes Startup Codec_Tests Auth_Tests
begin

text \<open>
  A verification of the matching engine: the exchange core in \<open>src/*.rs\<close> and the processes in \<open>src/bin/\<close>.

  \<^bold>\<open>The program.\<close> Clients send requests to the API (\<open>src/bin/api/\<close>), which appends commands to the Redis stream
  \<open>commands\<close>. The engine process (\<open>src/runtime.rs\<close>) reads them one by one, applies each to its in-memory engine
  (\<open>src/engine.rs\<close>: a ledger and one order book per market), appends the resulting batch of events to the stream
  \<open>events\<close>, publishes the response, acknowledges the command and now and then saves a snapshot and trims the stream.
  The events have three readers: the database writer (\<open>src/bin/db_writer.rs\<close>), the API's book projection
  (\<open>src/bin/api/book.rs\<close>), and, through the projection's broadcast channel, the websocket feeds
  (\<open>src/bin/api/ws.rs\<close>). A bot (\<open>src/bin/bot.rs\<close>) makes a market through the API.

  \<^bold>\<open>Theories and code.\<close>
  \<^item> \<open>Prelude\<close>, \<open>BTree_Map\<close>, \<open>Decimal\<close>: what the code uses of the standard library: \<open>u64\<close> (release mode: plain
    operations wrap), hash-set iteration order as a parameter (\<open>drain\<close>), \<open>BTreeMap\<close> as sorted association lists
    behind the locale \<open>ordered_map\<close>, integer parsing and printing.
  \<^item> \<open>Market\<close> (\<open>market.rs\<close>, \<open>error.rs\<close>), \<open>Messages\<close> (\<open>command.rs\<close>, \<open>event.rs\<close>), \<open>Candle\<close> (\<open>candle.rs\<close>).
  \<^item> \<open>Order_Book\<close> is \<open>book.rs\<close>. \<open>Book_Matching\<close> shows what the matching loops compute, \<open>Book_Invariant\<close> that the
    operations keep the book well formed, \<open>Book_Queries\<close> that the read-only walks predict the matching,
    \<open>Book_Funds\<close> what a book binds of its users' funds, \<open>Book_Properties\<close> the promises.
  \<^item> \<open>Ledger\<close> is \<open>ledger.rs\<close> behind the locale \<open>funds_ledger\<close>; \<open>Engine\<close> is \<open>engine.rs\<close>. \<open>Engine_Funds\<close>, \<open>Engine_Invariant\<close>
    and \<open>Engine_Safety\<close> show that every command keeps the engine's invariant and that runs do not panic,
    \<open>Engine_Properties\<close> what each command does, \<open>Engine_Replay\<close> idempotency, determinism and numbering;
    \<open>Engine_Examples\<close> is an evaluated session the theorems are instantiated with.
  \<^item> \<open>Snapshot\<close> is \<open>snapshot.rs\<close>. \<open>Log_Replay\<close> is the locale \<open>log_machine\<close> of a process that folds a trimmed stream
    over a snapshot; it is interpreted for the engine in \<open>Runtime\<close> (\<open>runtime.rs\<close>) and for the projection in
    \<open>Book_Tail\<close>. \<open>Engine_Service\<close> is the engine process in its environment, a step relation with clients, crashes, lost
    publications and partial trims.
  \<^item> \<open>Json\<close> is the data model of the derived serializers, behind the locale \<open>serde\<close> of a type that can be written and read
    back; \<open>Wire\<close> interprets it for every message, \<open>Engine_Json\<close> for the engine and its snapshots, \<open>Book_Json\<close> for the book
    projection. \<open>Engine_Codec\<close> is the engine process with these formats, \<open>Json_Text\<close> a text form of JSON values that the
    theorems are instantiated with.
  \<^item> \<open>Event_Stream\<close> says what batches tell about the engine that emitted them, and states the locale
    \<open>event_consumer\<close> of a view kept current from them; \<open>Book_Projection\<close> and \<open>Book_Tail\<close> (\<open>bin/api/book.rs\<close>) and
    \<open>Db_Tables\<close> interpret it.
  \<^item> \<open>Db_Writer\<close> and \<open>Retention\<close> are \<open>bin/db_writer.rs\<close> on the tables of \<open>migrations/\<close>; \<open>Db_Properties\<close> and
    \<open>Db_Service\<close> show what the tables hold and what survives crashes.
  \<^item> \<open>Auth\<close> (\<open>bin/api/auth.rs\<close>), \<open>Api\<close> (write handlers of \<open>bin/api/main.rs\<close>), \<open>Api_Service\<close> (\<open>submit_command\<close> and the result
    subscriber as a step relation of concurrent calls), \<open>Api_Reads\<close> (its queries), \<open>Ws\<close> (\<open>bin/api/ws.rs\<close>) and
    \<open>Market_Data\<close> (a client that combines snapshot and feed as the code documents).
  \<^item> \<open>Bot\<close> is \<open>bin/bot.rs\<close>; \<open>Bot_Quotes\<close> runs what it sends through the API's extractors and the engine.
    \<open>Startup\<close> is how the processes start, with the sweep schedule of the database writer.
  \<^item> \<open>Book_Tests\<close>, \<open>Engine_Tests\<close>, \<open>Codec_Tests\<close> and \<open>Auth_Tests\<close> run the program's own unit tests on the model.

  \<^bold>\<open>How the code is rendered.\<close> Structs are records, enums datatypes, with prefixed field names. A function that can
  panic returns an \<open>option\<close> (\<open>None\<close>: the panic), a \<open>Result\<close> is a sum with the error on the left, and \<open>&mut self\<close> is state
  passing. Operations on the outside (Redis commands, file operations, commits) are lists of effects in their order, so
  that a crash can fall between any two. Loops are recursions with a termination proof; the one loop of the code
  that may run forever, the bot waiting for the API, has fuel and returns \<open>None\<close> without enough of it.

  \<^bold>\<open>Bounds.\<close> The theorems on runs allow \<open>10 ^ 14\<close> commands from an empty engine with the default limits. Each deposit adds
  at most the deposit ceiling, and the total of a currency then stays below \<open>2 ^ 64\<close>, so no balance, total or id can
  wrap around. With other limits the same lemmas apply as long as the totals fit.

  \<^bold>\<open>Parameters.\<close> The iteration order of hash sets and maps; the text of a JSON value and of a uuid (a printed value parses back),
  where \<open>Runtime\<close>, \<open>Engine_Service\<close> and \<open>Book_Tail\<close> leave the whole encoding open and \<open>Engine_Codec\<close> and \<open>Book_Json\<close> fix it, with
  one iteration order for all snapshots of a process (what is read back does not depend on it);
  \<open>XRANGE\<close> (the retained entries after the given one); which rows a limited \<open>DELETE\<close> picks; clocks; Argon2
  (a password verifies against its own hash only) and the JWT library (a signed token verifies until a minute after it expires);
  the broadcast channel and the sockets; the replies the bot gets. Hypotheses name these assumptions, and the witnesses
  instantiate them with concrete functions.

  \<^bold>\<open>Not modelled.\<close> \<open>bin/migrate.rs\<close> and the benchmarks; logging; the HTTP server, CORS, routing
  by path string, JSON syntax and the JSON of HTTP bodies and websocket frames; task spawning; the reconnection of clients; SQL
  syntax and transactions of other clients (the writer is the only one to write its tables). Of the documents the derived
  deserializers accept, the readers here take those the serializers write and reorderings and extensions of their fields. A Redis
  or database error ends the process that meets it, which is a crash of the step relations.

  Lemmas named in passing show where code and documentation part: \<open>trade_time_is_wall_clock\<close>,
  \<open>crash_before_commit_loses_batch\<close>, \<open>recovered_command_is_silent\<close>, \<open>ignored_snapshot_loses_history\<close>,
  \<open>zero_price_level_vanishes\<close>, \<open>first_batch_is_dropped\<close>, \<open>ladder_gap\<close>, \<open>edge_ask_out_of_band\<close> and \<open>quotes_dead_above\<close>.
\<close>

section \<open>The engine as a whole\<close>

text \<open>C1: with the default limits, no sequence of up to \<open>10 ^ 14\<close> commands, in any order and with
  any arguments, makes the engine panic; every command is answered, and the engine ends in a
  state that satisfies its invariant.\<close>

theorem engine_never_panics:
  assumes "hashing_ok es" "length es \<le> 10 ^ 14"
  shows "\<exists>e outs. engine_run es engine_new = Some (e, outs) \<and> length outs = length es \<and> engine_inv e"
  using run_from_new [OF assms] unfolding settled_def by metis

theorem engine_never_panics_witness:
  "\<exists>e outs. engine_run demo_log engine_new = Some (e, outs) \<and> length outs = length demo_log \<and> engine_inv e"
  by (rule engine_never_panics [OF demo_hashing])

text \<open>C2: money is conserved. After any such run, everything the accounts hold of a currency,
  available or reserved, is what was deposited minus what was withdrawn.\<close>

theorem money_is_conserved:
  assumes "hashing_ok es" "length es \<le> 10 ^ 14" "engine_run es engine_new = Some (e, outs)"
  shows "(\<Sum>a \<in> UNIV. avail (eng_ledger e) a c + resv (eng_ledger e) a c) + total_outflow es outs c = total_inflow es outs c"
  using run_from_new_facts(2) [OF assms, of c] by (simp add: supply_of_def total_supply_def total_of_def)

theorem money_is_conserved_witness:
  "(\<Sum>a \<in> UNIV. avail (eng_ledger demo_e7) a USD + resv (eng_ledger demo_e7) a USD) + 50 = 500"
proof -
  have "total_outflow demo_log demo_outs USD = 50" "total_inflow demo_log demo_outs USD = 500"
    by (simp_all add: total_outflow_def total_inflow_def demo_log_def demo_outs_def outflow_def inflow_def)
  then show ?thesis using money_is_conserved [OF demo_hashing demo_run, of USD] by simp
qed

text \<open>C3: reserves are backed. After any such run, what an account has reserved of a currency is
  exactly what its open orders commit: the remaining quantity times the limit price in the
  quote currency for a bid, the remaining quantity in the base currency for an ask.\<close>

theorem reserves_are_backed:
  assumes "hashing_ok es" "length es \<le> 10 ^ 14" "engine_run es engine_new = Some (e, outs)"
  shows "resv (eng_ledger e) a c = (\<Sum>p \<in> UNIV. \<Sum>m \<leftarrow> resting (book_for e p). commitment p m a c)"
  using run_from_new_facts(1) [OF assms]
  by (simp add: settled_def engine_inv_def backed_def engine_commit_def book_commit_def)

theorem reserves_are_backed_witness:
  "(\<Sum>p \<in> UNIV. \<Sum>m \<leftarrow> resting (book_for demo_e7 p). commitment p m 8 USD) = 36"
  using reserves_are_backed [OF demo_hashing demo_run, of 8 USD] demo_state(7) by simp

text \<open>C4: no book is ever left crossed: after any such run, every bid of every market is below
  every ask of it, the market is a valid pair, and the order ids of all markets are distinct.\<close>

theorem books_stay_uncrossed:
  assumes "hashing_ok es" "length es \<le> 10 ^ 14" "engine_run es engine_new = Some (e, outs)" "books e p = Some b"
  shows "is_valid p \<and> (\<forall>m \<in> set (resting b). \<forall>n \<in> set (resting b). ord_side m = Bid \<and> ord_side n = Ask \<longrightarrow> ord_price m < ord_price n) \<and>
    (\<forall>q b'. books e q = Some b' \<and> ord_id ` set (resting b) \<inter> ord_id ` set (resting b') \<noteq> {} \<longrightarrow> p = q)"
proof -
  have inv: "books_ok e" "routes_ok e" using run_from_new_facts(1) [OF assms(1-3)] by (simp_all add: settled_def engine_inv_def)
  then have b: "is_valid p" "book_inv b" using assms(4) by (auto simp: books_ok_def)
  have level: "ord_price m \<in> fst ` set (side_levels (ord_side m) b)" if "m \<in> set (resting b)" for m
    using resting_level [OF b(2) that] by (metis fst_conv image_eqI)
  have "ord_price m < ord_price n" if "m \<in> set (resting b)" "n \<in> set (resting b)" "ord_side m = Bid" "ord_side n = Ask" for m n
  proof -
    have "uncrossed b" using b(2) by (simp add: book_inv_def)
    then show ?thesis using level [OF that(1)] level [OF that(2)] that(3,4) unfolding uncrossed_def by force
  qed
  moreover have "p = q" if b': "books e q = Some b'" and shared: "ord_id ` set (resting b) \<inter> ord_id ` set (resting b') \<noteq> {}" for q b'
  proof -
    obtain i where "i \<in> ord_id ` set (resting b)" "i \<in> ord_id ` set (resting b')" using shared by blast
    moreover have "book_inv b'" using b' inv(1) by (auto simp: books_ok_def)
    ultimately have "order_index b i \<noteq> None" "order_index b' i \<noteq> None"
      using index_resting [OF b(2), of i] index_resting [of b' i] by auto
    then have "order_pair e i = Some p" "order_pair e i = Some q" using inv(2) assms(4) b' by (auto simp: routes_ok_def)
    then show ?thesis by simp
  qed
  ultimately show ?thesis using b(1) by blast
qed

theorem books_stay_uncrossed_witness:
  "is_valid sol_usd \<and> (\<exists>m n. set (resting demo_final) = {m, n} \<and> ord_side m = Bid \<and> ord_side n = Ask \<and> ord_price m < ord_price n)"
proof -
  obtain m n where r: "set (resting demo_final) = {m, n}" "ord_side m = Bid" "ord_side n = Ask"
    by (simp add: demo_final_def resting_def)
  show ?thesis using books_stay_uncrossed [OF demo_hashing demo_run demo_state(1)] r by blast
qed

end
